(* ===== verification/Prelude.thy ===== *)
theory Prelude
  imports Main "HOL-Library.Finite_Map" "HOL-Library.Char_ord" "HOL-Library.List_Lexorder"
    "HOL-Library.Sublist"
begin

section \<open>Shared vocabulary of the development\<close>

text \<open>
  Names and automation every component uses.

  A Go string is a sequence of bytes and is a HOL \<open>string\<close>, a list of characters of eight
  bits. A Go map is a finite map. Go distinguishes the nil map from the empty map (the code
  compares with nil, and nil marshals as \<open>null\<close>), so a map variable is a \<open>gomap\<close>,
  an optional finite map whose \<open>None\<close> is nil. Reading a nil map is reading an empty one
  (\<open>entries\<close>); writing to it panics, and each writer says so itself.

  Go iterates over a map in an order that changes from one loop to the next. A function that
  does so takes that order as an argument, the list of the keys in the order the run visits
  them, and \<open>iterates\<close> says that a list is such an order.
\<close>

named_theorems go_simps \<open>equations of the modelled standard library\<close>
named_theorems wf_intros \<open>introduction rules of the well-formedness predicates\<close>

type_synonym ('k, 'v) gomap = "('k, 'v) fmap option"

definition entries :: "('k, 'v) gomap \<Rightarrow> ('k, 'v) fmap" where
  "entries m = (case m of None \<Rightarrow> fmempty | Some f \<Rightarrow> f)"

definition gomap_len :: "('k, 'v) gomap \<Rightarrow> nat" where
  "gomap_len m = size (fmdom (entries m))"

definition iterates :: "'k list \<Rightarrow> ('k, 'v) fmap \<Rightarrow> bool" where
  "iterates ks m \<longleftrightarrow> distinct ks \<and> fset_of_list ks = fmdom m"

lemma entries_simps [simp]: "entries None = fmempty" "entries (Some f) = f"
  by (simp_all add: entries_def)

lemma gomap_len_simps [simp]:
  "gomap_len None = 0" "gomap_len (Some f) = size (fmdom f)"
  by (simp_all add: gomap_len_def)

lemma iterates_distinct: "iterates ks m \<Longrightarrow> distinct ks"
  by (simp add: iterates_def)

lemma iterates_set: "iterates ks m \<Longrightarrow> k \<in> set ks \<longleftrightarrow> fmlookup m k \<noteq> None"
  by (metis fmdom_notD fmdom_notI fset_of_list_elem iterates_def)

lemma iterates_length: "iterates ks m \<Longrightarrow> length ks = size (fmdom m)"
proof -
  assume it: "iterates ks m"
  then have "fset (fmdom m) = set ks"
    by (metis iterates_def fset_of_list.rep_eq)
  with it show ?thesis
    by (simp add: iterates_distinct distinct_card)
qed

lemma iterates_empty [simp]: "iterates ks fmempty \<longleftrightarrow> ks = []"
  by (cases ks) (auto simp: iterates_def)

lemma distinct_sorted_fmap: "distinct (map fst (sorted_list_of_fmap m))"
  by (simp add: sorted_list_of_fmap_def comp_def sorted_list_of_fset.rep_eq)

lemma iterates_sorted: "iterates (map fst (sorted_list_of_fmap m)) m"
  unfolding iterates_def
  by (simp add: distinct_sorted_fmap, simp add: sorted_list_of_fmap_def comp_def)

lemma fmlookup_fmap_of_rev:
  "fmlookup (fmap_of_list (rev (xs @ [(k, v)]))) k = Some v"
  by (simp add: fmlookup_of_list)

lemma map_of_sorted_fmap: "fmap_of_list (sorted_list_of_fmap m) = m"
  by (rule fmap_ext) (simp add: fmlookup_of_list)

lemma map_of_rev_distinct: "distinct (map fst xs) \<Longrightarrow> map_of (rev xs) = map_of xs"
  by (rule map_of_eqI) (auto simp: map_of_eq_Some_iff simp flip: rev_map)

lemma fmap_of_rev_sorted: "fmap_of_list (rev (sorted_list_of_fmap m)) = m"
  by (rule fmap_ext) (simp add: fmlookup_of_list map_of_rev_distinct distinct_sorted_fmap)

end
