(* ===== verification/GoStrings.thy ===== *)
theory GoStrings
  imports Prelude
begin

section \<open>The strings package\<close>

text \<open>
  The functions of Go's \<open>strings\<close>, \<open>strconv\<close> and \<open>encoding/hex\<close> packages
  the program calls, over byte strings. \<open>join_sep\<close>/\<open>split_sep\<close> are \<open>Join\<close> and
  \<open>Split\<close> with a separator of one byte, the only way the program uses them;
  \<open>trim_space\<close> removes the encodings of all Unicode white-space runes, as
  \<open>TrimSpace\<close> does. \<open>quote_go\<close> is the \<open>%q\<close> verb; it takes the runes beyond
  ASCII as printable.
\<close>

subsection \<open>Definitions\<close>

fun split_sep :: "char \<Rightarrow> string \<Rightarrow> string list" where
  "split_sep c [] = [[]]"
| "split_sep c (x # xs) =
     (if x = c then [] # split_sep c xs
      else (case split_sep c xs of [] \<Rightarrow> [[x]] | y # ys \<Rightarrow> (x # y) # ys))"

fun join_sep :: "string \<Rightarrow> string list \<Rightarrow> string" where
  "join_sep sep [] = []"
| "join_sep sep [x] = x"
| "join_sep sep (x # y # ys) = x @ sep @ join_sep sep (y # ys)"

text \<open>\<open>strings.Cut\<close>: the text before and after the first occurrence of \<open>sep\<close>, if any.\<close>

fun cut :: "string \<Rightarrow> string \<Rightarrow> (string \<times> string) option" where
  "cut sep [] = (if sep = [] then Some ([], []) else None)"
| "cut sep (c # cs) =
     (if take (length sep) (c # cs) = sep then Some ([], drop (length sep) (c # cs))
      else (case cut sep cs of None \<Rightarrow> None | Some (b, a) \<Rightarrow> Some (c # b, a)))"

definition has_prefix :: "string \<Rightarrow> string \<Rightarrow> bool" where
  "has_prefix s p \<longleftrightarrow> take (length p) s = p"

definition has_suffix :: "string \<Rightarrow> string \<Rightarrow> bool" where
  "has_suffix s p \<longleftrightarrow> has_prefix (rev s) (rev p)"

definition trim_prefix :: "string \<Rightarrow> string \<Rightarrow> string" where
  "trim_prefix s p = (if has_prefix s p then drop (length p) s else s)"

definition trim_right_byte :: "string \<Rightarrow> char \<Rightarrow> string" where
  "trim_right_byte s c = rev (dropWhile (\<lambda>x. x = c) (rev s))"

fun index_byte :: "string \<Rightarrow> char \<Rightarrow> nat option" where
  "index_byte [] c = None"
| "index_byte (x # xs) c = (if x = c then Some 0 else map_option Suc (index_byte xs c))"

fun last_index_byte :: "string \<Rightarrow> char \<Rightarrow> nat option" where
  "last_index_byte [] c = None"
| "last_index_byte (x # xs) c =
     (case last_index_byte xs c of
        Some n \<Rightarrow> Some (Suc n)
      | None \<Rightarrow> (if x = c then Some 0 else None))"

text \<open>The slice \<open>s[i:j]\<close> for \<open>i \<le> j \<le> length s\<close>.\<close>

definition slice :: "string \<Rightarrow> nat \<Rightarrow> nat \<Rightarrow> string" where
  "slice s i j = take (j - i) (drop i s)"

text \<open>The white-space runes of \<open>unicode.IsSpace\<close>, in UTF-8.\<close>

definition space_runes :: "string list" where
  "space_runes =
     [[CHR 0x09], [CHR 0x0A], [CHR 0x0B], [CHR 0x0C], [CHR 0x0D], [CHR 0x20],
      [CHR 0xC2, CHR 0x85], [CHR 0xC2, CHR 0xA0], [CHR 0xE1, CHR 0x9A, CHR 0x80],
      [CHR 0xE2, CHR 0x80, CHR 0x80], [CHR 0xE2, CHR 0x80, CHR 0x81],
      [CHR 0xE2, CHR 0x80, CHR 0x82], [CHR 0xE2, CHR 0x80, CHR 0x83],
      [CHR 0xE2, CHR 0x80, CHR 0x84], [CHR 0xE2, CHR 0x80, CHR 0x85],
      [CHR 0xE2, CHR 0x80, CHR 0x86], [CHR 0xE2, CHR 0x80, CHR 0x87],
      [CHR 0xE2, CHR 0x80, CHR 0x88], [CHR 0xE2, CHR 0x80, CHR 0x89],
      [CHR 0xE2, CHR 0x80, CHR 0x8A], [CHR 0xE2, CHR 0x80, CHR 0xA8],
      [CHR 0xE2, CHR 0x80, CHR 0xA9], [CHR 0xE2, CHR 0x80, CHR 0xAF],
      [CHR 0xE2, CHR 0x81, CHR 0x9F], [CHR 0xE3, CHR 0x80, CHR 0x80]]"

definition leading :: "string list \<Rightarrow> string \<Rightarrow> string option" where
  "leading rs s = find (\<lambda>r. r \<noteq> [] \<and> has_prefix s r) rs"

function strip :: "string list \<Rightarrow> string \<Rightarrow> string" where
  "strip rs s = (case leading rs s of None \<Rightarrow> s | Some r \<Rightarrow> strip rs (drop (length r) s))"
  by pat_completeness auto

lemma leading_Some: "leading rs s = Some r \<Longrightarrow> r \<in> set rs \<and> r \<noteq> [] \<and> has_prefix s r"
  unfolding leading_def by (metis (mono_tags, lifting) find_Some_iff nth_mem)

lemma has_prefix_length: "has_prefix s p \<Longrightarrow> length p \<le> length s"
  by (metis has_prefix_def length_take min.cobounded1)

termination strip
proof (relation "measure (\<lambda>(rs, s). length s)")
  show "wf (measure (\<lambda>(rs, s). length s))" by simp
next
  fix rs s r
  assume "leading rs s = Some r"
  then have "r \<noteq> []" "length r \<le> length s"
    by (auto dest: leading_Some has_prefix_length)
  then show "((rs, drop (length r) s), rs, s) \<in> measure (\<lambda>(rs, s). length s)"
    by (cases r) auto
qed

declare strip.simps [simp del]

definition trim_space :: "string \<Rightarrow> string" where
  "trim_space s = rev (strip (map rev space_runes) (rev (strip space_runes s)))"

subsection \<open>Hexadecimal and quoting\<close>

definition hex_digit :: "bool \<Rightarrow> bool \<Rightarrow> bool \<Rightarrow> bool \<Rightarrow> char" where
  "hex_digit b3 b2 b1 b0 =
     ''0123456789abcdef'' ! (of_bool b3 * 8 + of_bool b2 * 4 + of_bool b1 * 2 + of_bool b0)"

fun hex_byte :: "char \<Rightarrow> string" where
  "hex_byte (Char b0 b1 b2 b3 b4 b5 b6 b7) = [hex_digit b7 b6 b5 b4, hex_digit b3 b2 b1 b0]"

definition hex_encode :: "string \<Rightarrow> string" where
  "hex_encode bs = concat (map hex_byte bs)"

definition ascii_byte :: "char \<Rightarrow> bool" where
  "ascii_byte c \<longleftrightarrow> \<not> digit7 c"

definition control_byte :: "char \<Rightarrow> bool" where
  "control_byte c \<longleftrightarrow> \<not> digit7 c \<and> \<not> digit6 c \<and> \<not> digit5 c"

definition printable_byte :: "char \<Rightarrow> bool" where
  "printable_byte c \<longleftrightarrow> ascii_byte c \<and> \<not> control_byte c \<and> c \<noteq> CHR 0x7F"

definition graphic_byte :: "char \<Rightarrow> bool" where
  "graphic_byte c \<longleftrightarrow> printable_byte c \<and> c \<noteq> CHR 0x20"

definition quote_go_byte :: "char \<Rightarrow> string" where
  "quote_go_byte c =
     (if c = CHR 0x22 \<or> c = CHR 0x5C then [CHR 0x5C, c]
      else if c = CHR 0x07 then [CHR 0x5C, CHR ''a'']
      else if c = CHR 0x08 then [CHR 0x5C, CHR ''b'']
      else if c = CHR 0x0C then [CHR 0x5C, CHR ''f'']
      else if c = CHR 0x0A then [CHR 0x5C, CHR ''n'']
      else if c = CHR 0x0D then [CHR 0x5C, CHR ''r'']
      else if c = CHR 0x09 then [CHR 0x5C, CHR ''t'']
      else if c = CHR 0x0B then [CHR 0x5C, CHR ''v'']
      else if control_byte c \<or> c = CHR 0x7F then [CHR 0x5C, CHR ''x''] @ hex_byte c
      else [c])"

definition quote_go :: "string \<Rightarrow> string" where
  "quote_go s = [CHR 0x22] @ concat (map quote_go_byte s) @ [CHR 0x22]"

subsection \<open>Splitting and joining\<close>

lemma split_sep_not_Nil [simp]: "split_sep c s \<noteq> []"
  by (cases s) (auto split: list.splits)

lemma split_sep_no: "c \<notin> set s \<Longrightarrow> split_sep c s = [s]"
  by (induction s) auto

lemma split_sep_append: "c \<notin> set s \<Longrightarrow> split_sep c (s @ c # t) = s # split_sep c t"
  by (induction s) auto

lemma split_join_sep:
  "xs \<noteq> [] \<Longrightarrow> \<forall>x \<in> set xs. c \<notin> set x \<Longrightarrow> split_sep c (join_sep [c] xs) = xs"
proof (induction xs rule: induct_list012)
  case (3 x y zs)
  then show ?case by (simp add: split_sep_append)
qed (auto simp: split_sep_no)

lemma join_split_sep: "join_sep [c] (split_sep c s) = s"
proof (induction s)
  case (Cons x xs)
  then show ?case
    by (cases "split_sep c xs"; cases "tl (split_sep c xs)") auto
qed simp

lemma split_sep_parts_free: "y \<in> set (split_sep c s) \<Longrightarrow> c \<notin> set y"
proof (induction s arbitrary: y)
  case (Cons x xs)
  then show ?case by (cases "split_sep c xs") (auto split: if_splits)
qed simp

lemma join_sep_Nil_iff: "join_sep sep xs = [] \<longleftrightarrow> xs = [] \<or> xs = [[]] \<or> (sep = [] \<and> (\<forall>x\<in>set xs. x = []))"
  by (induction xs rule: induct_list012) auto

lemma cut_append:
  "c \<notin> set s \<Longrightarrow> cut [c] (s @ c # t) = Some (s, t)"
  by (induction s) auto

lemma cut_Some: "cut sep s = Some (b, a) \<Longrightarrow> s = b @ sep @ a"
proof (induction s arbitrary: b a)
  case (Cons c cs)
  show ?case
  proof (cases "take (length sep) (c # cs) = sep")
    case True
    with Cons.prems show ?thesis
      by auto (metis append_take_drop_id)
  next
    case False
    with Cons show ?thesis by (auto split: option.splits)
  qed
qed (auto split: if_splits)

subsection \<open>Trimming\<close>

lemma leading_None_graphic:
  assumes "\<forall>r \<in> set rs. r = [] \<or> hd r \<noteq> c"
  shows "leading rs (c # s) = None"
  unfolding leading_def find_None_iff
proof
  assume "\<exists>r. r \<in> set rs \<and> r \<noteq> [] \<and> has_prefix (c # s) r"
  then obtain r where r: "r \<in> set rs" "r \<noteq> []" "has_prefix (c # s) r" by blast
  from r(2,3) have "hd r = c" unfolding has_prefix_def by (metis hd_take length_greater_0_conv list.sel(1))
  with r assms show False by blast
qed

lemma strip_Nil [simp]: "strip rs [] = []"
proof -
  have "leading rs [] = None"
    by (cases "leading rs []") (auto dest: leading_Some simp: has_prefix_def)
  then show ?thesis by (simp add: strip.simps)
qed

definition space_bytes :: "char set" where
  "space_bytes = {CHR 0x09, CHR 0x0A, CHR 0x0B, CHR 0x0C, CHR 0x0D, CHR 0x20}
     \<union> {c. digit7 c}"

lemma space_runes_heads: "\<forall>r \<in> set space_runes. hd r \<in> space_bytes \<and> last r \<in> space_bytes \<and> r \<noteq> []"
  by (simp add: space_runes_def space_bytes_def)

lemma graphic_not_space: "graphic_byte c \<Longrightarrow> c \<notin> space_bytes"
  by (auto simp: graphic_byte_def printable_byte_def ascii_byte_def control_byte_def space_bytes_def)

lemma strip_noop:
  assumes "\<forall>r \<in> set rs. r = [] \<or> hd r \<noteq> hd s"
  shows "strip rs s = s"
proof (cases s)
  case (Cons c t)
  with assms have "leading rs s = None" by (simp add: leading_None_graphic)
  then show ?thesis by (simp add: strip.simps)
qed simp

lemma trim_space_graphic:
  assumes "s = [] \<or> graphic_byte (hd s) \<and> graphic_byte (last s)"
  shows "trim_space s = s"
proof (cases "s = []")
  case False
  with assms have h: "hd s \<notin> space_bytes" "last s \<notin> space_bytes"
    by (auto dest: graphic_not_space)
  have "strip space_runes s = s"
    by (rule strip_noop) (use h(1) space_runes_heads in metis)
  moreover have "strip (map rev space_runes) (rev s) = rev s"
    by (rule strip_noop) (use h(2) False space_runes_heads in \<open>auto simp: hd_rev\<close>)
  ultimately show ?thesis by (simp add: trim_space_def)
qed (simp add: trim_space_def)

lemma leading_strip: "leading rs (strip rs s) = None"
proof (induction rs s rule: strip.induct)
  case (1 rs s)
  then show ?case by (cases "leading rs s") (simp_all add: strip.simps[of rs s])
qed

lemma strip_fixed: "leading rs s = None \<Longrightarrow> strip rs s = s"
  by (simp add: strip.simps)

lemma leading_prefix: "leading rs (s @ t) = None \<Longrightarrow> leading rs s = None"
  by (auto simp: leading_def find_None_iff has_prefix_def)

lemma strip_suffix: "\<exists>p. s = p @ strip rs s"
proof (induction rs s rule: strip.induct)
  case (1 rs s)
  show ?case
  proof (cases "leading rs s")
    case (Some r)
    with 1 obtain p where "drop (length r) s = p @ strip rs (drop (length r) s)" by blast
    then have "s = (take (length r) s @ p) @ strip rs (drop (length r) s)"
      by (metis append.assoc append_take_drop_id)
    with Some show ?thesis by (metis option.simps(5) strip.simps)
  qed (simp add: strip.simps)
qed

lemma trim_space_idem: "trim_space (trim_space s) = trim_space s"
proof -
  let ?l = "strip space_runes s" and ?rr = "map rev space_runes"
  obtain p where "rev ?l = p @ strip ?rr (rev ?l)" using strip_suffix by metis
  then have "?l = trim_space s @ rev p" by (metis rev_append rev_rev_ident trim_space_def)
  then have "strip space_runes (trim_space s) = trim_space s"
    by (metis leading_prefix leading_strip strip_fixed)
  then show ?thesis
    unfolding trim_space_def[of "trim_space s"]
    by (simp add: trim_space_def[of s] strip_fixed leading_strip)
qed

lemma set_trim_space: "set (trim_space s) \<subseteq> set s"
proof -
  obtain p q where "s = p @ strip space_runes s"
    and "rev (strip space_runes s) = q @ strip (map rev space_runes) (rev (strip space_runes s))"
    using strip_suffix by meson
  then show ?thesis
    unfolding trim_space_def by (metis Un_upper2 order_trans set_append set_rev)
qed

end
