(* ===== verification/Config.thy ===== *)
theory Config
  imports GoStrings
begin

section \<open>The runner's configuration (cmd/runner/main.go)\<close>

text \<open>
  The struct \<open>config\<close>, \<open>splitCSV\<close> and \<open>loadConfig\<close>. The process environment is
  a function from variable names to values; \<open>os.Getenv\<close> gives the empty string for a
  variable that is not set. \<open>splitCSV\<close> reads back what \<open>strings.Join\<close> wrote when every
  item is \<open>csv_item\<close>.
\<close>

record config =
  brokers :: "string list"
  nodeName :: string
  inputTopic :: string
  outputTopics :: "string list"
  dependsOn :: "string list"
  joinStateTopic :: string
  allowedTools :: "string list"
  instructions :: string
  mcpEndpoints :: "(string, string) fmap"
  llmBaseURL :: string
  llmModel :: string
  llmAPIKey :: string

definition splitCSV :: "string \<Rightarrow> string list" where
  "splitCSV s =
     (if s = [] then []
      else filter (\<lambda>p. p \<noteq> []) (map trim_space (split_sep CHR '','' s)))"

fun read_endpoints :: "(string, string) fmap \<Rightarrow> string list \<Rightarrow> (string, string) fmap" where
  "read_endpoints m [] = m"
| "read_endpoints m (pair # pairs) =
     (case cut ''='' pair of
        None \<Rightarrow> read_endpoints m pairs
      | Some (name, url) \<Rightarrow> read_endpoints (fmupd name url m) pairs)"

definition loadConfig :: "(string \<Rightarrow> string) \<Rightarrow> config" where
  "loadConfig getenv =
     \<lparr>brokers = splitCSV (getenv ''KAFKA_BROKERS''),
      nodeName = getenv ''NODE_NAME'',
      inputTopic = getenv ''INPUT_TOPIC'',
      outputTopics = splitCSV (getenv ''OUTPUT_TOPICS''),
      dependsOn = splitCSV (getenv ''DEPENDS_ON''),
      joinStateTopic = getenv ''JOIN_STATE_TOPIC'',
      allowedTools = splitCSV (getenv ''ALLOWED_TOOLS''),
      instructions = getenv ''INSTRUCTIONS'',
      mcpEndpoints = read_endpoints fmempty (splitCSV (getenv ''MCP_ENDPOINTS'')),
      llmBaseURL = getenv ''LLM_BASE_URL'',
      llmModel = getenv ''LLM_MODEL'',
      llmAPIKey = getenv ''LLM_API_KEY''\<rparr>"

subsection \<open>What joining and splitting keeps\<close>

text \<open>An item that survives the trip: it is there, holds no comma, and has no space around it.\<close>

definition csv_item :: "string \<Rightarrow> bool" where
  "csv_item x \<longleftrightarrow> x \<noteq> [] \<and> CHR '','' \<notin> set x \<and> trim_space x = x"

lemma csv_item_graphic:
  "x \<noteq> [] \<Longrightarrow> CHR '','' \<notin> set x \<Longrightarrow> graphic_byte (hd x) \<Longrightarrow> graphic_byte (last x) \<Longrightarrow> csv_item x"
  by (simp add: csv_item_def trim_space_graphic)

lemma splitCSV_join:
  assumes "\<forall>x \<in> set xs. csv_item x"
  shows "splitCSV (join_sep '','' xs) = xs"
proof (cases "xs = []")
  case True
  then show ?thesis by (simp add: splitCSV_def)
next
  case False
  then have "join_sep '','' xs \<noteq> []"
    using assms by (auto simp: join_sep_Nil_iff csv_item_def)
  moreover have "split_sep CHR '','' (join_sep '','' xs) = xs"
    using False assms by (intro split_join_sep) (auto simp: csv_item_def)
  moreover have "map trim_space xs = xs" "filter (\<lambda>p. p \<noteq> []) xs = xs"
    using assms by (auto simp: csv_item_def intro!: map_idI filter_True)
  ultimately show ?thesis by (simp add: splitCSV_def)
qed

text \<open>Whatever the text, every item of the result survives the trip.\<close>

lemma splitCSV_items: "x \<in> set (splitCSV s) \<Longrightarrow> csv_item x"
  using set_trim_space
  by (auto simp: splitCSV_def csv_item_def trim_space_idem split: if_splits
      dest: split_sep_parts_free)

lemma splitCSV_normal: "splitCSV (join_sep '','' (splitCSV s)) = splitCSV s"
  by (rule splitCSV_join) (simp add: splitCSV_items)

subsection \<open>The endpoints\<close>

lemma read_endpoints_append:
  "read_endpoints m (xs @ ys) = read_endpoints (read_endpoints m xs) ys"
  by (induction xs arbitrary: m) (auto split: option.splits)

lemma read_endpoints_pairs:
  assumes "\<forall>(name, url) \<in> set eps. CHR ''='' \<notin> set name"
  shows "read_endpoints m (map (\<lambda>(name, url). name @ ''='' @ url) eps) = m ++\<^sub>f fmap_of_list (rev eps)"
  using assms
proof (induction eps arbitrary: m)
  case (Cons e eps)
  obtain name url where e: "e = (name, url)" by (cases e)
  with Cons have "read_endpoints m (map (\<lambda>(name, url). name @ ''='' @ url) (e # eps))
      = fmupd name url m ++\<^sub>f fmap_of_list (rev eps)"
    by (simp add: cut_append)
  then show ?case
    by (simp add: e fmap_ext fmlookup_of_list map_add_def)
qed simp

end
