(* ===== verification/GoJson.thy ===== *)
theory GoJson
  imports GoStrings
begin

section \<open>The encoding/json package\<close>

text \<open>
  Every message of the program (envelopes, join states, chat requests and responses, tool
  results) is JSON text, written by \<open>json.Marshal\<close> and read by \<open>json.Unmarshal\<close>. This
  theory holds both on bytes: the encoder with its sorted keys and its HTML-safe escapes; the
  scanner of \<open>Unmarshal\<close>, which yields a syntax tree (\<open>jast\<close>) that keeps the order and
  the duplicates of object members; and the two readers of that tree the program uses, into
  \<open>any\<close> and into \<open>map[string]any\<close>. The readers into the program's own structs are in
  the theories of those structs.

  A number is kept as its literal: the program only forwards numbers. The nesting limit of
  the scanner (10000) and the range check of float64 are not modelled.
\<close>

subsection \<open>UTF-8\<close>

definition byte_val :: "char \<Rightarrow> int" where
  "byte_val c = of_char c"

definition cont_in :: "int \<Rightarrow> int \<Rightarrow> char \<Rightarrow> bool" where
  "cont_in lo hi c \<longleftrightarrow> lo \<le> byte_val c \<and> byte_val c \<le> hi"

text \<open>The length of the valid encoding of a rune \<open>s\<close> starts with (\<open>utf8.DecodeRune\<close>),
  0 if there is none.\<close>

definition rune_len :: "string \<Rightarrow> nat" where
  "rune_len s =
     (case s of
        [] \<Rightarrow> 0
      | c # t \<Rightarrow>
          if \<not> digit7 c then 1
          else let b = byte_val c in
            if 0xC2 \<le> b \<and> b \<le> 0xDF then
              (case t of x # _ \<Rightarrow> if cont_in 0x80 0xBF x then 2 else 0 | _ \<Rightarrow> 0)
            else if 0xE0 \<le> b \<and> b \<le> 0xEF then
              (case t of
                 x # y # _ \<Rightarrow>
                   if cont_in (if b = 0xE0 then 0xA0 else 0x80) (if b = 0xED then 0x9F else 0xBF) x
                      \<and> cont_in 0x80 0xBF y then 3 else 0
               | _ \<Rightarrow> 0)
            else if 0xF0 \<le> b \<and> b \<le> 0xF4 then
              (case t of
                 x # y # z # _ \<Rightarrow>
                   if cont_in (if b = 0xF0 then 0x90 else 0x80) (if b = 0xF4 then 0x8F else 0xBF) x
                      \<and> cont_in 0x80 0xBF y \<and> cont_in 0x80 0xBF z then 4 else 0
               | _ \<Rightarrow> 0)
            else 0)"

definition rune_error :: string where
  "rune_error = [CHR 0xEF, CHR 0xBF, CHR 0xBD]"

text \<open>Every byte that starts no valid rune becomes U+FFFD; and the strings with none.\<close>

fun to_valid :: "string \<Rightarrow> string" where
  "to_valid [] = []"
| "to_valid (c # cs) =
     (case rune_len (c # cs) of
        0 \<Rightarrow> rune_error @ to_valid cs
      | Suc n \<Rightarrow> c # take n cs @ to_valid (drop n cs))"

fun valid_utf8 :: "string \<Rightarrow> bool" where
  "valid_utf8 [] \<longleftrightarrow> True"
| "valid_utf8 (c # cs) \<longleftrightarrow>
     (case rune_len (c # cs) of 0 \<Rightarrow> False | Suc n \<Rightarrow> valid_utf8 (drop n cs))"

definition encode_rune :: "int \<Rightarrow> string" where
  "encode_rune r =
     (if r < 0x80 then [char_of r]
      else if r < 0x800 then [char_of (0xC0 + r div 64), char_of (0x80 + r mod 64)]
      else if 0xD800 \<le> r \<and> r \<le> 0xDFFF then rune_error
      else if r < 0x10000 then
        [char_of (0xE0 + r div 4096), char_of (0x80 + r div 64 mod 64), char_of (0x80 + r mod 64)]
      else
        [char_of (0xF0 + r div 262144), char_of (0x80 + r div 4096 mod 64),
         char_of (0x80 + r div 64 mod 64), char_of (0x80 + r mod 64)])"

subsection \<open>Values\<close>

text \<open>A Go value of type \<open>any\<close> as \<open>Unmarshal\<close> makes it, and the syntax tree of a
  document.\<close>

datatype json =
    JNull
  | JBool bool
  | JNum string
  | JStr string
  | JArr "json list"
  | JObj "(string, json) fmap"

datatype jast =
    ANull
  | ABool bool
  | ANum string
  | AStr string
  | AArr "jast list"
  | AObj "(string \<times> jast) list"

type_synonym object = "(string, json) fmap"
type_synonym goobject = "(string, json) gomap"

text \<open>A map stored in a variable of type \<open>any\<close>; a nil map marshals as \<open>null\<close>.\<close>

definition any_of_map :: "goobject \<Rightarrow> json" where
  "any_of_map m = (case m of None \<Rightarrow> JNull | Some f \<Rightarrow> JObj f)"

subsection \<open>The encoder\<close>

definition u_escape :: "char \<Rightarrow> string" where
  "u_escape c = [CHR 0x5C, CHR ''u'', CHR ''0'', CHR ''0''] @ hex_byte c"

definition enc_byte :: "char \<Rightarrow> string" where
  "enc_byte c =
     (if c = CHR 0x22 \<or> c = CHR 0x5C then [CHR 0x5C, c]
      else if control_byte c then
        (if c = CHR 0x08 then [CHR 0x5C, CHR ''b'']
         else if c = CHR 0x0C then [CHR 0x5C, CHR ''f'']
         else if c = CHR 0x0A then [CHR 0x5C, CHR ''n'']
         else if c = CHR 0x0D then [CHR 0x5C, CHR ''r'']
         else if c = CHR 0x09 then [CHR 0x5C, CHR ''t'']
         else u_escape c)
      else if c = CHR ''<'' \<or> c = CHR ''>'' \<or> c = CHR ''&'' then u_escape c
      else [c])"

text \<open>\<open>appendString\<close> with HTML escaping: an invalid byte is written as the escape of
  U+FFFD, and U+2028 and U+2029 are escaped.\<close>

fun enc_chars :: "string \<Rightarrow> string" where
  "enc_chars [] = []"
| "enc_chars (c # cs) =
     (if \<not> digit7 c then enc_byte c @ enc_chars cs
      else (case rune_len (c # cs) of
          0 \<Rightarrow> [CHR 0x5C] @ ''ufffd'' @ enc_chars cs
        | Suc n \<Rightarrow>
            (if c # take n cs = [CHR 0xE2, CHR 0x80, CHR 0xA8] then [CHR 0x5C] @ ''u2028''
             else if c # take n cs = [CHR 0xE2, CHR 0x80, CHR 0xA9] then [CHR 0x5C] @ ''u2029''
             else c # take n cs) @ enc_chars (drop n cs)))"

definition enc_string :: "string \<Rightarrow> string" where
  "enc_string s = [CHR 0x22] @ enc_chars s @ [CHR 0x22]"

definition enc_member :: "string \<times> string \<Rightarrow> string" where
  "enc_member p = enc_string (fst p) @ '':'' @ snd p"

definition enc_members :: "(string \<times> string) list \<Rightarrow> string" where
  "enc_members ps = ''{'' @ join_sep '','' (map enc_member ps) @ ''}''"

definition enc_list :: "string list \<Rightarrow> string" where
  "enc_list ss = ''['' @ join_sep '','' ss @ '']''"

primrec marshal :: "json \<Rightarrow> string" where
  "marshal JNull = ''null''"
| "marshal (JBool b) = (if b then ''true'' else ''false'')"
| "marshal (JNum lit) = lit"
| "marshal (JStr s) = enc_string s"
| "marshal (JArr vs) = enc_list (map marshal vs)"
| "marshal (JObj m) = enc_members (sorted_list_of_fmap (fmmap marshal m))"

definition marshal_map :: "goobject \<Rightarrow> string" where
  "marshal_map m = marshal (any_of_map m)"

subsection \<open>The scanner\<close>

definition json_space :: "char \<Rightarrow> bool" where
  "json_space c \<longleftrightarrow> c = CHR 0x20 \<or> c = CHR 0x0A \<or> c = CHR 0x0D \<or> c = CHR 0x09"

definition skip_ws :: "string \<Rightarrow> string" where
  "skip_ws s = dropWhile json_space s"

definition is_digit :: "char \<Rightarrow> bool" where
  "is_digit c \<longleftrightarrow> c \<in> set ''0123456789''"

definition hex_val :: "char \<Rightarrow> int option" where
  "hex_val c =
     (let b = byte_val c in
      if 48 \<le> b \<and> b \<le> 57 then Some (b - 48)
      else if 97 \<le> b \<and> b \<le> 102 then Some (b - 87)
      else if 65 \<le> b \<and> b \<le> 70 then Some (b - 55)
      else None)"

definition hex4 :: "char \<Rightarrow> char \<Rightarrow> char \<Rightarrow> char \<Rightarrow> int option" where
  "hex4 a b c d =
     (case (hex_val a, hex_val b, hex_val c, hex_val d) of
        (Some w, Some x, Some y, Some z) \<Rightarrow> Some (4096 * w + 256 * x + 16 * y + z)
      | _ \<Rightarrow> None)"

definition simple_escape :: "char \<Rightarrow> char option" where
  "simple_escape e =
     (if e = CHR 0x22 \<or> e = CHR 0x5C \<or> e = CHR ''/'' then Some e
      else if e = CHR ''b'' then Some (CHR 0x08)
      else if e = CHR ''f'' then Some (CHR 0x0C)
      else if e = CHR ''n'' then Some (CHR 0x0A)
      else if e = CHR ''r'' then Some (CHR 0x0D)
      else if e = CHR ''t'' then Some (CHR 0x09)
      else None)"

definition push :: "string \<Rightarrow> (string \<times> string) option \<Rightarrow> (string \<times> string) option" where
  "push p r = (case r of None \<Rightarrow> None | Some (s, rest) \<Rightarrow> Some (p @ s, rest))"

text \<open>The low half of a surrogate pair, when the text at hand escapes one.\<close>

definition low_surrogate :: "string \<Rightarrow> int option" where
  "low_surrogate s =
     (case s of
        b # u # p # q # r # t # _ \<Rightarrow>
          if b = CHR 0x5C \<and> u = CHR ''u'' then
            (case hex4 p q r t of
               Some l \<Rightarrow> if 0xDC00 \<le> l \<and> l \<le> 0xDFFF then Some l else None
             | None \<Rightarrow> None)
          else None
      | _ \<Rightarrow> None)"

text \<open>The body of a string up to its closing quote: what it denotes and the text after it.\<close>

fun scan_string :: "string \<Rightarrow> (string \<times> string) option" where
  "scan_string [] = None"
| "scan_string (c # cs) =
     (if c = CHR 0x22 then Some ([], cs)
      else if c = CHR 0x5C then
        (case cs of
           [] \<Rightarrow> None
         | e # cs' \<Rightarrow>
             if e = CHR ''u'' then
               (case cs' of
                  h1 # h2 # h3 # h4 # r \<Rightarrow>
                    (case hex4 h1 h2 h3 h4 of
                       None \<Rightarrow> None
                     | Some n \<Rightarrow>
                         if 0xD800 \<le> n \<and> n \<le> 0xDBFF then
                           (case low_surrogate r of
                              Some l \<Rightarrow>
                                push (encode_rune ((n - 0xD800) * 1024 + (l - 0xDC00) + 0x10000))
                                  (scan_string (drop 6 r))
                            | None \<Rightarrow> push rune_error (scan_string r))
                         else push (encode_rune n) (scan_string r))
                | _ \<Rightarrow> None)
             else
               (case simple_escape e of
                  None \<Rightarrow> None
                | Some d \<Rightarrow> push [d] (scan_string cs')))
      else if control_byte c then None
      else push [c] (scan_string cs))"

text \<open>A number: an optional sign, an integer part without a leading zero, an optional
  fraction and an optional exponent.\<close>

definition seq :: "(string \<Rightarrow> (string \<times> string) option) \<Rightarrow> (string \<Rightarrow> (string \<times> string) option)
    \<Rightarrow> string \<Rightarrow> (string \<times> string) option" where
  "seq p q s = (case p s of None \<Rightarrow> None | Some (a, r) \<Rightarrow> push a (q r))"

definition scan_sign :: "string \<Rightarrow> string \<Rightarrow> (string \<times> string) option" where
  "scan_sign signs s =
     (case s of c # cs \<Rightarrow> if c \<in> set signs then Some ([c], cs) else Some ([], s) | [] \<Rightarrow> Some ([], []))"

definition scan_digits :: "string \<Rightarrow> (string \<times> string) option" where
  "scan_digits s =
     (if takeWhile is_digit s = [] then None
      else Some (takeWhile is_digit s, dropWhile is_digit s))"

definition scan_int :: "string \<Rightarrow> (string \<times> string) option" where
  "scan_int s =
     (case s of
        [] \<Rightarrow> None
      | c # cs \<Rightarrow> if c = CHR ''0'' then Some ([c], cs) else scan_digits s)"

text \<open>A part that is there only when the text starts with one of the bytes \<open>heads\<close>.\<close>

definition scan_part :: "string \<Rightarrow> (string \<Rightarrow> (string \<times> string) option)
    \<Rightarrow> string \<Rightarrow> (string \<times> string) option" where
  "scan_part heads p s =
     (case s of
        c # cs \<Rightarrow> if c \<in> set heads then push [c] (p cs) else Some ([], s)
      | [] \<Rightarrow> Some ([], []))"

definition scan_num :: "string \<Rightarrow> (string \<times> string) option" where
  "scan_num =
     seq (scan_sign ''-'') (seq scan_int
       (seq (scan_part ''.'' scan_digits) (scan_part ''eE'' (seq (scan_sign ''+-'') scan_digits))))"

definition scan_word :: "string \<Rightarrow> jast \<Rightarrow> string \<Rightarrow> (jast \<times> string) option" where
  "scan_word w v s = (if has_prefix s w then Some (v, drop (length w) s) else None)"

text \<open>
  One value at the head of the text. \<open>scan_elems\<close> reads the elements of an array and
  \<open>scan_members\<close> the members of an object, from after the opening bracket or a comma. The
  fuel bounds the depth of the calls; twice the length of the text is enough
  (\<open>scan_value_fuel\<close>).
\<close>

fun scan_value :: "nat \<Rightarrow> string \<Rightarrow> (jast \<times> string) option"
  and scan_elems :: "nat \<Rightarrow> string \<Rightarrow> (jast list \<times> string) option"
  and scan_members :: "nat \<Rightarrow> string \<Rightarrow> ((string \<times> jast) list \<times> string) option" where
  "scan_value 0 s = None"
| "scan_value (Suc n) s =
     (case s of
        [] \<Rightarrow> None
      | c # cs \<Rightarrow>
          if c = CHR 0x22 then
            (case scan_string cs of None \<Rightarrow> None | Some (str, r) \<Rightarrow> Some (AStr (to_valid str), r))
          else if c = CHR ''{'' then
            (case skip_ws cs of
               [] \<Rightarrow> None
             | d # ds \<Rightarrow>
                 if d = CHR ''}'' then Some (AObj [], ds)
                 else (case scan_members n (d # ds) of
                         None \<Rightarrow> None | Some (kvs, r) \<Rightarrow> Some (AObj kvs, r)))
          else if c = CHR ''['' then
            (case skip_ws cs of
               [] \<Rightarrow> None
             | d # ds \<Rightarrow>
                 if d = CHR '']'' then Some (AArr [], ds)
                 else (case scan_elems n (d # ds) of
                         None \<Rightarrow> None | Some (vs, r) \<Rightarrow> Some (AArr vs, r)))
          else if c = CHR ''t'' then scan_word ''true'' (ABool True) s
          else if c = CHR ''f'' then scan_word ''false'' (ABool False) s
          else if c = CHR ''n'' then scan_word ''null'' ANull s
          else (case scan_num s of None \<Rightarrow> None | Some (lit, r) \<Rightarrow> Some (ANum lit, r)))"
| "scan_elems 0 s = None"
| "scan_elems (Suc n) s =
     (case scan_value n s of
        None \<Rightarrow> None
      | Some (v, r) \<Rightarrow>
          (case skip_ws r of
             [] \<Rightarrow> None
           | d # ds \<Rightarrow>
               if d = CHR '']'' then Some ([v], ds)
               else if d = CHR '','' then
                 (case scan_elems n (skip_ws ds) of
                    None \<Rightarrow> None | Some (vs, r') \<Rightarrow> Some (v # vs, r'))
               else None))"
| "scan_members 0 s = None"
| "scan_members (Suc n) s =
     (case s of
        [] \<Rightarrow> None
      | q # qs \<Rightarrow>
          if q \<noteq> CHR 0x22 then None
          else (case scan_string qs of
              None \<Rightarrow> None
            | Some (k, r) \<Rightarrow>
                (case skip_ws r of
                   [] \<Rightarrow> None
                 | e # es \<Rightarrow>
                     if e \<noteq> CHR '':'' then None
                     else (case scan_value n (skip_ws es) of
                         None \<Rightarrow> None
                       | Some (v, r') \<Rightarrow>
                           (case skip_ws r' of
                              [] \<Rightarrow> None
                            | d # ds \<Rightarrow>
                                if d = CHR ''}'' then Some ([(to_valid k, v)], ds)
                                else if d = CHR '','' then
                                  (case scan_members n (skip_ws ds) of
                                     None \<Rightarrow> None
                                   | Some (kvs, r'') \<Rightarrow> Some ((to_valid k, v) # kvs, r''))
                                else None)))))"

definition scan_fuel :: "string \<Rightarrow> nat" where
  "scan_fuel s = 2 * length s + 2"

definition parse :: "string \<Rightarrow> jast option" where
  "parse s =
     (case scan_value (scan_fuel s) (skip_ws s) of
        None \<Rightarrow> None
      | Some (v, r) \<Rightarrow> if skip_ws r = [] then Some v else None)"

subsection \<open>Reading the tree\<close>

text \<open>Into \<open>any\<close>: of the members with one key the last wins.\<close>

fun any_of :: "jast \<Rightarrow> json" where
  "any_of ANull = JNull"
| "any_of (ABool b) = JBool b"
| "any_of (ANum lit) = JNum lit"
| "any_of (AStr s) = JStr s"
| "any_of (AArr vs) = JArr (map any_of vs)"
| "any_of (AObj kvs) = JObj (fmap_of_list (rev (map (\<lambda>(k, v). (k, any_of v)) kvs)))"

text \<open>Into a \<open>map[string]any\<close> that holds \<open>old\<close>: \<open>null\<close> makes it nil, an object
  adds its members to it (making a map if it is nil), anything else is an error.\<close>

definition read_map :: "goobject \<Rightarrow> jast \<Rightarrow> goobject option" where
  "read_map old a =
     (case a of
        ANull \<Rightarrow> Some None
      | AObj kvs \<Rightarrow>
          Some (Some (entries old ++\<^sub>f fmap_of_list (rev (map (\<lambda>(k, v). (k, any_of v)) kvs))))
      | _ \<Rightarrow> None)"

definition unmarshal_map :: "string \<Rightarrow> goobject option" where
  "unmarshal_map s = (case parse s of None \<Rightarrow> None | Some a \<Rightarrow> read_map None a)"

text \<open>Into a \<open>string\<close> that holds \<open>old\<close>: \<open>null\<close> leaves it as it is.\<close>

definition read_string :: "string \<Rightarrow> jast \<Rightarrow> string option" where
  "read_string old a = (case a of ANull \<Rightarrow> Some old | AStr s \<Rightarrow> Some s | _ \<Rightarrow> None)"

text \<open>
  The member of a struct a key selects: names match up to case. \<open>fold_name\<close> is the
  package's folding on the runes that can fold to an ASCII letter (the long s and the Kelvin
  sign among them), the only ones that matter for the program's field names.
\<close>

definition upper_byte :: "char \<Rightarrow> char" where
  "upper_byte c =
     (let b = byte_val c in if 97 \<le> b \<and> b \<le> 122 then char_of (b - 32) else c)"

fun fold_name :: "string \<Rightarrow> string" where
  "fold_name s =
     (case s of
        [] \<Rightarrow> []
      | c # cs \<Rightarrow>
          if has_prefix s [CHR 0xC5, CHR 0xBF] then CHR ''S'' # fold_name (drop 1 cs)
          else if has_prefix s [CHR 0xE2, CHR 0x84, CHR 0xAA] then CHR ''K'' # fold_name (drop 2 cs)
          else upper_byte c # fold_name cs)"

declare fold_name.simps [simp del]

definition field_named :: "string \<Rightarrow> string \<Rightarrow> bool" where
  "field_named name key \<longleftrightarrow> key = name \<or> fold_name key = fold_name name"

text \<open>
  Into a struct that holds \<open>old\<close>: \<open>null\<close> leaves it as it is, and the members of an object
  are read one after the other into the fields they select.
\<close>

fun read_members :: "('s \<Rightarrow> string \<Rightarrow> jast \<Rightarrow> 's option) \<Rightarrow> 's \<Rightarrow> (string \<times> jast) list \<Rightarrow> 's option" where
  "read_members f s [] = Some s"
| "read_members f s ((k, a) # kvs) =
     (case f s k a of None \<Rightarrow> None | Some s' \<Rightarrow> read_members f s' kvs)"

definition read_struct :: "('s \<Rightarrow> string \<Rightarrow> jast \<Rightarrow> 's option) \<Rightarrow> 's \<Rightarrow> jast \<Rightarrow> 's option" where
  "read_struct f old a =
     (case a of ANull \<Rightarrow> Some old | AObj kvs \<Rightarrow> read_members f old kvs | _ \<Rightarrow> None)"

text \<open>
  Into a slice that holds \<open>old\<close>: an array is read element by element, each into the element
  of \<open>old\<close> at its index where there is one and into a zero value elsewhere; \<open>null\<close> makes
  the slice nil.
\<close>

fun read_elems :: "('s \<Rightarrow> jast \<Rightarrow> 's option) \<Rightarrow> 's \<Rightarrow> 's list \<Rightarrow> jast list \<Rightarrow> 's list option" where
  "read_elems f zero old [] = Some []"
| "read_elems f zero old (a # as) =
     (case f (case old of [] \<Rightarrow> zero | x # _ \<Rightarrow> x) a of
        None \<Rightarrow> None
      | Some v \<Rightarrow> map_option (\<lambda>vs. v # vs) (read_elems f zero (tl old) as))"

definition read_slice :: "('s \<Rightarrow> jast \<Rightarrow> 's option) \<Rightarrow> 's \<Rightarrow> 's list \<Rightarrow> jast \<Rightarrow> 's list option" where
  "read_slice f zero old a =
     (case a of ANull \<Rightarrow> Some [] | AArr as \<Rightarrow> read_elems f zero old as | _ \<Rightarrow> None)"

end
