(* ===== verification/Services.thy ===== *)
theory Services
  imports GoJson
begin

section \<open>The services around a runner\<close>

text \<open>
  A runner talks to Kafka (a producer and a consumer group), to an LLM over HTTP and to MCP
  tool servers. None of them is code of the repository: each is a parameter, a function that
  answers a request knowing everything that happened before it. What happened is the
  \<open>trace\<close>, the list of the runner's external actions with their answers, oldest first;
  every operation that acts takes the trace and returns it extended. A theorem about all
  \<open>services\<close> is a theorem about every behaviour of these systems.

  A crash of the process at any moment leaves a prefix of the trace behind, and what is durable
  is a function of the trace: the records of a topic (\<open>topic_records\<close>) and the marked
  messages.

  A rejected send carries whether the broker stored the record nevertheless (an answer that
  was lost on its way).
\<close>

record producer_message =
  pm_topic :: string
  pm_key :: string
  pm_value :: "string option"

datatype send_result = Acked | Rejected string bool

record http_request =
  http_method :: string
  http_url :: string
  http_headers :: "(string \<times> string) list"
  http_body :: string

text \<open>No response at all; a body that cannot be read; or a status code, its text and the body.\<close>

datatype http_answer = Unreachable string | Unreadable string | Response int string string

type_synonym mcp_client = string

datatype content = TextContent string | OtherContent

text \<open>A transport or protocol error; or a result, with its error flag and its contents.\<close>

datatype tool_answer = ToolFailed string | ToolResult bool "content list"

record consumer_message =
  cm_topic :: string
  cm_partition :: int
  cm_offset :: int
  cm_value :: string

datatype event =
    Sent producer_message send_result
  | Posted http_request http_answer
  | Called mcp_client string goobject tool_answer
  | Marked consumer_message

type_synonym trace = "event list"

text \<open>
  \<open>bad_url\<close> is the error of \<open>http.NewRequest\<close> for a URL, if any; \<open>json_error\<close> the
  text of the error of \<open>json.Unmarshal\<close>; \<open>visit\<close> the order in which a loop over a map
  with these keys runs; \<open>random_bytes\<close> the byte \<open>rand.Read\<close> leaves at an index of the buffer (its
  error is ignored, so a buffer keeps its length whatever happens).
\<close>

record services =
  answer_send :: "trace \<Rightarrow> producer_message \<Rightarrow> send_result"
  answer_http :: "trace \<Rightarrow> http_request \<Rightarrow> http_answer"
  answer_tool :: "trace \<Rightarrow> mcp_client \<Rightarrow> string \<Rightarrow> goobject \<Rightarrow> tool_answer"
  bad_url :: "string \<Rightarrow> string option"
  json_error :: "string \<Rightarrow> string"
  visit :: "trace \<Rightarrow> string fset \<Rightarrow> string list"
  random_bytes :: "trace \<Rightarrow> nat \<Rightarrow> char"

definition send_message :: "services \<Rightarrow> producer_message \<Rightarrow> trace \<Rightarrow> send_result \<times> trace" where
  "send_message svc m tr = (let a = answer_send svc tr m in (a, tr @ [Sent m a]))"

definition post :: "services \<Rightarrow> http_request \<Rightarrow> trace \<Rightarrow> http_answer \<times> trace" where
  "post svc r tr = (let a = answer_http svc tr r in (a, tr @ [Posted r a]))"

definition call_tool ::
    "services \<Rightarrow> mcp_client \<Rightarrow> string \<Rightarrow> goobject \<Rightarrow> trace \<Rightarrow> tool_answer \<times> trace" where
  "call_tool svc c name args tr =
     (let a = answer_tool svc tr c name args in (a, tr @ [Called c name args a]))"

definition mark_message :: "consumer_message \<Rightarrow> trace \<Rightarrow> trace" where
  "mark_message msg tr = tr @ [Marked msg]"

text \<open>Go promises no more of a loop over a map than that it visits every key once.\<close>

definition visits_all :: "services \<Rightarrow> bool" where
  "visits_all svc \<longleftrightarrow> (\<forall>tr S. distinct (visit svc tr S) \<and> fset_of_list (visit svc tr S) = S)"

lemma visits_iterates: "visits_all svc \<Longrightarrow> iterates (visit svc tr (fmdom m)) m"
  by (simp add: visits_all_def iterates_def)

subsection \<open>What is durable\<close>

fun stored :: "send_result \<Rightarrow> bool" where
  "stored Acked = True"
| "stored (Rejected e kept) = kept"

fun event_records :: "string \<Rightarrow> event \<Rightarrow> (string \<times> string option) list" where
  "event_records t (Sent m a) =
     (if pm_topic m = t \<and> stored a then [(pm_key m, pm_value m)] else [])"
| "event_records t _ = []"

definition topic_records :: "string \<Rightarrow> trace \<Rightarrow> (string \<times> string option) list" where
  "topic_records t tr = concat (map (event_records t) tr)"

lemma topic_records_simps [simp]:
  "topic_records t [] = []"
  "topic_records t (tr @ tr') = topic_records t tr @ topic_records t tr'"
  "topic_records t (e # tr) = event_records t e @ topic_records t tr"
  by (simp_all add: topic_records_def)

lemma topic_records_sent:
  assumes "r \<in> set (topic_records t tr)"
  shows "\<exists>m a. Sent m a \<in> set tr \<and> pm_topic m = t \<and> stored a \<and> r = (pm_key m, pm_value m)"
proof -
  have "\<exists>m a. e = Sent m a \<and> pm_topic m = t \<and> stored a \<and> r = (pm_key m, pm_value m)"
    if "r \<in> set (event_records t e)" for e
    using that by (cases e) (auto split: if_splits)
  with assms show ?thesis by (fastforce simp: topic_records_def)
qed

text \<open>An operation that was given \<open>tr\<close> returned \<open>tr'\<close>, and added only
  events for which \<open>P\<close> holds.\<close>

definition adds :: "(event \<Rightarrow> bool) \<Rightarrow> trace \<Rightarrow> trace \<Rightarrow> bool" where
  "adds P tr tr' \<longleftrightarrow> (\<exists>es. tr' = tr @ es \<and> list_all P es)"

lemma adds_refl [simp]: "adds P tr tr"
  by (simp add: adds_def)

lemma adds_trans: "adds P a b \<Longrightarrow> adds P b c \<Longrightarrow> adds P a c"
  by (auto simp: adds_def)

lemma adds_snoc: "adds P a b \<Longrightarrow> P e \<Longrightarrow> adds P a (b @ [e])"
  by (auto simp: adds_def)

lemma adds_mono: "adds P a b \<Longrightarrow> (\<And>e. P e \<Longrightarrow> Q e) \<Longrightarrow> adds Q a b"
  by (auto simp: adds_def list_all_iff)

lemma adds_records:
  "adds P a b \<Longrightarrow> (\<And>e. P e \<Longrightarrow> event_records t e = []) \<Longrightarrow> topic_records t b = topic_records t a"
  by (auto simp: adds_def topic_records_def list_all_iff)

fun not_sent :: "event \<Rightarrow> bool" where
  "not_sent (Sent m a) = False"
| "not_sent e = True"

fun not_marked :: "event \<Rightarrow> bool" where
  "not_marked (Marked m) = False"
| "not_marked e = True"

lemma not_sent_records: "not_sent e \<Longrightarrow> event_records t e = []"
  by (cases e) auto

end
