(* ===== verification/Mcp.thy ===== *)
theory Mcp
  imports Config Services
begin

section \<open>MCP tools (cmd/runner/mcp.go)\<close>

text \<open>
  \<open>toolBinding\<close>, \<open>connectMCPTools\<close> and \<open>parseToolResult\<close>. A client is named by the
  endpoint it was made for. What the client library answers for an endpoint is an argument,
  \<open>view\<close>: whether each of the four calls fails, and the tools it lists.
\<close>

subsection \<open>Tools and bindings\<close>

text \<open>\<open>mcp.Tool\<close> as far as the runner reads it; a nil \<open>Required\<close> is \<open>None\<close>.\<close>

record mcp_tool =
  tool_name :: string
  tool_description :: string
  schema_properties :: goobject
  schema_required :: "string list option"

record toolBinding =
  binding_client :: mcp_client
  binding_tool :: mcp_tool

record endpoint_view =
  create_error :: "string option"
  start_error :: "string option"
  initialize_error :: "string option"
  listed_tools :: "string + mcp_tool list"

subsection \<open>Connecting\<close>

text \<open>
  The state of the loop: the tools found, the clients kept for the cleanup function, and the
  clients closed on the way.
\<close>

record mcp_connections =
  found_tools :: "(string, toolBinding) fmap"
  kept_clients :: "mcp_client list"
  closed_clients :: "mcp_client list"

fun bind_tools :: "mcp_client \<Rightarrow> mcp_tool list \<Rightarrow> (string, toolBinding) fmap \<Rightarrow> (string, toolBinding) fmap" where
  "bind_tools c [] m = m"
| "bind_tools c (t # ts) m =
     bind_tools c ts (fmupd (tool_name t) \<lparr>binding_client = c, binding_tool = t\<rparr> m)"

definition connect_endpoint :: "mcp_client \<Rightarrow> endpoint_view \<Rightarrow> mcp_connections \<Rightarrow> mcp_connections" where
  "connect_endpoint c v s =
     (if create_error v \<noteq> None then s
      else if start_error v \<noteq> None then s
      else if initialize_error v \<noteq> None then s\<lparr>closed_clients := closed_clients s @ [c]\<rparr>
      else case listed_tools v of
        Inl e \<Rightarrow> s\<lparr>closed_clients := closed_clients s @ [c]\<rparr>
      | Inr ts \<Rightarrow> s\<lparr>found_tools := bind_tools c ts (found_tools s),
                   kept_clients := kept_clients s @ [c]\<rparr>)"

fun connect_endpoints ::
    "(string \<Rightarrow> string \<Rightarrow> endpoint_view) \<Rightarrow> (string, string) fmap \<Rightarrow> string list
     \<Rightarrow> mcp_connections \<Rightarrow> mcp_connections" where
  "connect_endpoints view eps [] s = s"
| "connect_endpoints view eps (name # names) s =
     (case fmlookup eps name of
        None \<Rightarrow> connect_endpoints view eps names s
      | Some url \<Rightarrow> connect_endpoints view eps names (connect_endpoint name (view name url) s))"

definition connectMCPTools ::
    "(string fset \<Rightarrow> string list) \<Rightarrow> (string \<Rightarrow> string \<Rightarrow> endpoint_view) \<Rightarrow> config \<Rightarrow> mcp_connections" where
  "connectMCPTools ord view cfg =
     connect_endpoints view (mcpEndpoints cfg) (ord (fmdom (mcpEndpoints cfg)))
       \<lparr>found_tools = fmempty, kept_clients = [], closed_clients = []\<rparr>"

text \<open>The cleanup function closes every client that was kept.\<close>

definition cleanup_mcp :: "mcp_connections \<Rightarrow> mcp_connections" where
  "cleanup_mcp s = s\<lparr>closed_clients := closed_clients s @ kept_clients s\<rparr>"

subsection \<open>Results\<close>

fun parse_contents :: "content list \<Rightarrow> goobject" where
  "parse_contents [] = Some fmempty"
| "parse_contents (OtherContent # cs) = parse_contents cs"
| "parse_contents (TextContent t # cs) =
     (case unmarshal_map t of Some parsed \<Rightarrow> parsed | None \<Rightarrow> parse_contents cs)"

definition parseToolResult :: "bool \<Rightarrow> content list \<Rightarrow> goobject" where
  "parseToolResult is_error contents = parse_contents contents"

end
