(* ===== verification/JsonLaws.thy ===== *)
theory JsonLaws
  imports GoJson
begin

section \<open>What is marshalled is read back\<close>

text \<open>
  The laws of the JSON layer the components rest on. \<open>scan_enc_string\<close>: a marshalled string
  is read back as its valid form, whatever its bytes. \<open>scan_marshal\<close>: the scanner reads a
  marshalled well-formed value to the tree \<open>ast_of\<close>, at the head of any text, and
  \<open>any_of_ast_of\<close> reads that tree back to the value. \<open>scan_value_fuel\<close>: the fuel of
  \<open>parse\<close> is enough, more changes nothing. \<open>wf_any_of\<close>: whatever is read is
  well-formed. The locale \<open>codec\<close> is the contract the components' own encoders meet.
\<close>

subsection \<open>UTF-8\<close>

lemma of_bool_le_1: "of_bool b \<le> (1 :: int)"
  by simp

lemma digit7_iff: "digit7 c \<longleftrightarrow> 128 \<le> byte_val c"
proof (cases c)
  case (Char b0 b1 b2 b3 b4 b5 b6 b7)
  have "of_bool b0 + 2 * of_bool b1 + 4 * of_bool b2 + 8 * of_bool b3 + 16 * of_bool b4
      + 32 * of_bool b5 + 64 * of_bool b6 \<le> (127 :: int)"
    using of_bool_le_1[of b0] of_bool_le_1[of b1] of_bool_le_1[of b2] of_bool_le_1[of b3]
      of_bool_le_1[of b4] of_bool_le_1[of b5] of_bool_le_1[of b6] by linarith
  with Char show ?thesis by (cases b7) (simp_all add: byte_val_def of_char_Char)
qed

lemma rune_len_cases:
  assumes "rune_len (c # cs) = Suc n"
  shows "n \<le> length cs" and "digit7 c \<Longrightarrow> \<forall>x \<in> set (take n cs). digit7 x"
proof -
  have hi: "digit7 x" if "cont_in lo hi x" "0x80 \<le> lo" for lo hi x
    using that by (simp add: cont_in_def digit7_iff)
  show "n \<le> length cs"
    using assms by (auto simp: rune_len_def Let_def split: if_splits list.splits)
  show "\<forall>x \<in> set (take n cs). digit7 x" if "digit7 c"
    using assms that
    by (auto simp: rune_len_def Let_def split: if_splits list.splits intro!: hi)
qed

lemma rune_len_take:
  "rune_len (c # cs) = Suc n \<Longrightarrow> rune_len (c # take n cs @ ys) = Suc n"
  by (auto simp: rune_len_def Let_def split: if_splits list.splits)

lemma rune_len_ascii [simp]: "\<not> digit7 c \<Longrightarrow> rune_len (c # cs) = Suc 0"
  by (simp add: rune_len_def)

lemma rune_len_rune_error [simp]:
  "rune_len (CHR 0xEF # CHR 0xBF # CHR 0xBD # s) = Suc (Suc (Suc 0))"
  by (simp add: rune_len_def byte_val_def cont_in_def Let_def)

lemma to_valid_valid: "valid_utf8 s \<Longrightarrow> to_valid s = s"
  by (induction s rule: valid_utf8.induct) (auto split: nat.splits)

lemma valid_to_valid: "valid_utf8 (to_valid s)"
proof (induction s rule: to_valid.induct)
  case (2 c cs)
  show ?case
  proof (cases "rune_len (c # cs)")
    case 0
    with 2 show ?thesis by (simp add: rune_error_def)
  next
    case (Suc n)
    then have "n \<le> length cs" and "rune_len (c # take n cs @ to_valid (drop n cs)) = Suc n"
      by (auto dest: rune_len_cases(1) rune_len_take)
    with Suc 2 show ?thesis by simp
  qed
qed simp

lemma to_valid_iff: "to_valid s = s \<longleftrightarrow> valid_utf8 s"
  using to_valid_valid valid_to_valid by metis

lemma to_valid_idem [simp]: "to_valid (to_valid s) = to_valid s"
  by (simp add: to_valid_valid valid_to_valid)

lemma valid_ascii: "\<forall>c \<in> set s. \<not> digit7 c \<Longrightarrow> valid_utf8 s"
  by (induction s) auto

subsection \<open>Strings\<close>

lemma push_simps [simp]:
  "push p None = None" "push p (Some (s, r)) = Some (p @ s, r)"
  "push [] x = x"
  by (auto simp: push_def split: option.splits)

lemma push_push: "push p (push q x) = push (p @ q) x"
  by (auto simp: push_def split: option.splits)

lemma scan_quote [simp]: "scan_string (CHR 0x22 # s) = Some ([], s)"
  by simp

lemma scan_plain:
  "c \<noteq> CHR 0x22 \<Longrightarrow> c \<noteq> CHR 0x5C \<Longrightarrow> \<not> control_byte c \<Longrightarrow>
   scan_string (c # s) = push [c] (scan_string s)"
  by simp

lemma scan_simple:
  "simple_escape e = Some d \<Longrightarrow> scan_string (CHR 0x5C # e # s) = push [d] (scan_string s)"
  by (auto simp: simple_escape_def)

lemma scan_u:
  "hex4 a b c d = Some n \<Longrightarrow> n < 0xD800 \<or> 0xDBFF < n \<Longrightarrow>
   scan_string (CHR 0x5C # CHR ''u'' # a # b # c # d # s) = push (encode_rune n) (scan_string s)"
  by auto

declare scan_string.simps(2) [simp del]

lemma scan_raw: "\<forall>c \<in> set p. digit7 c \<Longrightarrow> scan_string (p @ s) = push p (scan_string s)"
proof (induction p)
  case (Cons c p)
  then have "c \<noteq> CHR 0x22" "c \<noteq> CHR 0x5C" "\<not> control_byte c"
    by (auto simp: control_byte_def)
  with Cons show ?case by (simp add: push_push scan_plain)
qed simp

lemma encode_hex_byte:
  assumes "\<not> digit7 c"
  shows "\<exists>n. hex4 CHR ''0'' CHR ''0'' (hex_byte c ! 0) (hex_byte c ! 1) = Some n
     \<and> n < 0xD800 \<and> encode_rune n = [c]"
proof -
  have "\<forall>b0 b1 b2 b3 b4 b5 b6. \<exists>n.
    hex4 CHR ''0'' CHR ''0'' (hex_byte (Char b0 b1 b2 b3 b4 b5 b6 False) ! 0)
      (hex_byte (Char b0 b1 b2 b3 b4 b5 b6 False) ! 1) = Some n
     \<and> n < 0xD800 \<and> encode_rune n = [Char b0 b1 b2 b3 b4 b5 b6 False]"
    unfolding all_bool_eq
    by (simp add: hex_digit_def hex4_def hex_val_def byte_val_def encode_rune_def char_of_def)
  with assms show ?thesis by (cases c) auto
qed

lemma scan_u_escape:
  assumes "\<not> digit7 c"
  shows "scan_string (u_escape c @ s) = push [c] (scan_string s)"
proof -
  obtain n where "hex4 CHR ''0'' CHR ''0'' (hex_byte c ! 0) (hex_byte c ! 1) = Some n"
    "n < 0xD800" "encode_rune n = [c]" using encode_hex_byte[OF assms] by blast
  moreover have "hex_byte c = [hex_byte c ! 0, hex_byte c ! 1]" by (cases c) simp
  ultimately show ?thesis
    unfolding u_escape_def by (metis append_Cons append_Nil scan_u)
qed

lemma scan_enc_byte:
  assumes "\<not> digit7 c"
  shows "scan_string (enc_byte c @ s) = push [c] (scan_string s)"
proof -
  consider (short) "c \<in> {CHR 0x22, CHR 0x5C, CHR 0x08, CHR 0x0C, CHR 0x0A, CHR 0x0D, CHR 0x09}"
    | (other) "c \<notin> {CHR 0x22, CHR 0x5C, CHR 0x08, CHR 0x0C, CHR 0x0A, CHR 0x0D, CHR 0x09}" by blast
  then show ?thesis
  proof cases
    case short
    then show ?thesis
      by (auto simp: enc_byte_def control_byte_def simple_escape_def scan_simple)
  next
    case other
    then have "enc_byte c = u_escape c \<or> enc_byte c = [c] \<and> \<not> control_byte c"
      by (simp add: enc_byte_def)
    with other show ?thesis
      using scan_u_escape[OF assms, of s] scan_plain[of c s] by auto
  qed
qed

lemma scan_escaped_runes:
  "scan_string (CHR 0x5C # ''ufffd'' @ s) = push rune_error (scan_string s)"
  "scan_string (CHR 0x5C # ''u2028'' @ s) = push [CHR 0xE2, CHR 0x80, CHR 0xA8] (scan_string s)"
  "scan_string (CHR 0x5C # ''u2029'' @ s) = push [CHR 0xE2, CHR 0x80, CHR 0xA9] (scan_string s)"
proof -
  have h: "hex4 CHR ''f'' CHR ''f'' CHR ''f'' CHR ''d'' = Some 0xFFFD"
    "hex4 CHR ''2'' CHR ''0'' CHR ''2'' CHR ''8'' = Some 0x2028"
    "hex4 CHR ''2'' CHR ''0'' CHR ''2'' CHR ''9'' = Some 0x2029"
    and e: "encode_rune 0xFFFD = rune_error"
    "encode_rune 0x2028 = [CHR 0xE2, CHR 0x80, CHR 0xA8]"
    "encode_rune 0x2029 = [CHR 0xE2, CHR 0x80, CHR 0xA9]"
    by code_simp+
  show "scan_string (CHR 0x5C # ''ufffd'' @ s) = push rune_error (scan_string s)"
    "scan_string (CHR 0x5C # ''u2028'' @ s) = push [CHR 0xE2, CHR 0x80, CHR 0xA8] (scan_string s)"
    "scan_string (CHR 0x5C # ''u2029'' @ s) = push [CHR 0xE2, CHR 0x80, CHR 0xA9] (scan_string s)"
    using scan_u[OF h(1)] scan_u[OF h(2)] scan_u[OF h(3)] e by simp_all
qed

theorem scan_enc_string:
  "scan_string (enc_chars s @ CHR 0x22 # r) = Some (to_valid s, r)"
proof (induction s rule: enc_chars.induct)
  case (2 c cs)
  show ?case
  proof (cases "digit7 c")
    case False
    with 2 show ?thesis by (simp add: scan_enc_byte)
  next
    case True
    show ?thesis
    proof (cases "rune_len (c # cs)")
      case 0
      with 2 True scan_escaped_runes(1)[of "enc_chars cs @ CHR 0x22 # r"] show ?thesis by simp
    next
      case (Suc n)
      let ?p = "c # take n cs" and ?s = "enc_chars (drop n cs) @ CHR 0x22 # r"
      have ih: "scan_string ?s = Some (to_valid (drop n cs), r)"
        using 2(3)[OF _ Suc] True by simp
      have raw: "scan_string (?p @ ?s) = push ?p (scan_string ?s)"
        by (rule scan_raw) (use rune_len_cases(2)[OF Suc True] True in auto)
      have v: "to_valid (c # cs) = ?p @ to_valid (drop n cs)"
        using Suc by simp
      have e: "enc_chars (c # cs) @ CHR 0x22 # r =
          (if ?p = [CHR 0xE2, CHR 0x80, CHR 0xA8] then CHR 0x5C # ''u2028''
           else if ?p = [CHR 0xE2, CHR 0x80, CHR 0xA9] then CHR 0x5C # ''u2029'' else ?p) @ ?s"
        using Suc True by simp
      consider "?p = [CHR 0xE2, CHR 0x80, CHR 0xA8]" | "?p = [CHR 0xE2, CHR 0x80, CHR 0xA9]"
        | "?p \<noteq> [CHR 0xE2, CHR 0x80, CHR 0xA8]" "?p \<noteq> [CHR 0xE2, CHR 0x80, CHR 0xA9]" by blast
      then show ?thesis
      proof cases
        case 1
        then have "scan_string (enc_chars (c # cs) @ CHR 0x22 # r) = push ?p (scan_string ?s)"
          unfolding e using scan_escaped_runes(2)[of ?s] by simp
        with ih v show ?thesis by simp
      next
        case 2
        then have "scan_string (enc_chars (c # cs) @ CHR 0x22 # r) = push ?p (scan_string ?s)"
          unfolding e using scan_escaped_runes(3)[of ?s] by simp
        with ih v show ?thesis by simp
      next
        case 3
        have "scan_string (enc_chars (c # cs) @ CHR 0x22 # r) = push ?p (scan_string ?s)"
          unfolding e if_not_P[OF 3(1)] if_not_P[OF 3(2)] by (rule raw)
        with ih v show ?thesis by simp
      qed
    qed
  qed
qed simp

subsection \<open>Numbers\<close>

definition wf_num :: "string \<Rightarrow> bool" where
  "wf_num lit \<longleftrightarrow> scan_num lit = Some (lit, [])"

text \<open>What may follow a value: nothing a number could go on with.\<close>

definition value_end :: "string \<Rightarrow> bool" where
  "value_end r \<longleftrightarrow> r = [] \<or> hd r \<in> {CHR '','', CHR '']'', CHR ''}''}"

lemma value_end_simps [simp]:
  "value_end []" "value_end (CHR '','' # r)" "value_end (CHR '']'' # r)" "value_end (CHR ''}'' # r)"
  by (simp_all add: value_end_def)

text \<open>
  A scanner of number parts is \<open>stable\<close> when what it reads is a prefix of its input, and
  it reads the same from any text that goes on in the same way: with the same next byte, with
  nothing, or, where the input was used up, with the end of a value.
\<close>

definition goes_on :: "string \<Rightarrow> string \<Rightarrow> bool" where
  "goes_on r x \<longleftrightarrow> x = [] \<or> r \<noteq> [] \<and> hd x = hd r \<or> r = [] \<and> value_end x"

definition stable :: "(string \<Rightarrow> (string \<times> string) option) \<Rightarrow> bool" where
  "stable p \<longleftrightarrow> (\<forall>s a r. p s = Some (a, r) \<longrightarrow>
     s = a @ r \<and> (\<forall>x. goes_on r x \<longrightarrow> p (a @ x) = Some (a, x)))"

lemma stable_seq:
  assumes "stable p" "stable q"
  shows "stable (seq p q)"
  unfolding stable_def
proof (intro allI impI)
  fix s a r
  assume "seq p q s = Some (a, r)"
  then obtain b c t where b: "p s = Some (b, t)" and c: "q t = Some (c, r)" and a: "a = b @ c"
    by (auto simp: seq_def push_def split: option.splits)
  from assms b c have t: "s = b @ t" "t = c @ r" unfolding stable_def by blast+
  have "seq p q (a @ x) = Some (a, x)" if "goes_on r x" for x
  proof -
    from that t have "goes_on t (c @ x)" by (cases c) (auto simp: goes_on_def)
    with assms(1) b have "p (b @ c @ x) = Some (b, c @ x)" unfolding stable_def by blast
    moreover from assms(2) c that have "q (c @ x) = Some (c, x)" unfolding stable_def by blast
    ultimately show ?thesis by (simp add: seq_def a)
  qed
  with a t show "s = a @ r \<and> (\<forall>x. goes_on r x \<longrightarrow> seq p q (a @ x) = Some (a, x))" by simp
qed

lemma goes_on_hd: "goes_on r x \<Longrightarrow> r = [] \<or> hd r \<notin> S \<Longrightarrow> S \<inter> {CHR '','', CHR '']'', CHR ''}''} = {} \<Longrightarrow>
  x = [] \<or> hd x \<notin> S"
  by (auto simp: goes_on_def value_end_def)

lemma stable_sign:
  assumes "set signs \<inter> {CHR '','', CHR '']'', CHR ''}''} = {}"
  shows "stable (scan_sign signs)"
  unfolding stable_def
proof (intro allI impI)
  fix s a r
  assume "scan_sign signs s = Some (a, r)"
  then consider c where "s = c # r" "a = [c]" "c \<in> set signs"
    | "s = r" "a = []" "r = [] \<or> hd r \<notin> set signs"
    by (cases s) (auto simp: scan_sign_def split: if_splits)
  then show "s = a @ r \<and> (\<forall>x. goes_on r x \<longrightarrow> scan_sign signs (a @ x) = Some (a, x))"
  proof cases
    case 1
    then show ?thesis by (simp add: scan_sign_def)
  next
    case 2
    then have "scan_sign signs x = Some ([], x)" if "goes_on r x" for x
      using goes_on_hd[OF that _ assms] by (cases x) (auto simp: scan_sign_def)
    with 2 show ?thesis by simp
  qed
qed

lemma stable_digits: "stable scan_digits"
  unfolding stable_def
proof (intro allI impI)
  fix s a r
  assume "scan_digits s = Some (a, r)"
  then have s: "s = a @ r" and a: "a \<noteq> []" "\<forall>c \<in> set a. is_digit c" and r: "r = [] \<or> \<not> is_digit (hd r)"
    by (auto simp: scan_digits_def hd_dropWhile dest: set_takeWhileD split: if_splits)
  have "scan_digits (a @ x) = Some (a, x)" if "goes_on r x" for x
  proof -
    have "x = [] \<or> hd x \<notin> {c. is_digit c}"
      by (rule goes_on_hd[OF that]) (use r in \<open>auto simp: is_digit_def\<close>)
    then have "takeWhile is_digit x = []" "dropWhile is_digit x = x" by (cases x; simp)+
    with a show ?thesis by (auto simp: scan_digits_def)
  qed
  with s show "s = a @ r \<and> (\<forall>x. goes_on r x \<longrightarrow> scan_digits (a @ x) = Some (a, x))" by simp
qed

lemma stable_int: "stable scan_int"
  unfolding stable_def
proof (intro allI impI)
  fix s a r
  assume i: "scan_int s = Some (a, r)"
  show "s = a @ r \<and> (\<forall>x. goes_on r x \<longrightarrow> scan_int (a @ x) = Some (a, x))"
  proof (cases "s \<noteq> [] \<and> hd s = CHR ''0''")
    case True
    with i show ?thesis by (cases s) (auto simp: scan_int_def)
  next
    case False
    with i have d: "scan_digits s = Some (a, r)" by (cases s) (auto simp: scan_int_def split: if_splits)
    with stable_digits have e: "s = a @ r" "\<And>x. goes_on r x \<Longrightarrow> scan_digits (a @ x) = Some (a, x)"
      unfolding stable_def by blast+
    from d have "a \<noteq> []" by (auto simp: scan_digits_def split: if_splits)
    with e False show ?thesis by (cases a) (auto simp: scan_int_def)
  qed
qed

lemma stable_part:
  assumes "stable p" "set heads \<inter> {CHR '','', CHR '']'', CHR ''}''} = {}"
  shows "stable (scan_part heads p)"
  unfolding stable_def
proof (intro allI impI)
  fix s a r
  assume "scan_part heads p s = Some (a, r)"
  then consider c cs b where "s = c # cs" "a = c # b" "c \<in> set heads" "p cs = Some (b, r)"
    | "s = r" "a = []" "r = [] \<or> hd r \<notin> set heads"
    by (cases s) (auto simp: scan_part_def push_def split: if_splits option.splits)
  then show "s = a @ r \<and> (\<forall>x. goes_on r x \<longrightarrow> scan_part heads p (a @ x) = Some (a, x))"
  proof cases
    case 1
    with assms(1) have "cs = b @ r" "\<And>x. goes_on r x \<Longrightarrow> p (b @ x) = Some (b, x)"
      unfolding stable_def by blast+
    with 1 show ?thesis by (simp add: scan_part_def)
  next
    case 2
    then have "scan_part heads p x = Some ([], x)" if "goes_on r x" for x
      using goes_on_hd[OF that _ assms(2)] by (cases x) (auto simp: scan_part_def)
    with 2 show ?thesis by simp
  qed
qed

lemma stable_num: "stable scan_num"
  unfolding scan_num_def
  by (intro stable_seq stable_sign stable_int stable_part stable_digits) auto

lemma scan_num_wf: "wf_num lit \<Longrightarrow> value_end x \<Longrightarrow> scan_num (lit @ x) = Some (lit, x)"
  using stable_num unfolding wf_num_def stable_def goes_on_def by blast

lemma wf_num_scanned: "scan_num s = Some (lit, r) \<Longrightarrow> wf_num lit"
  using stable_num unfolding wf_num_def stable_def goes_on_def by (metis append_Nil2)

lemma scan_num_prefix: "scan_num s = Some (lit, r) \<Longrightarrow> s = lit @ r"
  using stable_num unfolding stable_def by blast

lemma scan_num_head:
  assumes "scan_num s = Some (lit, r)"
  shows "lit \<noteq> [] \<and> (hd lit = CHR ''-'' \<or> is_digit (hd lit))"
  using assms
  by (cases s) (auto simp: scan_num_def seq_def scan_sign_def scan_int_def scan_digits_def push_def
      is_digit_def split: if_splits option.splits)

subsection \<open>Values\<close>

primrec wf_json :: "json \<Rightarrow> bool" where
  "wf_json JNull \<longleftrightarrow> True"
| "wf_json (JBool b) \<longleftrightarrow> True"
| "wf_json (JNum lit) \<longleftrightarrow> wf_num lit"
| "wf_json (JStr s) \<longleftrightarrow> valid_utf8 s"
| "wf_json (JArr vs) \<longleftrightarrow> list_all id (map wf_json vs)"
| "wf_json (JObj m) \<longleftrightarrow> fmpred (\<lambda>k b. valid_utf8 k \<and> b) (fmmap wf_json m)"

definition wf_object :: "object \<Rightarrow> bool" where
  "wf_object m \<longleftrightarrow> fmpred (\<lambda>k v. valid_utf8 k \<and> wf_json v) m"

definition wf_map :: "goobject \<Rightarrow> bool" where
  "wf_map m \<longleftrightarrow> (case m of None \<Rightarrow> True | Some f \<Rightarrow> wf_object f)"

lemma wf_json_JObj [simp]: "wf_json (JObj m) \<longleftrightarrow> wf_object m"
  by (auto simp: wf_object_def fmpred_iff)

lemma wf_json_JArr: "wf_json (JArr vs) \<longleftrightarrow> (\<forall>v \<in> set vs. wf_json v)"
  by (simp add: list_all_iff)

declare wf_json.simps(5,6) [simp del]
declare wf_json_JArr [simp]

text \<open>The tree the scanner reads from a marshalled value.\<close>

primrec ast_of :: "json \<Rightarrow> jast" where
  "ast_of JNull = ANull"
| "ast_of (JBool b) = ABool b"
| "ast_of (JNum lit) = ANum lit"
| "ast_of (JStr s) = AStr (to_valid s)"
| "ast_of (JArr vs) = AArr (map ast_of vs)"
| "ast_of (JObj m) = AObj (map (\<lambda>(k, a). (to_valid k, a)) (sorted_list_of_fmap (fmmap ast_of m)))"

lemma sorted_list_of_fmap_map:
  "sorted_list_of_fmap (fmmap f m) = map (apsnd f) (sorted_list_of_fmap m)"
  unfolding sorted_list_of_fmap_def
  by (simp add: comp_def) (metis fmdom_notI fmlookup_dom_iff option.map_sel sorted_list_of_fset_simps(1))

lemma any_of_ast_of: "wf_json v \<Longrightarrow> any_of (ast_of v) = v"
proof (induction v)
  case (JStr s)
  then show ?case by (simp add: to_valid_valid)
next
  case (JArr vs)
  then show ?case by (simp add: map_idI)
next
  case (JObj m)
  let ?l = "sorted_list_of_fmap m"
  have mem: "(k, v) \<in> set ?l \<longleftrightarrow> fmlookup m k = Some v" for k v
    by (metis distinct_sorted_fmap map_of_eq_Some_iff map_of_sorted_list)
  have "map (\<lambda>(k, v). (k, any_of v)) (map (\<lambda>(k, a). (to_valid k, a)) (map (apsnd ast_of) ?l)) = ?l"
  proof (simp add: comp_def, rule map_idI)
    fix p assume p: "p \<in> set ?l"
    obtain k v where kv: "p = (k, v)" by (cases p)
    with p mem have "fmlookup m k = Some v" by simp
    with JObj have "valid_utf8 k" "any_of (ast_of v) = v"
      by (auto simp: wf_object_def fmpred_iff intro!: JObj.IH fmran'I)
    then show "(case case apsnd ast_of p of (k, a) \<Rightarrow> (to_valid k, a) of (k, v) \<Rightarrow> (k, any_of v)) = p"
      by (simp add: kv to_valid_valid)
  qed
  then show ?case
    by (simp add: sorted_list_of_fmap_map fmap_of_rev_sorted)
qed simp_all

subsection \<open>Scanning what was marshalled\<close>

lemma skip_ws_head: "\<not> json_space c \<Longrightarrow> skip_ws (c # s) = c # s"
  by (simp add: skip_ws_def)

lemma skip_ws_punct [simp]:
  "skip_ws (CHR '','' # s) = CHR '','' # s" "skip_ws (CHR '']'' # s) = CHR '']'' # s"
  "skip_ws (CHR ''}'' # s) = CHR ''}'' # s" "skip_ws (CHR '':'' # s) = CHR '':'' # s"
  "skip_ws (CHR 0x22 # s) = CHR 0x22 # s" "skip_ws [] = []"
  by (simp_all add: skip_ws_def json_space_def)

lemma marshal_head:
  assumes "wf_json v"
  shows "\<exists>c cs. marshal v = c # cs \<and> \<not> json_space c \<and> c \<noteq> CHR '']'' \<and> c \<noteq> CHR ''}''"
proof (cases v)
  case (JNum lit)
  with assms have "lit \<noteq> [] \<and> (hd lit = CHR ''-'' \<or> is_digit (hd lit))"
    by (auto simp: wf_num_def dest: scan_num_head)
  with JNum show ?thesis
    by (cases lit) (auto simp: json_space_def is_digit_def)
qed (auto simp: json_space_def enc_string_def enc_list_def enc_members_def)

text \<open>The members of an object and the elements of an array after the scanner has read
  them, from what it does on each value.\<close>

definition scans :: "string \<Rightarrow> jast \<Rightarrow> bool" where
  "scans t a \<longleftrightarrow> t \<noteq> [] \<and> \<not> json_space (hd t) \<and> hd t \<noteq> CHR '']'' \<and> hd t \<noteq> CHR ''}'' \<and>
     (\<forall>n r. value_end r \<longrightarrow> 2 * length (t @ r) + 1 \<le> n \<longrightarrow> scan_value n (t @ r) = Some (a, r))"

lemma scansD:
  "scans t a \<Longrightarrow> value_end r \<Longrightarrow> 2 * length (t @ r) + 1 \<le> n \<Longrightarrow> scan_value n (t @ r) = Some (a, r)"
  unfolding scans_def by blast

lemma scans_skip: "scans t a \<Longrightarrow> skip_ws (t @ r) = t @ r"
  by (cases t) (auto simp: scans_def skip_ws_def)

lemma scan_elems_list:
  assumes "list_all2 scans ts vs" "ts \<noteq> []" "2 * length (join_sep '','' ts @ CHR '']'' # r) + 2 \<le> n"
  shows "scan_elems n (join_sep '','' ts @ CHR '']'' # r) = Some (vs, r)"
  using assms
proof (induction ts arbitrary: vs n)
  case (Cons t ts)
  then obtain v vs' where vs: "vs = v # vs'" and tv: "scans t v" and ts: "list_all2 scans ts vs'"
    by (cases vs) auto
  from Cons.prems obtain m where n: "n = Suc m" by (cases n) auto
  show ?case
  proof (cases "ts = []")
    case True
    with tv Cons.prems(3) n have "scan_value m (t @ CHR '']'' # r) = Some (v, CHR '']'' # r)"
      by (simp add: scans_def)
    with True ts show ?thesis by (simp add: n vs)
  next
    case False
    then have j: "join_sep '','' (t # ts) = t @ '','' @ join_sep '','' ts" by (cases ts) simp_all
    let ?rest = "join_sep '','' ts @ CHR '']'' # r"
    from tv Cons.prems(3) n have "scan_value m (t @ CHR '','' # ?rest) = Some (v, CHR '','' # ?rest)"
      by (simp add: scans_def j)
    moreover have "skip_ws ?rest = ?rest"
      using False ts by (cases ts; cases "tl ts") (auto simp: list_all2_Cons1 scans_skip)
    moreover have "scan_elems m ?rest = Some (vs', r)"
      by (rule Cons.IH[OF ts False]) (use Cons.prems(3) n j in simp)
    ultimately show ?thesis by (simp add: n j vs)
  qed
qed simp

lemma scan_members_list:
  assumes "list_all2 (\<lambda>p q. fst p = fst q \<and> scans (snd p) (snd q)) ps kvs" "ps \<noteq> []"
    "2 * length (join_sep '','' (map enc_member ps) @ CHR ''}'' # r) + 2 \<le> n"
  shows "scan_members n (join_sep '','' (map enc_member ps) @ CHR ''}'' # r)
    = Some (map (\<lambda>(k, a). (to_valid k, a)) kvs, r)"
  using assms
proof (induction ps arbitrary: kvs n)
  case (Cons p ps)
  obtain k t where p: "p = (k, t)" by (cases p)
  with Cons.prems(1) obtain v kvs' where kvs: "kvs = (k, v) # kvs'" and tv: "scans t v"
    and ps: "list_all2 (\<lambda>p q. fst p = fst q \<and> scans (snd p) (snd q)) ps kvs'"
    by (cases kvs) auto
  from Cons.prems obtain m where n: "n = Suc m" by (cases n) auto
  have str: "scan_string (enc_chars k @ CHR 0x22 # CHR '':'' # x) = Some (to_valid k, CHR '':'' # x)" for x
    by (rule scan_enc_string)
  show ?case
  proof (cases "ps = []")
    case True
    with tv Cons.prems(3) n p have "scan_value m (t @ CHR ''}'' # r) = Some (v, CHR ''}'' # r)"
      by (simp add: scans_def enc_member_def)
    with True ps tv show ?thesis
      by (simp add: n p kvs enc_member_def enc_string_def str scans_skip)
  next
    case False
    then have j: "join_sep '','' (map enc_member (p # ps))
        = enc_member p @ '','' @ join_sep '','' (map enc_member ps)" by (cases ps) simp_all
    let ?rest = "join_sep '','' (map enc_member ps) @ CHR ''}'' # r"
    have "2 * length (t @ CHR '','' # ?rest) + 1 \<le> m"
      using Cons.prems(3) n unfolding j by (simp add: p enc_member_def[of "(k, t)"])
    with tv have "scan_value m (t @ CHR '','' # ?rest) = Some (v, CHR '','' # ?rest)"
      by (simp add: scans_def)
    moreover have "skip_ws ?rest = ?rest"
      using False by (cases ps; cases "tl ps") (auto simp: enc_member_def enc_string_def)
    moreover have "scan_members m ?rest = Some (map (\<lambda>(k, a). (to_valid k, a)) kvs', r)"
      by (rule Cons.IH[OF ps False]) (use Cons.prems(3) n j in simp)
    moreover have "join_sep '','' (map enc_member (p # ps)) @ CHR ''}'' # r
        = CHR 0x22 # enc_chars k @ CHR 0x22 # CHR '':'' # t @ CHR '','' # ?rest"
      unfolding j by (simp add: p enc_member_def[of "(k, t)"] enc_string_def[of k])
    ultimately show ?thesis
      using tv by (simp add: n kvs str scans_skip)
  qed
qed simp

lemma scans_word:
  assumes "w = ''true'' \<and> v = ABool True \<or> w = ''false'' \<and> v = ABool False \<or> w = ''null'' \<and> v = ANull"
  shows "scans w v"
proof -
  have "scan_value n (w @ r) = Some (v, r)" if "2 * length (w @ r) + 1 \<le> n" for n r
  proof -
    from that obtain m where "n = Suc m" by (cases n) auto
    with assms show ?thesis by (auto simp: scan_word_def has_prefix_def)
  qed
  with assms show ?thesis by (auto simp: scans_def json_space_def)
qed

lemma scans_num: "wf_num lit \<Longrightarrow> scans lit (ANum lit)"
proof -
  assume wf: "wf_num lit"
  then have h: "lit \<noteq> []" "hd lit = CHR ''-'' \<or> is_digit (hd lit)"
    by (auto simp: wf_num_def dest: scan_num_head)
  then obtain c cs where lit: "lit = c # cs" and c: "c = CHR ''-'' \<or> is_digit c"
    by (cases lit) auto
  have "scan_value n (lit @ r) = Some (ANum lit, r)"
    if "value_end r" "2 * length (lit @ r) + 1 \<le> n" for n r
  proof -
    from that obtain m where "n = Suc m" by (cases n) auto
    with c scan_num_wf[OF wf that(1)] show ?thesis by (auto simp: lit is_digit_def)
  qed
  with h show ?thesis by (auto simp: scans_def json_space_def is_digit_def)
qed

lemma scans_string: "scans (enc_string s) (AStr (to_valid s))"
proof -
  have "scan_value n (enc_string s @ r) = Some (AStr (to_valid s), r)"
    if "2 * length (enc_string s @ r) + 1 \<le> n" for n r
  proof -
    from that obtain m where "n = Suc m" by (cases n) auto
    then show ?thesis by (simp add: enc_string_def scan_enc_string)
  qed
  then show ?thesis by (auto simp: scans_def json_space_def enc_string_def)
qed

lemma scans_list:
  assumes "list_all2 scans ts vs"
  shows "scans (enc_list ts) (AArr vs)"
proof -
  have "scan_value n (enc_list ts @ r) = Some (AArr vs, r)"
    if l: "2 * length (enc_list ts @ r) + 1 \<le> n" for n r
  proof -
    from l obtain m where n: "n = Suc m" by (cases n) auto
    show ?thesis
    proof (cases ts)
      case Nil
      with assms n show ?thesis by (simp add: enc_list_def)
    next
      case (Cons t ts')
      have e: "scan_elems m (join_sep '','' ts @ CHR '']'' # r) = Some (vs, r)"
        by (rule scan_elems_list[OF assms]) (use Cons l n in \<open>auto simp: enc_list_def\<close>)
      from Cons assms obtain v where t: "scans t v" by (auto simp: list_all2_Cons1)
      then obtain c cs where c: "t = c # cs" "\<not> json_space c" "c \<noteq> CHR '']''"
        by (cases t) (auto simp: scans_def)
      then obtain ds where "join_sep '','' ts @ CHR '']'' # r = c # ds"
        using Cons by (cases ts') auto
      with c e n show ?thesis
        by (simp add: enc_list_def skip_ws_head)
    qed
  qed
  then show ?thesis by (auto simp: scans_def json_space_def enc_list_def)
qed

lemma scans_members:
  assumes "list_all2 (\<lambda>p q. fst p = fst q \<and> scans (snd p) (snd q)) ps kvs"
  shows "scans (enc_members ps) (AObj (map (\<lambda>(k, a). (to_valid k, a)) kvs))"
proof -
  let ?o = "AObj (map (\<lambda>(k, a). (to_valid k, a)) kvs)"
  have "scan_value n (enc_members ps @ r) = Some (?o, r)"
    if l: "2 * length (enc_members ps @ r) + 1 \<le> n" for n r
  proof -
    from l obtain m where n: "n = Suc m" by (cases n) auto
    show ?thesis
    proof (cases ps)
      case Nil
      with assms n show ?thesis by (simp add: enc_members_def)
    next
      case (Cons p ps')
      have e: "scan_members m (join_sep '','' (map enc_member ps) @ CHR ''}'' # r)
          = Some (map (\<lambda>(k, a). (to_valid k, a)) kvs, r)"
        by (rule scan_members_list[OF assms]) (use Cons l n in \<open>auto simp: enc_members_def\<close>)
      obtain ds where "join_sep '','' (map enc_member ps) @ CHR ''}'' # r = CHR 0x22 # ds"
        using Cons by (cases ps') (auto simp: enc_member_def enc_string_def)
      with e n show ?thesis by (simp add: enc_members_def skip_ws_head json_space_def)
    qed
  qed
  then show ?thesis by (auto simp: scans_def json_space_def enc_members_def)
qed

theorem scans_marshal: "wf_json v \<Longrightarrow> scans (marshal v) (ast_of v)"
proof (induction v)
  case (JArr vs)
  then have "list_all2 scans (map marshal vs) (map ast_of vs)"
    by (auto simp: list_all2_conv_all_nth)
  then show ?case by (simp add: scans_list)
next
  case (JObj m)
  have "list_all2 (\<lambda>p q. fst p = fst q \<and> scans (snd p) (snd q))
      (map (apsnd marshal) (sorted_list_of_fmap m)) (map (apsnd ast_of) (sorted_list_of_fmap m))"
  proof (simp add: list.rel_map, rule list.rel_refl_strong)
    fix p assume "p \<in> set (sorted_list_of_fmap m)"
    then have "fmlookup m (fst p) = Some (snd p)"
      by (metis distinct_sorted_fmap map_of_eq_Some_iff map_of_sorted_list prod.collapse)
    with JObj show "fst p = fst p \<and> scans (marshal (snd p)) (ast_of (snd p))"
      by (auto simp: wf_object_def fmpred_iff intro!: JObj.IH fmran'I)
  qed
  from scans_members[OF this] show ?case by (simp add: sorted_list_of_fmap_map)
qed (auto intro: scans_word scans_num scans_string)

lemma parse_scans:
  assumes "scans t a"
  shows "parse t = Some a"
proof -
  have "scan_value (scan_fuel t) (t @ []) = Some (a, [])"
    by (rule scansD[OF assms]) (simp_all add: scan_fuel_def)
  with assms scans_skip[OF assms, of "[]"] show ?thesis by (simp add: parse_def)
qed

lemma wf_any_of_map: "wf_map m \<Longrightarrow> wf_json (any_of_map m)"
  by (auto simp: wf_map_def any_of_map_def split: option.splits)

lemma read_map_ast:
  assumes "wf_map m"
  shows "read_map None (ast_of (any_of_map m)) = Some m"
proof (cases m)
  case (Some f)
  with assms have "any_of (ast_of (JObj f)) = JObj f"
    by (intro any_of_ast_of) (simp add: wf_map_def)
  with Some show ?thesis by (simp add: read_map_def any_of_map_def)
qed (simp add: read_map_def any_of_map_def)

theorem unmarshal_marshal_map: "wf_map m \<Longrightarrow> unmarshal_map (marshal_map m) = Some m"
  by (simp add: unmarshal_map_def marshal_map_def parse_scans[OF scans_marshal] wf_any_of_map
      read_map_ast)

subsection \<open>The fuel is enough\<close>

lemma skip_ws_length: "length (skip_ws s) \<le> length s"
  by (simp add: skip_ws_def length_dropWhile_le)

lemma scan_string_shorter: "scan_string s = Some (x, r) \<Longrightarrow> length r < length s"
proof (induction "length s" arbitrary: s x r rule: less_induct)
  case less
  have IH: "length r < length t" if "scan_string t = Some (y, r)" "length t < length s" for t y
    using less.hyps[OF that(2,1)] .
  show ?case
  proof (cases s)
    case (Cons c cs)
    with less.prems show ?thesis
      by (auto simp: scan_string.simps(2) push_def split: if_splits list.splits option.splits
          dest!: IH)
  qed (use less.prems in simp)
qed

lemma skip_ws_shorter: "skip_ws s = d # ds \<Longrightarrow> length ds < length s"
  using skip_ws_length[of s] by simp

lemma skip_ws_less: "k < length (skip_ws s) \<Longrightarrow> k < length s"
  using skip_ws_length[of s] by simp

lemma scan_num_shorter: "scan_num s = Some (l, r) \<Longrightarrow> length r < length s"
  using scan_num_prefix[of s l r] scan_num_head[of s l r] by auto

lemma scan_shorter:
  "scan_value n s = Some (v, r) \<Longrightarrow> length r < length s"
  "scan_elems n s = Some (vs, r) \<Longrightarrow> length r < length s"
  "scan_members n s = Some (kvs, r) \<Longrightarrow> length r < length s"
proof (induction n arbitrary: s v vs kvs r)
  case (Suc n)
  note sh = Suc.IH skip_ws_shorter scan_string_shorter scan_num_shorter
  {
    case 1
    show ?case
    proof (cases s)
      case (Cons c cs)
      have ws: "length (skip_ws cs) \<le> length cs" by (rule skip_ws_length)
      from 1 Cons show ?thesis
        by (auto simp: scan_word_def split: if_splits option.splits list.splits)
          (use ws in \<open>auto dest!: sh\<close>)
    qed (use 1 in simp)
  next
    case 2
    then obtain w t where w: "scan_value n s = Some (w, t)" by (auto split: option.splits)
    with Suc.IH(1) have "length t < length s" by blast
    with 2 w show ?case
      by (auto split: if_splits option.splits list.splits
          dest!: Suc.IH(2) skip_ws_less skip_ws_shorter)
  next
    case 3
    then obtain k t es where k: "scan_string (tl s) = Some (k, t)" and t: "skip_ws t = CHR '':'' # es"
      and s: "s = CHR 0x22 # tl s"
      by (cases s) (auto split: if_splits option.splits list.splits)
    with 3 obtain w t' where w: "scan_value n (skip_ws es) = Some (w, t')"
      by (cases s) (auto split: if_splits option.splits list.splits)
    have "length t < length (tl s)" "length es < length t" "length t' < length es"
      using scan_string_shorter[OF k] skip_ws_shorter[OF t] skip_ws_less[OF Suc.IH(1)[OF w]] by auto
    moreover have "length (tl s) < length s" using s by (cases s) auto
    ultimately have "length t' < length s" by linarith
    with 3 k t w s show ?case
      by (cases s) (auto split: if_splits option.splits list.splits
          dest!: Suc.IH(3) skip_ws_less skip_ws_shorter)
  }
qed simp_all

text \<open>Any two amounts of fuel that are enough for the text give the same result.\<close>

lemma scan_fuel_irrelevant:
  "2 * length s + 1 \<le> n \<Longrightarrow> 2 * length s + 1 \<le> m \<Longrightarrow> scan_value n s = scan_value m s"
  "2 * length s + 2 \<le> n \<Longrightarrow> 2 * length s + 2 \<le> m \<Longrightarrow> scan_elems n s = scan_elems m s"
  "2 * length s + 2 \<le> n \<Longrightarrow> 2 * length s + 2 \<le> m \<Longrightarrow> scan_members n s = scan_members m s"
proof (induction n arbitrary: s m)
  case (Suc n)
  {
    case 1
    then obtain m' where m: "m = Suc m'" by (cases m) auto
    show ?case
    proof (cases s)
      case (Cons c cs)
      have "scan_elems n (d # ds) = scan_elems m' (d # ds)
          \<and> scan_members n (d # ds) = scan_members m' (d # ds)" if "skip_ws cs = d # ds" for d ds
        using skip_ws_length[of cs] that 1 Cons m by (intro conjI Suc.IH) auto
      then show ?thesis
        by (simp add: m Cons split: list.split)
    qed (simp add: m)
  next
    case 2
    then obtain m' where m: "m = Suc m'" by (cases m) auto
    have v: "scan_value n s = scan_value m' s" using 2 m by (intro Suc.IH) auto
    have "scan_elems n (skip_ws ds) = scan_elems m' (skip_ws ds)"
      if "scan_value m' s = Some (w, t)" "skip_ws t = d # ds" for w t d ds
      using scan_shorter(1)[OF that(1)] skip_ws_shorter[OF that(2)] skip_ws_length[of ds] 2 m
      by (intro Suc.IH) auto
    then show ?case by (simp add: m v split: option.split list.split)
  next
    case 3
    then obtain m' where m: "m = Suc m'" by (cases m) auto
    have v: "scan_value n (skip_ws es) = scan_value m' (skip_ws es)"
      if "s = q # qs" "scan_string qs = Some (k, t)" "skip_ws t = e # es" for q qs k t e es
      using scan_string_shorter[OF that(2)] skip_ws_shorter[OF that(3)] skip_ws_length[of es] 3 m that(1)
      by (intro Suc.IH) auto
    have "scan_members n (skip_ws ds) = scan_members m' (skip_ws ds)"
      if "s = q # qs" "scan_string qs = Some (k, t)" "skip_ws t = e # es"
        "scan_value m' (skip_ws es) = Some (w, t')" "skip_ws t' = d # ds" for q qs k t e es w t' d ds
      using scan_string_shorter[OF that(2)] skip_ws_shorter[OF that(3)] skip_ws_length[of es] 3 m that(1)
        scan_shorter(1)[OF that(4)] skip_ws_shorter[OF that(5)] skip_ws_length[of ds]
      by (intro Suc.IH) auto
    then show ?case using v by (auto simp: m split: option.split list.split)
  }
qed simp_all

theorem scan_value_fuel:
  assumes "scan_fuel s \<le> n"
  shows "scan_value n (skip_ws s) = scan_value (scan_fuel s) (skip_ws s)"
  using assms skip_ws_length[of s] by (intro scan_fuel_irrelevant) (auto simp: scan_fuel_def)

subsection \<open>What is read is well-formed\<close>

fun wf_ast :: "jast \<Rightarrow> bool" where
  "wf_ast ANull \<longleftrightarrow> True"
| "wf_ast (ABool b) \<longleftrightarrow> True"
| "wf_ast (ANum lit) \<longleftrightarrow> wf_num lit"
| "wf_ast (AStr s) \<longleftrightarrow> valid_utf8 s"
| "wf_ast (AArr vs) \<longleftrightarrow> (\<forall>v \<in> set vs. wf_ast v)"
| "wf_ast (AObj kvs) \<longleftrightarrow> (\<forall>(k, v) \<in> set kvs. valid_utf8 k \<and> wf_ast v)"

lemma scan_wf:
  "scan_value n s = Some (v, r) \<Longrightarrow> wf_ast v"
  "scan_elems n s = Some (vs, r) \<Longrightarrow> \<forall>v \<in> set vs. wf_ast v"
  "scan_members n s = Some (kvs, r) \<Longrightarrow> \<forall>(k, v) \<in> set kvs. valid_utf8 k \<and> wf_ast v"
proof (induction n arbitrary: s v vs kvs r)
  case (Suc n)
  {
    case 1
    then show ?case
      by (auto simp: scan_word_def valid_to_valid split: if_splits option.splits list.splits
          dest!: Suc.IH(2,3) wf_num_scanned)
  next
    case 2
    then show ?case
      by (auto split: if_splits option.splits list.splits dest!: Suc.IH(1,2))
  next
    case 3
    then show ?case
      by (auto simp: valid_to_valid split: if_splits option.splits list.splits dest!: Suc.IH(1,3))
        fastforce+
  }
qed simp_all

lemma parse_wf: "parse s = Some a \<Longrightarrow> wf_ast a"
  by (auto simp: parse_def split: option.splits if_splits dest: scan_wf(1))

lemma wf_object_of_list:
  assumes "\<forall>(k, v) \<in> set kvs. valid_utf8 k \<and> wf_json (f v)"
  shows "wf_object (fmap_of_list (rev (map (\<lambda>(k, v). (k, f v)) kvs)))"
  using assms by (fastforce simp: wf_object_def fmpred_iff fmlookup_of_list dest!: map_of_SomeD)

theorem wf_any_of: "wf_ast a \<Longrightarrow> wf_json (any_of a)"
proof (induction a rule: any_of.induct)
  case (6 kvs)
  then show ?case by (auto intro!: wf_object_of_list)
qed auto

lemma wf_object_empty [simp]: "wf_object fmempty"
  by (simp add: wf_object_def)

lemma wf_object_add: "wf_object m \<Longrightarrow> wf_object n \<Longrightarrow> wf_object (m ++\<^sub>f n)"
  by (auto simp: wf_object_def)

lemma wf_object_upd: "wf_object m \<Longrightarrow> valid_utf8 k \<Longrightarrow> wf_json v \<Longrightarrow> wf_object (fmupd k v m)"
  by (auto simp: wf_object_def)

lemma wf_entries: "wf_map m \<Longrightarrow> wf_object (entries m)"
  by (cases m) (auto simp: wf_map_def)

lemma wf_map_simps [simp]: "wf_map None" "wf_map (Some f) \<longleftrightarrow> wf_object f"
  by (simp_all add: wf_map_def)

lemmas wf_json_intros [wf_intros] = wf_object_add wf_object_upd wf_entries wf_any_of_map

lemma read_map_wf: "read_map old a = Some m \<Longrightarrow> wf_ast a \<Longrightarrow> wf_map old \<Longrightarrow> wf_map m"
  by (auto simp: read_map_def split: jast.splits intro!: wf_object_add wf_object_of_list wf_any_of wf_entries)

lemma unmarshal_map_wf: "unmarshal_map s = Some m \<Longrightarrow> wf_map m"
  by (auto simp: unmarshal_map_def split: option.splits intro: read_map_wf parse_wf)

subsection \<open>The contract of a codec\<close>

text \<open>
  What a component that stores or sends marshalled values relies on: a well-formed value is
  read back, and what is read is well-formed. The clients' lemmas follow from the two laws.
\<close>

locale codec =
  fixes enc :: "'a \<Rightarrow> string"
    and dec :: "string \<Rightarrow> 'a option"
    and wf :: "'a \<Rightarrow> bool"
  assumes dec_enc: "wf v \<Longrightarrow> dec (enc v) = Some v"
    and dec_wf: "dec s = Some v \<Longrightarrow> wf v"
begin

lemma enc_inj: "wf v \<Longrightarrow> wf w \<Longrightarrow> enc v = enc w \<Longrightarrow> v = w"
  using dec_enc by (metis option.inject)

lemma reencode: "dec s = Some v \<Longrightarrow> dec (enc v) = Some v"
  by (rule dec_enc) (rule dec_wf)

lemma dec_all: "\<forall>v \<in> set vs. wf v \<Longrightarrow> map dec (map enc vs) = map Some vs"
  by (induction vs) (auto simp: dec_enc)

end

interpretation map_codec: codec marshal_map unmarshal_map wf_map
  by unfold_locales (auto simp: unmarshal_marshal_map intro: unmarshal_map_wf)

end
