(* ===== verification/Envelope.thy ===== *)
theory Envelope
  imports JsonLaws
begin

section \<open>Envelopes (cmd/runner/envelope.go)\<close>

text \<open>
  The message format between the nodes: \<open>envelope\<close>, its JSON form, \<open>parseOrWrapEnvelope\<close>
  and \<open>newCorrelationID\<close>. The two inputs the code takes from its surroundings are arguments:
  \<open>ord\<close>, the order in which the run visits the keys of a map, and \<open>buf\<close>, the eight
  bytes \<open>rand.Read\<close> gives.
\<close>

record envelope =
  correlationID :: string
  source :: string
  data :: goobject

definition marshal_envelope :: "envelope \<Rightarrow> string" where
  "marshal_envelope e =
     enc_members
       ([(''correlation_id'', enc_string (correlationID e))]
        @ (if source e = [] then [] else [(''source'', enc_string (source e))])
        @ [(''data'', marshal_map (data e))])"

definition zero_envelope :: envelope where
  "zero_envelope = \<lparr>correlationID = [], source = [], data = None\<rparr>"

definition read_envelope_field :: "envelope \<Rightarrow> string \<Rightarrow> jast \<Rightarrow> envelope option" where
  "read_envelope_field e k a =
     (if field_named ''correlation_id'' k then
        map_option (\<lambda>s. e\<lparr>correlationID := s\<rparr>) (read_string (correlationID e) a)
      else if field_named ''source'' k then
        map_option (\<lambda>s. e\<lparr>source := s\<rparr>) (read_string (source e) a)
      else if field_named ''data'' k then
        map_option (\<lambda>d. e\<lparr>data := d\<rparr>) (read_map (data e) a)
      else Some e)"

definition unmarshal_envelope :: "string \<Rightarrow> envelope option" where
  "unmarshal_envelope raw =
     (case parse raw of None \<Rightarrow> None | Some a \<Rightarrow> read_struct read_envelope_field zero_envelope a)"

text \<open>The non-empty string under a key: \<open>data[key].(string)\<close> with \<open>s != ""\<close>.\<close>

definition string_at :: "goobject \<Rightarrow> string \<Rightarrow> string option" where
  "string_at d key =
     (case fmlookup (entries d) key of
        Some (JStr s) \<Rightarrow> if s = [] then None else Some s
      | _ \<Rightarrow> None)"

fun first_string :: "goobject \<Rightarrow> string list \<Rightarrow> string option" where
  "first_string d [] = None"
| "first_string d (k # ks) =
     (case string_at d k of Some s \<Rightarrow> Some s | None \<Rightarrow> first_string d ks)"

definition newCorrelationID :: "(string fset \<Rightarrow> string list) \<Rightarrow> string \<Rightarrow> goobject \<Rightarrow> string" where
  "newCorrelationID ord buf d =
     (case first_string d [''correlation_id'', ''id''] of
        Some s \<Rightarrow> s
      | None \<Rightarrow>
          (case first_string d (filter (\<lambda>k. has_suffix k ''_id'') (ord (fmdom (entries d)))) of
             Some s \<Rightarrow> s
           | None \<Rightarrow> hex_encode buf))"

definition parseOrWrapEnvelope ::
    "(string fset \<Rightarrow> string list) \<Rightarrow> string \<Rightarrow> string \<Rightarrow> envelope" where
  "parseOrWrapEnvelope ord buf raw =
     (let wrap =
        (let d = (case unmarshal_map raw of
                    Some d \<Rightarrow> d
                  | None \<Rightarrow> Some (fmupd ''raw'' (JStr raw) fmempty))
         in \<lparr>correlationID = newCorrelationID ord buf d, source = [], data = d\<rparr>)
      in case unmarshal_envelope raw of
           None \<Rightarrow> wrap
         | Some env \<Rightarrow>
             if correlationID env \<noteq> [] \<and> data env \<noteq> None then env else wrap)"

subsection \<open>The JSON form\<close>

definition wf_envelope :: "envelope \<Rightarrow> bool" where
  "wf_envelope e \<longleftrightarrow> valid_utf8 (correlationID e) \<and> valid_utf8 (source e) \<and> wf_map (data e)"

lemma field_names:
  "field_named ''correlation_id'' ''correlation_id''" "\<not> field_named ''correlation_id'' ''source''"
  "\<not> field_named ''correlation_id'' ''data''" "field_named ''source'' ''source''"
  "\<not> field_named ''source'' ''data''" "field_named ''data'' ''data''"
  by code_simp+

lemma valid_names: "to_valid ''correlation_id'' = ''correlation_id''" "to_valid ''source'' = ''source''"
  "to_valid ''data'' = ''data''"
  by code_simp+

lemma parse_members:
  assumes "list_all2 (\<lambda>p q. fst p = fst q \<and> scans (snd p) (snd q)) ps kvs"
  shows "parse (enc_members ps) = Some (AObj (map (\<lambda>(k, a). (to_valid k, a)) kvs))"
  by (rule parse_scans[OF scans_members[OF assms]])

lemma scans_map: "wf_map m \<Longrightarrow> scans (marshal_map m) (ast_of (any_of_map m))"
  unfolding marshal_map_def by (rule scans_marshal) (rule wf_any_of_map)

lemma read_string_Some [simp]: "read_string old (AStr s) = Some s"
  by (simp add: read_string_def)

lemma unmarshal_marshal_envelope:
  assumes "wf_envelope e"
  shows "unmarshal_envelope (marshal_envelope e) = Some e"
proof -
  let ?kvs = "[(''correlation_id'', AStr (correlationID e))]
     @ (if source e = [] then [] else [(''source'', AStr (source e))])
     @ [(''data'', ast_of (any_of_map (data e)))]"
  have wf: "to_valid (correlationID e) = correlationID e" "to_valid (source e) = source e"
    "wf_map (data e)"
    using assms by (auto simp: wf_envelope_def to_valid_valid)
  have "parse (marshal_envelope e) = Some (AObj (map (\<lambda>(k, a). (to_valid k, a)) ?kvs))"
    unfolding marshal_envelope_def
    using scans_string[of "correlationID e"] scans_string[of "source e"] scans_map[OF wf(3)] wf
    by (intro parse_members) auto
  then show ?thesis
    using read_map_ast[OF wf(3)]
    by (simp add: unmarshal_envelope_def read_struct_def zero_envelope_def read_envelope_field_def
        field_names valid_names)
qed

lemma read_members_inv:
  assumes "read_members f s kvs = Some t" "P s"
    and "\<And>s k a s'. (k, a) \<in> set kvs \<Longrightarrow> P s \<Longrightarrow> f s k a = Some s' \<Longrightarrow> P s'"
  shows "P t"
  using assms by (induction f s kvs rule: read_members.induct) (auto split: option.splits)

lemma read_string_valid: "read_string old a = Some s \<Longrightarrow> wf_ast a \<Longrightarrow> valid_utf8 old \<Longrightarrow> valid_utf8 s"
  by (auto simp: read_string_def split: jast.splits)

lemma unmarshal_envelope_wf: "unmarshal_envelope raw = Some e \<Longrightarrow> wf_envelope e"
proof -
  assume u: "unmarshal_envelope raw = Some e"
  have zero: "wf_envelope zero_envelope" by (simp add: wf_envelope_def zero_envelope_def)
  from u obtain a where a: "parse raw = Some a" "read_struct read_envelope_field zero_envelope a = Some e"
    by (auto simp: unmarshal_envelope_def split: option.splits)
  have wa: "wf_ast a" by (rule parse_wf[OF a(1)])
  show ?thesis
  proof (cases a)
    case (AObj kvs)
    with a(2) have r: "read_members read_envelope_field zero_envelope kvs = Some e"
      by (simp add: read_struct_def)
    show ?thesis
      by (rule read_members_inv[where P = wf_envelope, OF r zero])
        (use wa AObj in \<open>fastforce simp: read_envelope_field_def wf_envelope_def
          dest: read_string_valid read_map_wf split: if_splits\<close>)
  qed (use a(2) zero in \<open>auto simp: read_struct_def\<close>)
qed

interpretation envelope_codec: codec marshal_envelope unmarshal_envelope wf_envelope
  by unfold_locales (auto intro: unmarshal_marshal_envelope unmarshal_envelope_wf)

end
