(* ===== verification/Join.thy ===== *)
theory Join
  imports Envelope Services
begin

section \<open>Fan-in state and its changelog (cmd/runner/join.go)\<close>

text \<open>
  \<open>joinState\<close> with its JSON form, \<open>mergeJoinedData\<close>, the two writers of the changelog
  topic (\<open>writeJoinState\<close>, \<open>tombstoneJoinState\<close>) and the hydration that rebuilds the
  in-memory joins from it at startup (\<open>applyHydratedRecord\<close>, \<open>hydratePartition\<close>,
  \<open>hydrateJoinState\<close>). \<open>Received\<close> can be nil: a record \<open>{}\<close> reads to that.
\<close>

subsection \<open>The state of one join\<close>

record joinState =
  received :: "(string, goobject) gomap"

definition marshal_joinState :: "joinState \<Rightarrow> string" where
  "marshal_joinState st =
     enc_members [(''received'',
       (case received st of
          None \<Rightarrow> ''null''
        | Some f \<Rightarrow> enc_members (sorted_list_of_fmap (fmmap marshal_map f))))]"

text \<open>Into a \<open>map[string]map[string]any\<close>: each member starts from a nil map.\<close>

fun read_submaps :: "(string, goobject) fmap \<Rightarrow> (string \<times> jast) list \<Rightarrow> (string, goobject) fmap option" where
  "read_submaps m [] = Some m"
| "read_submaps m ((k, a) # kvs) =
     (case read_map None a of None \<Rightarrow> None | Some d \<Rightarrow> read_submaps (fmupd k d m) kvs)"

definition read_received :: "(string, goobject) gomap \<Rightarrow> jast \<Rightarrow> (string, goobject) gomap option" where
  "read_received old a =
     (case a of
        ANull \<Rightarrow> Some None
      | AObj kvs \<Rightarrow> map_option Some (read_submaps (entries old) kvs)
      | _ \<Rightarrow> None)"

definition zero_joinState :: joinState where
  "zero_joinState = \<lparr>received = None\<rparr>"

definition read_joinState_field :: "joinState \<Rightarrow> string \<Rightarrow> jast \<Rightarrow> joinState option" where
  "read_joinState_field st k a =
     (if field_named ''received'' k then
        map_option (\<lambda>r. st\<lparr>received := r\<rparr>) (read_received (received st) a)
      else Some st)"

definition unmarshal_joinState :: "string \<Rightarrow> joinState option" where
  "unmarshal_joinState s =
     (case parse s of None \<Rightarrow> None | Some a \<Rightarrow> read_struct read_joinState_field zero_joinState a)"

subsection \<open>Merging the contributions\<close>

text \<open>\<open>for k, v := range data\<close>: add what is not there yet.\<close>

fun add_missing :: "string list \<Rightarrow> object \<Rightarrow> object \<Rightarrow> object" where
  "add_missing [] d merged = merged"
| "add_missing (k # ks) d merged =
     add_missing ks d
       (case fmlookup d k of
          None \<Rightarrow> merged
        | Some v \<Rightarrow> (case fmlookup merged k of None \<Rightarrow> fmupd k v merged | Some _ \<Rightarrow> merged))"

text \<open>\<open>for source, data := range st.Received\<close>, over the sources in the order of the list.\<close>

fun merge_sources ::
    "(string fset \<Rightarrow> string list) \<Rightarrow> string list \<Rightarrow> (string, goobject) fmap \<Rightarrow> object \<Rightarrow> object" where
  "merge_sources ord [] rcv merged = merged"
| "merge_sources ord (s # ss) rcv merged =
     (case fmlookup rcv s of
        None \<Rightarrow> merge_sources ord ss rcv merged
      | Some d \<Rightarrow>
          merge_sources ord ss rcv
            (add_missing (ord (fmdom (entries d))) (entries d) (fmupd s (any_of_map d) merged)))"

definition mergeJoinedData :: "(string fset \<Rightarrow> string list) \<Rightarrow> joinState \<Rightarrow> object" where
  "mergeJoinedData ord st =
     (let rcv = entries (received st) in merge_sources ord (ord (fmdom rcv)) rcv fmempty)"

subsection \<open>Writing the changelog\<close>

definition writeJoinState ::
    "services \<Rightarrow> string \<Rightarrow> string \<Rightarrow> joinState \<Rightarrow> trace \<Rightarrow> send_result \<times> trace" where
  "writeJoinState svc topic cid st tr =
     send_message svc
       \<lparr>pm_topic = topic, pm_key = cid, pm_value = Some (marshal_joinState st)\<rparr> tr"

definition tombstoneJoinState ::
    "services \<Rightarrow> string \<Rightarrow> string \<Rightarrow> trace \<Rightarrow> send_result \<times> trace" where
  "tombstoneJoinState svc topic cid tr =
     send_message svc \<lparr>pm_topic = topic, pm_key = cid, pm_value = None\<rparr> tr"

subsection \<open>Hydration\<close>

type_synonym joins = "(string, joinState) fmap"

text \<open>A record of the changelog as the consumer sees it: an absent value and an empty one are
  both tombstones, an unreadable one is skipped.\<close>

definition applyHydratedRecord :: "joins \<Rightarrow> string \<times> string option \<Rightarrow> joins" where
  "applyHydratedRecord js rec =
     (case snd rec of
        None \<Rightarrow> fmdrop (fst rec) js
      | Some v \<Rightarrow>
          if v = [] then fmdrop (fst rec) js
          else (case unmarshal_joinState v of
                  None \<Rightarrow> js
                | Some st \<Rightarrow> fmupd (fst rec) st js))"

definition replay :: "joins \<Rightarrow> (string \<times> string option) list \<Rightarrow> joins" where
  "replay js recs = fold (\<lambda>r js. applyHydratedRecord js r) recs js"

text \<open>
  What the \<open>select\<close> of \<open>hydratePartition\<close> receives, in order: the records the partition
  still holds, each with its offset, or the cancellation of the context. When no more comes
  and the newest offset has not been seen, the loop waits for ever.
\<close>

datatype hydration_input = Record int string "string option" | Cancelled string

text \<open>The errors, each around the text of the error it wraps.\<close>

datatype hydration_error =
    ConnectingToKafka string
  | CreatingHydrationConsumer string
  | ListingPartitions string
  | GettingNewestOffset string
  | ConsumingPartition string
  | ContextDone string

datatype 'a hydration = Hydrated 'a | HydrationFailed hydration_error | Waiting

fun hydrate_loop :: "int \<Rightarrow> joins \<Rightarrow> hydration_input list \<Rightarrow> joins hydration" where
  "hydrate_loop newest js [] = Waiting"
| "hydrate_loop newest js (Cancelled e # ins) = HydrationFailed (ContextDone e)"
| "hydrate_loop newest js (Record offset key val # ins) =
     (let js' = applyHydratedRecord js (key, val)
      in if offset + 1 \<ge> newest then Hydrated js' else hydrate_loop newest js' ins)"

text \<open>One partition as the client library presents it: the newest offset (or the error of
  asking for it), the error of starting to consume it, if any, and what then arrives.\<close>

record partition =
  newest_offset :: "string + int"
  consume_error :: "string option"
  inputs :: "hydration_input list"

definition hydratePartition :: "partition \<Rightarrow> joins \<Rightarrow> joins hydration" where
  "hydratePartition p js =
     (case newest_offset p of
        Inl e \<Rightarrow> HydrationFailed (GettingNewestOffset e)
      | Inr newest \<Rightarrow>
          if newest = 0 then Hydrated js
          else (case consume_error p of
                  Some e \<Rightarrow> HydrationFailed (ConsumingPartition e)
                | None \<Rightarrow> hydrate_loop newest js (inputs p)))"

fun hydrate_partitions :: "partition list \<Rightarrow> joins \<Rightarrow> joins hydration" where
  "hydrate_partitions [] js = Hydrated js"
| "hydrate_partitions (p # ps) js =
     (case hydratePartition p js of
        Hydrated js' \<Rightarrow> hydrate_partitions ps js'
      | HydrationFailed e \<Rightarrow> HydrationFailed e
      | Waiting \<Rightarrow> Waiting)"

text \<open>The client, the consumer and the list of partitions can each fail.\<close>

record kafka_view =
  client_error :: "string option"
  consumer_error :: "string option"
  partitions :: "string + partition list"

definition hydrateJoinState :: "kafka_view \<Rightarrow> string \<Rightarrow> joins hydration" where
  "hydrateJoinState kv topic =
     (if topic = [] then Hydrated fmempty
      else case client_error kv of
        Some e \<Rightarrow> HydrationFailed (ConnectingToKafka e)
      | None \<Rightarrow>
          (case consumer_error kv of
             Some e \<Rightarrow> HydrationFailed (CreatingHydrationConsumer e)
           | None \<Rightarrow>
               (case partitions kv of
                  Inl e \<Rightarrow> HydrationFailed (ListingPartitions e)
                | Inr ps \<Rightarrow> hydrate_partitions ps fmempty)))"

end
