(* ===== verification/Agent.thy ===== *)
theory Agent
  imports Mcp Join
begin

section \<open>The agent loop (cmd/runner/agent.go)\<close>

text \<open>
  The chat-completions messages with their JSON form, the LLM client (\<open>chat\<close>), the tool
  calls (\<open>toolSpecs\<close>, \<open>callToolForAgent\<close>), the loop (\<open>agentLoop\<close>) and what it makes
  of the final answer (\<open>extractJSONObject\<close>, \<open>mergeFinalAnswer\<close>). The struct
  \<open>agentHandler\<close> of handler.go, whose methods these are, comes first; its producer is the
  service of that name and its mutex has no state to model here.
\<close>

subsection \<open>Messages\<close>

record toolCallFunction =
  fn_name :: string
  fn_arguments :: string

record toolCall =
  tc_id :: string
  tc_type :: string
  tc_function :: toolCallFunction

record chatMessage =
  role :: string
  content :: string
  toolCalls :: "toolCall list"
  toolCallID :: string

record toolFunction =
  tf_name :: string
  tf_description :: string
  tf_parameters :: object

record toolSpec =
  ts_type :: string
  ts_function :: toolFunction

text \<open>A member that \<open>omitempty\<close> leaves out when its value is empty.\<close>

definition unless_empty :: "bool \<Rightarrow> string \<Rightarrow> string \<Rightarrow> (string \<times> string) list" where
  "unless_empty b name val = (if b then [] else [(name, val)])"

definition marshal_toolCall :: "toolCall \<Rightarrow> string" where
  "marshal_toolCall tc =
     enc_members
       [(''id'', enc_string (tc_id tc)), (''type'', enc_string (tc_type tc)),
        (''function'', enc_members
           [(''name'', enc_string (fn_name (tc_function tc))),
            (''arguments'', enc_string (fn_arguments (tc_function tc)))])]"

definition marshal_chatMessage :: "chatMessage \<Rightarrow> string" where
  "marshal_chatMessage m =
     enc_members
       ([(''role'', enc_string (role m))]
        @ unless_empty (content m = []) ''content'' (enc_string (content m))
        @ unless_empty (toolCalls m = []) ''tool_calls'' (enc_list (map marshal_toolCall (toolCalls m)))
        @ unless_empty (toolCallID m = []) ''tool_call_id'' (enc_string (toolCallID m)))"

definition marshal_toolSpec :: "toolSpec \<Rightarrow> string" where
  "marshal_toolSpec t =
     enc_members
       [(''type'', enc_string (ts_type t)),
        (''function'', enc_members
           ([(''name'', enc_string (tf_name (ts_function t)))]
            @ unless_empty (tf_description (ts_function t) = []) ''description''
                (enc_string (tf_description (ts_function t)))
            @ [(''parameters'', marshal (JObj (tf_parameters (ts_function t))))]))]"

definition marshal_chatRequest :: "string \<Rightarrow> chatMessage list \<Rightarrow> toolSpec list \<Rightarrow> string" where
  "marshal_chatRequest model messages ts =
     enc_members
       ([(''model'', enc_string model),
         (''messages'', enc_list (map marshal_chatMessage messages))]
        @ unless_empty (ts = []) ''tools'' (enc_list (map marshal_toolSpec ts)))"

subsection \<open>Responses\<close>

definition zero_toolCall :: toolCall where
  "zero_toolCall =
     \<lparr>tc_id = [], tc_type = [], tc_function = \<lparr>fn_name = [], fn_arguments = []\<rparr>\<rparr>"

definition zero_chatMessage :: chatMessage where
  "zero_chatMessage = \<lparr>role = [], content = [], toolCalls = [], toolCallID = []\<rparr>"

definition read_function_field ::
    "toolCallFunction \<Rightarrow> string \<Rightarrow> jast \<Rightarrow> toolCallFunction option" where
  "read_function_field f k a =
     (if field_named ''name'' k then
        map_option (\<lambda>s. f\<lparr>fn_name := s\<rparr>) (read_string (fn_name f) a)
      else if field_named ''arguments'' k then
        map_option (\<lambda>s. f\<lparr>fn_arguments := s\<rparr>) (read_string (fn_arguments f) a)
      else Some f)"

definition read_toolCall_field :: "toolCall \<Rightarrow> string \<Rightarrow> jast \<Rightarrow> toolCall option" where
  "read_toolCall_field t k a =
     (if field_named ''id'' k then
        map_option (\<lambda>s. t\<lparr>tc_id := s\<rparr>) (read_string (tc_id t) a)
      else if field_named ''type'' k then
        map_option (\<lambda>s. t\<lparr>tc_type := s\<rparr>) (read_string (tc_type t) a)
      else if field_named ''function'' k then
        map_option (\<lambda>f. t\<lparr>tc_function := f\<rparr>) (read_struct read_function_field (tc_function t) a)
      else Some t)"

definition read_chatMessage_field :: "chatMessage \<Rightarrow> string \<Rightarrow> jast \<Rightarrow> chatMessage option" where
  "read_chatMessage_field m k a =
     (if field_named ''role'' k then
        map_option (\<lambda>s. m\<lparr>role := s\<rparr>) (read_string (role m) a)
      else if field_named ''content'' k then
        map_option (\<lambda>s. m\<lparr>content := s\<rparr>) (read_string (content m) a)
      else if field_named ''tool_calls'' k then
        map_option (\<lambda>ts. m\<lparr>toolCalls := ts\<rparr>)
          (read_slice (read_struct read_toolCall_field) zero_toolCall (toolCalls m) a)
      else if field_named ''tool_call_id'' k then
        map_option (\<lambda>s. m\<lparr>toolCallID := s\<rparr>) (read_string (toolCallID m) a)
      else Some m)"

text \<open>A choice is a struct of one field, so it is its message; the error is a pointer.\<close>

record chatResponse =
  choices :: "chatMessage list"
  resp_error :: "string option"

definition read_choice_field :: "chatMessage \<Rightarrow> string \<Rightarrow> jast \<Rightarrow> chatMessage option" where
  "read_choice_field m k a =
     (if field_named ''message'' k then read_struct read_chatMessage_field m a else Some m)"

definition read_error_field :: "string \<Rightarrow> string \<Rightarrow> jast \<Rightarrow> string option" where
  "read_error_field e k a = (if field_named ''message'' k then read_string e a else Some e)"

definition read_error_pointer :: "string option \<Rightarrow> jast \<Rightarrow> string option option" where
  "read_error_pointer old a =
     (if a = ANull then Some None
      else map_option Some
        (read_struct read_error_field (case old of None \<Rightarrow> [] | Some e \<Rightarrow> e) a))"

definition read_chatResponse_field :: "chatResponse \<Rightarrow> string \<Rightarrow> jast \<Rightarrow> chatResponse option" where
  "read_chatResponse_field r k a =
     (if field_named ''choices'' k then
        map_option (\<lambda>cs. r\<lparr>choices := cs\<rparr>)
          (read_slice (read_struct read_choice_field) zero_chatMessage (choices r) a)
      else if field_named ''error'' k then
        map_option (\<lambda>e. r\<lparr>resp_error := e\<rparr>) (read_error_pointer (resp_error r) a)
      else Some r)"

definition unmarshal_chatResponse :: "string \<Rightarrow> chatResponse option" where
  "unmarshal_chatResponse s =
     (case parse s of
        None \<Rightarrow> None
      | Some a \<Rightarrow> read_struct read_chatResponse_field \<lparr>choices = [], resp_error = None\<rparr> a)"

subsection \<open>The LLM client\<close>

record llmClient =
  baseURL :: string
  model :: string
  apiKey :: string

definition newLLMClient :: "config \<Rightarrow> llmClient" where
  "newLLMClient cfg =
     \<lparr>baseURL = trim_right_byte (llmBaseURL cfg) CHR ''/'',
      model = llmModel cfg, apiKey = llmAPIKey cfg\<rparr>"

datatype chat_error =
    BadURL string
  | NoResponse string
  | ReadingResponse string
  | BadStatus string string
  | DecodingResponse string
  | EndpointError string
  | NoChoices

definition chat_http :: "llmClient \<Rightarrow> chatMessage list \<Rightarrow> toolSpec list \<Rightarrow> http_request" where
  "chat_http c messages ts =
     \<lparr>http_method = ''POST'', http_url = baseURL c @ ''/chat/completions'',
      http_headers = [(''Content-Type'', ''application/json'')]
        @ (if apiKey c \<noteq> [] then [(''Authorization'', ''Bearer '' @ apiKey c)] else []),
      http_body = marshal_chatRequest (model c) messages ts\<rparr>"

definition chat_reply :: "services \<Rightarrow> http_answer \<Rightarrow> chat_error + chatMessage" where
  "chat_reply svc a =
     (case a of
        Unreachable e \<Rightarrow> Inl (NoResponse e)
      | Unreadable e \<Rightarrow> Inl (ReadingResponse e)
      | Response code status body \<Rightarrow>
          if code \<noteq> 200 then Inl (BadStatus status body)
          else (case unmarshal_chatResponse body of
              None \<Rightarrow> Inl (DecodingResponse (json_error svc body))
            | Some parsed \<Rightarrow>
                (case resp_error parsed of
                   Some e \<Rightarrow> Inl (EndpointError e)
                 | None \<Rightarrow> (case choices parsed of [] \<Rightarrow> Inl NoChoices | m # _ \<Rightarrow> Inr m))))"

definition chat ::
    "services \<Rightarrow> llmClient \<Rightarrow> chatMessage list \<Rightarrow> toolSpec list \<Rightarrow> trace
     \<Rightarrow> (chat_error + chatMessage) \<times> trace" where
  "chat svc c messages ts tr =
     (let req = chat_http c messages ts in
      case bad_url svc (http_url req) of
        Some e \<Rightarrow> (Inl (BadURL e), tr)
      | None \<Rightarrow> (case post svc req tr of (a, tr') \<Rightarrow> (chat_reply svc a, tr')))"

subsection \<open>The handler and its tools\<close>

record agentHandler =
  cfg :: config
  tools :: "(string, toolBinding) fmap"
  llm :: "llmClient option"
  joins :: joins

definition tool_parameters :: "mcp_tool \<Rightarrow> object" where
  "tool_parameters t =
     fmap_of_list
       [(''type'', JStr ''object''),
        (''properties'', any_of_map (schema_properties t)),
        (''required'', case schema_required t of None \<Rightarrow> JNull | Some rs \<Rightarrow> JArr (map JStr rs))]"

fun specs_of :: "(string, toolBinding) fmap \<Rightarrow> string list \<Rightarrow> toolSpec list" where
  "specs_of m [] = []"
| "specs_of m (name # names) =
     (case fmlookup m name of
        None \<Rightarrow> specs_of m names
      | Some b \<Rightarrow>
          \<lparr>ts_type = ''function'',
           ts_function = \<lparr>tf_name = tool_name (binding_tool b),
                          tf_description = tool_description (binding_tool b),
                          tf_parameters = tool_parameters (binding_tool b)\<rparr>\<rparr> # specs_of m names)"

definition toolSpecs :: "agentHandler \<Rightarrow> toolSpec list" where
  "toolSpecs h = specs_of (tools h) (allowedTools (cfg h))"

definition quote_char :: string where
  "quote_char = [CHR 0x22]"

definition unavailable_result :: "string \<Rightarrow> string" where
  "unavailable_result name =
     ''{'' @ quote_char @ ''error'' @ quote_char @ '': '' @ quote_char @ ''tool '' @ quote_go name
     @ '' is not available'' @ quote_char @ ''}''"

definition invalid_arguments_result :: "string \<Rightarrow> string" where
  "invalid_arguments_result e =
     ''{'' @ quote_char @ ''error'' @ quote_char @ '': '' @ quote_char @ ''invalid arguments: '' @ e
     @ quote_char @ ''}''"

definition failed_call_result :: "string \<Rightarrow> string" where
  "failed_call_result e = ''{'' @ quote_char @ ''error'' @ quote_char @ '': '' @ quote_go e @ ''}''"

definition callToolForAgent :: "services \<Rightarrow> agentHandler \<Rightarrow> toolCall \<Rightarrow> trace \<Rightarrow> string \<times> trace" where
  "callToolForAgent svc h tc tr =
     (let name = fn_name (tc_function tc); text = fn_arguments (tc_function tc) in
      case fmlookup (tools h) name of
        None \<Rightarrow> (unavailable_result name, tr)
      | Some b \<Rightarrow>
          (case unmarshal_map text of
             None \<Rightarrow> (invalid_arguments_result (json_error svc text), tr)
           | Some args \<Rightarrow>
               (case call_tool svc (binding_client b) name args tr of
                  (ToolFailed e, tr') \<Rightarrow> (failed_call_result e, tr')
                | (ToolResult is_error cs, tr') \<Rightarrow> (marshal_map (parseToolResult is_error cs), tr'))))"

subsection \<open>The final answer\<close>

definition tryUnmarshalObject :: "string \<Rightarrow> goobject option" where
  "tryUnmarshalObject s = unmarshal_map (trim_space s)"

definition fenced_block :: "string \<Rightarrow> string option" where
  "fenced_block text =
     (case cut ''```'' text of
        None \<Rightarrow> None
      | Some (before, rest) \<Rightarrow>
          map_option fst (cut ''```'' (trim_prefix (trim_prefix rest ''json'') [CHR 0x0A])))"

definition braced_part :: "string \<Rightarrow> string option" where
  "braced_part text =
     (case index_byte text CHR ''{'' of
        None \<Rightarrow> None
      | Some start \<Rightarrow>
          (case last_index_byte text CHR ''}'' of
             None \<Rightarrow> None
           | Some stop \<Rightarrow> if stop > start then Some (slice text start (stop + 1)) else None))"

definition extractJSONObject :: "string \<Rightarrow> goobject option" where
  "extractJSONObject text =
     (case tryUnmarshalObject text of
        Some parsed \<Rightarrow> Some parsed
      | None \<Rightarrow>
          (case Option.bind (fenced_block text) tryUnmarshalObject of
             Some parsed \<Rightarrow> Some parsed
           | None \<Rightarrow> Option.bind (braced_part text) tryUnmarshalObject))"

definition mergeFinalAnswer :: "goobject \<Rightarrow> string \<Rightarrow> object" where
  "mergeFinalAnswer d text =
     (let out = entries d in
      case extractJSONObject text of
        Some parsed \<Rightarrow> out ++\<^sub>f entries parsed
      | None \<Rightarrow> if text \<noteq> [] then fmupd ''result'' (JStr text) out else out)"

subsection \<open>The loop\<close>

definition maxAgentTurns :: nat where
  "maxAgentTurns = 8"

definition systemPrompt :: "agentHandler \<Rightarrow> string" where
  "systemPrompt h =
     ''You are the '' @ quote_go (nodeName (cfg h))
     @ '' step in a Kafka-coordinated multi-agent pipeline. '' @ instructions (cfg h)
     @ [CHR 0x0A, CHR 0x0A]
     @ ''You will be given the task so far as a JSON object. Use your available tools as needed to ''
     @ ''complete your part of the task, but never call the same tool with the same arguments more ''
     @ ''than once - you already have its result. As soon as you have everything you need, stop ''
     @ ''calling tools and reply with your final answer: a single JSON object, and nothing else - no ''
     @ ''markdown code fences, no commentary before or after it. That final object is merged into the ''
     @ ''data handed to the next step(s) in the pipeline, so include every field you want them to see.''"

fun call_tools :: "services \<Rightarrow> agentHandler \<Rightarrow> toolCall list \<Rightarrow> trace \<Rightarrow> chatMessage list \<times> trace" where
  "call_tools svc h [] tr = ([], tr)"
| "call_tools svc h (tc # tcs) tr =
     (case callToolForAgent svc h tc tr of
        (out, tr1) \<Rightarrow>
          (case call_tools svc h tcs tr1 of
             (ms, tr2) \<Rightarrow>
               (\<lparr>role = ''tool'', content = out, toolCalls = [], toolCallID = tc_id tc\<rparr> # ms, tr2)))"

text \<open>The turns that are left, up to the cap. \<open>None\<close> is the code's \<open>nil, false\<close>.\<close>

fun agent_turns ::
    "nat \<Rightarrow> services \<Rightarrow> agentHandler \<Rightarrow> llmClient \<Rightarrow> goobject \<Rightarrow> chatMessage list \<Rightarrow> trace
     \<Rightarrow> object option \<times> trace" where
  "agent_turns 0 svc h c d messages tr = (None, tr)"
| "agent_turns (Suc n) svc h c d messages tr =
     (case chat svc c messages (toolSpecs h) tr of
        (Inl e, tr1) \<Rightarrow> (None, tr1)
      | (Inr reply, tr1) \<Rightarrow>
          if toolCalls reply = [] then (Some (mergeFinalAnswer d (content reply)), tr1)
          else (case call_tools svc h (toolCalls reply) tr1 of
              (results, tr2) \<Rightarrow> agent_turns n svc h c d (messages @ reply # results) tr2))"

definition agentLoop :: "services \<Rightarrow> agentHandler \<Rightarrow> goobject \<Rightarrow> trace \<Rightarrow> object option \<times> trace" where
  "agentLoop svc h d tr =
     (case llm h of
        None \<Rightarrow> (None, tr)
      | Some c \<Rightarrow>
          agent_turns maxAgentTurns svc h c d
            [\<lparr>role = ''system'', content = systemPrompt h, toolCalls = [], toolCallID = []\<rparr>,
             \<lparr>role = ''user'', content = marshal_map d, toolCalls = [], toolCallID = []\<rparr>]
            tr)"

end
