(* ===== verification/AgentLaws.thy ===== *)
theory AgentLaws
  imports Agent
begin

section \<open>What the agent loop does to the trace, and what it finds in an answer\<close>

text \<open>
  The loop only posts to the LLM and calls tools (\<open>agentLoop_adds\<close>), posts at most once per
  turn (\<open>agentLoop_posts\<close>), and a result is the last reply merged into the data
  (\<open>agentLoop_result\<close>). \<open>unmarshal_map_head\<close>, \<open>braced_part_found\<close> and
  \<open>fenced_block_found\<close> serve the three ways \<open>extractJSONObject\<close> finds an object.
\<close>

subsection \<open>Events\<close>

fun is_posted :: "event \<Rightarrow> bool" where
  "is_posted (Posted r a) = True"
| "is_posted _ = False"

fun is_called :: "event \<Rightarrow> bool" where
  "is_called (Called c n args a) = True"
| "is_called _ = False"

definition asked :: "event \<Rightarrow> bool" where
  "asked e \<longleftrightarrow> is_posted e \<or> is_called e"

lemma asked_not: "asked e \<Longrightarrow> not_sent e \<and> not_marked e"
  by (cases e) (auto simp: asked_def)

definition posts :: "trace \<Rightarrow> nat" where
  "posts tr = length (filter is_posted tr)"

lemma posts_append [simp]: "posts (a @ b) = posts a + posts b" "posts [] = 0"
  by (simp_all add: posts_def)

lemma posts_none: "list_all is_called es \<Longrightarrow> posts es = 0"
  by (induction es) (auto simp: posts_def elim: is_called.elims)

lemma callToolForAgent_adds: "callToolForAgent svc h tc tr = (out, tr') \<Longrightarrow> adds is_called tr tr'"
  by (auto simp: callToolForAgent_def call_tool_def Let_def adds_def
      split: option.splits prod.splits tool_answer.splits)

lemma call_tools_adds: "call_tools svc h tcs tr = (ms, tr') \<Longrightarrow> adds is_called tr tr'"
proof (induction tcs arbitrary: tr ms)
  case (Cons tc tcs)
  then show ?case
    by (auto split: prod.splits intro: adds_trans[OF callToolForAgent_adds])
qed simp

lemma chat_trace:
  "chat svc c messages ts tr = (r, tr') \<Longrightarrow>
     (tr' = tr \<and> (\<exists>e. r = Inl e)) \<or> (\<exists>req a. tr' = tr @ [Posted req a] \<and> r = chat_reply svc a)"
  by (auto simp: chat_def post_def Let_def split: option.splits)

lemma chat_reply_ok:
  "chat_reply svc a = Inr m \<Longrightarrow> \<exists>status body parsed ms.
     a = Response 200 status body \<and> unmarshal_chatResponse body = Some parsed
     \<and> resp_error parsed = None \<and> choices parsed = m # ms"
  by (auto simp: chat_reply_def split: http_answer.splits if_splits option.splits list.splits)

lemma agent_turns_adds:
  "agent_turns n svc h c d messages tr = (r, tr') \<Longrightarrow>
     \<exists>es. tr' = tr @ es \<and> list_all asked es \<and> posts es \<le> n"
proof (induction n arbitrary: messages tr)
  case (Suc n)
  obtain x tr1 where c: "chat svc c messages (toolSpecs h) tr = (x, tr1)" by fastforce
  from chat_trace[OF this] obtain e1 where e1: "tr1 = tr @ e1" "list_all asked e1" "posts e1 \<le> 1"
    by (auto simp: asked_def posts_def)
  show ?case
  proof (cases "\<exists>reply. x = Inr reply \<and> toolCalls reply \<noteq> []")
    case False
    with Suc.prems c have "tr' = tr1" by (auto split: sum.splits if_splits)
    with e1 show ?thesis by auto
  next
    case True
    then obtain reply where x: "x = Inr reply" "toolCalls reply \<noteq> []" by blast
    obtain ms tr2 where t: "call_tools svc h (toolCalls reply) tr1 = (ms, tr2)" by fastforce
    from call_tools_adds[OF t] obtain e2 where e2: "tr2 = tr1 @ e2" "list_all is_called e2"
      by (auto simp: adds_def)
    have "agent_turns n svc h c d (messages @ reply # ms) tr2 = (r, tr')"
      using Suc.prems c x t by simp
    from Suc.IH[OF this] obtain e3 where e3: "tr' = tr2 @ e3" "list_all asked e3" "posts e3 \<le> n"
      by blast
    have "list_all asked e2" using e2(2) by (auto simp: list_all_iff asked_def)
    then show ?thesis
      using e1 e2 e3 posts_none[OF e2(2)] by (intro exI[of _ "e1 @ e2 @ e3"]) auto
  qed
qed simp

lemma agentLoop_posts:
  "agentLoop svc h d tr = (r, tr') \<Longrightarrow>
     \<exists>es. tr' = tr @ es \<and> list_all asked es \<and> posts es \<le> maxAgentTurns"
  by (auto simp: agentLoop_def split: option.splits dest: agent_turns_adds)

lemma agentLoop_adds: "agentLoop svc h d tr = (r, tr') \<Longrightarrow> adds asked tr tr'"
  using agentLoop_posts by (fastforce simp: adds_def)

lemma agentLoop_records: "agentLoop svc h d tr = (r, tr') \<Longrightarrow> topic_records t tr' = topic_records t tr"
  by (rule adds_records[OF agentLoop_adds]) (auto dest: asked_not not_sent_records)

text \<open>A result comes from the last event: a reply without tool calls.\<close>

definition final_reply :: "event \<Rightarrow> chatMessage \<Rightarrow> bool" where
  "final_reply e m \<longleftrightarrow>
     (\<exists>req status body parsed ms. e = Posted req (Response 200 status body)
        \<and> unmarshal_chatResponse body = Some parsed \<and> resp_error parsed = None
        \<and> choices parsed = m # ms \<and> toolCalls m = [])"

lemma agent_turns_result:
  "agent_turns n svc h c d messages tr = (Some out, tr') \<Longrightarrow>
     \<exists>m. tr' \<noteq> [] \<and> final_reply (last tr') m \<and> out = mergeFinalAnswer d (content m)"
proof (induction n arbitrary: messages tr)
  case (Suc n)
  obtain x tr1 where c: "chat svc c messages (toolSpecs h) tr = (x, tr1)" by fastforce
  show ?case
  proof (cases x)
    case (Inr reply)
    from chat_trace[OF c] Inr obtain req a
      where a: "tr1 = tr @ [Posted req a]" "chat_reply svc a = Inr reply" by auto
    show ?thesis
    proof (cases "toolCalls reply = []")
      case True
      with Suc.prems c Inr have o: "out = mergeFinalAnswer d (content reply)" "tr' = tr1" by auto
      from chat_reply_ok[OF a(2)] have "final_reply (Posted req a) reply"
        using True unfolding final_reply_def by blast
      with o a(1) show ?thesis by auto
    next
      case False
      obtain ms tr2 where t: "call_tools svc h (toolCalls reply) tr1 = (ms, tr2)" by fastforce
      with False Suc.prems c Inr
      have "agent_turns n svc h c d (messages @ reply # ms) tr2 = (Some out, tr')" by simp
      then show ?thesis by (rule Suc.IH)
    qed
  qed (use Suc.prems c in simp)
qed simp

lemma agentLoop_result:
  "agentLoop svc h d tr = (Some out, tr') \<Longrightarrow>
     \<exists>m. tr' \<noteq> [] \<and> final_reply (last tr') m \<and> out = mergeFinalAnswer d (content m)"
  by (fastforce simp: agentLoop_def split: option.splits dest: agent_turns_result)

lemma mergeFinalAnswer_dom: "fmdom (entries d) |\<subseteq>| fmdom (mergeFinalAnswer d text)"
  by (auto simp: mergeFinalAnswer_def Let_def split: option.splits)

subsection \<open>Finding an object in an answer\<close>

text \<open>Only a text that starts with a brace or an n is an object or null.\<close>

lemma unmarshal_map_head:
  assumes "unmarshal_map s = Some d"
  shows "\<exists>c cs. skip_ws s = c # cs \<and> (c = CHR ''{'' \<or> c = CHR ''n'')"
proof -
  from assms obtain a r where a: "scan_value (scan_fuel s) (skip_ws s) = Some (a, r)" "read_map None a = Some d"
    by (auto simp: unmarshal_map_def parse_def split: option.splits if_splits prod.splits)
  have n: "scan_fuel s = Suc (2 * length s + 1)" by (simp add: scan_fuel_def)
  show ?thesis
  proof (cases "skip_ws s")
    case Nil
    with a(1) show ?thesis by (simp add: n)
  next
    case (Cons c cs)
    have "c = CHR ''{'' \<or> c = CHR ''n''"
      using a
      by (auto simp: n Cons read_map_def scan_word_def
          split: option.splits prod.splits if_splits list.splits jast.splits)
    with Cons show ?thesis by blast
  qed
qed

lemma index_byte_found: "c \<notin> set s \<Longrightarrow> index_byte (s @ c # t) c = Some (length s)"
  by (induction s) auto

lemma last_index_byte_none: "c \<notin> set s \<Longrightarrow> last_index_byte s c = None"
  by (induction s) auto

lemma last_index_byte_found: "c \<notin> set t \<Longrightarrow> last_index_byte (s @ c # t) c = Some (length s)"
  by (induction s) (auto simp: last_index_byte_none)

lemma cut_none:
  assumes "c \<notin> set s"
  shows "cut (c # sep) s = None"
  using assms by (induction s) auto

lemma object_text: "\<exists>body. marshal (JObj o') = CHR ''{'' # body @ ''}''"
  by (simp add: enc_members_def)

lemma marshal_trim: "trim_space (marshal (JObj o')) = marshal (JObj o')"
proof -
  obtain body where "marshal (JObj o') = CHR ''{'' # body @ ''}''" using object_text by blast
  then show ?thesis
    by (intro trim_space_graphic)
      (simp add: graphic_byte_def printable_byte_def ascii_byte_def control_byte_def)
qed

lemma tryUnmarshal_object: "wf_object o' \<Longrightarrow> tryUnmarshalObject (marshal (JObj o')) = Some (Some o')"
  using unmarshal_marshal_map[of "Some o'"]
  by (simp add: tryUnmarshalObject_def marshal_trim marshal_map_def any_of_map_def del: marshal.simps)

lemma braced_part_found:
  assumes "CHR ''{'' \<notin> set pre" "CHR ''}'' \<notin> set suf"
  shows "braced_part (pre @ marshal (JObj o') @ suf) = Some (marshal (JObj o'))"
proof -
  obtain body where m: "marshal (JObj o') = CHR ''{'' # body @ ''}''" using object_text by blast
  have "index_byte (pre @ marshal (JObj o') @ suf) CHR ''{'' = Some (length pre)"
    using index_byte_found[OF assms(1), of "body @ ''}'' @ suf"] unfolding m by simp
  moreover have "last_index_byte (pre @ marshal (JObj o') @ suf) CHR ''}'' = Some (length pre + 1 + length body)"
    using last_index_byte_found[OF assms(2), of "pre @ CHR ''{'' # body"] unfolding m by simp
  ultimately show ?thesis
    unfolding m by (simp add: braced_part_def slice_def)
qed

text \<open>Prose: it starts with a visible ASCII character, which is neither a brace nor an n.\<close>

definition prose_head :: "char \<Rightarrow> bool" where
  "prose_head c \<longleftrightarrow> graphic_byte c \<and> c \<noteq> CHR ''{'' \<and> c \<noteq> CHR ''n''"

lemma trim_space_prefix:
  assumes "graphic_byte c"
  shows "\<exists>junk. c # s = trim_space (c # s) @ junk"
proof -
  have l: "strip space_runes (c # s) = c # s"
    using assms space_runes_heads by (intro strip_noop) (auto dest!: graphic_not_space)
  obtain p where "rev (c # s) = p @ strip (map rev space_runes) (rev (c # s))"
    using strip_suffix by blast
  then have "c # s = trim_space (c # s) @ rev p"
    unfolding trim_space_def l by (metis rev_append rev_rev_ident)
  then show ?thesis by blast
qed

lemma tryUnmarshal_prose: "prose_head c \<Longrightarrow> tryUnmarshalObject (c # s) = None"
proof (rule ccontr)
  assume p: "prose_head c" and t: "tryUnmarshalObject (c # s) \<noteq> None"
  obtain junk where j: "c # s = trim_space (c # s) @ junk"
    using trim_space_prefix p by (metis prose_head_def)
  from t obtain d where "unmarshal_map (trim_space (c # s)) = Some d"
    by (auto simp: tryUnmarshalObject_def)
  from unmarshal_map_head[OF this] obtain e cs where h: "skip_ws (trim_space (c # s)) = e # cs" "e = CHR ''{'' \<or> e = CHR ''n''"
    by blast
  have "\<not> json_space c"
    using p graphic_not_space[of c] by (auto simp only: prose_head_def json_space_def space_bytes_def)
  moreover from h obtain f fs where f: "trim_space (c # s) = f # fs"
    by (cases "trim_space (c # s)") auto
  with j have "f = c" by simp
  ultimately have "e = c" using h f by (simp add: skip_ws_head)
  with h p show False by (simp add: prose_head_def)
qed

lemma trim_space_newline: "trim_space (marshal (JObj o') @ [CHR 0x0A]) = marshal (JObj o')"
proof -
  obtain body where m: "marshal (JObj o') = CHR ''{'' # body @ ''}''" using object_text by blast
  have g: "graphic_byte CHR ''{''" "graphic_byte CHR ''}''"
    by (simp_all add: graphic_byte_def printable_byte_def ascii_byte_def control_byte_def)
  have l: "strip space_runes (CHR ''{'' # t) = CHR ''{'' # t" for t
    using g(1) space_runes_heads by (intro strip_noop) (auto dest!: graphic_not_space)
  have r: "strip (map rev space_runes) (CHR ''}'' # t) = CHR ''}'' # t" for t
    using g(2) space_runes_heads by (intro strip_noop) (auto dest!: graphic_not_space simp: hd_rev)
  have "leading (map rev space_runes) (CHR 0x0A # t) = Some [CHR 0x0A]" for t
    by (simp add: leading_def space_runes_def has_prefix_def)
  then have n: "strip (map rev space_runes) (CHR 0x0A # t) = strip (map rev space_runes) t" for t
    by (simp add: strip.simps[of _ "CHR 0x0A # t"])
  show ?thesis unfolding m trim_space_def by (simp add: l n r)
qed

lemma cut_found: "c \<notin> set s \<Longrightarrow> cut (c # sep) (s @ c # sep @ t) = Some (s, t)"
  by (induction s) auto

definition fence :: string where
  "fence = ''```''"

definition fenced :: "object \<Rightarrow> string" where
  "fenced o' = fence @ ''json'' @ [CHR 0x0A] @ marshal (JObj o') @ [CHR 0x0A] @ fence"

lemma fenced_block_found:
  assumes "CHR ''`'' \<notin> set pre" "CHR ''`'' \<notin> set (marshal (JObj o'))"
  shows "fenced_block (pre @ fenced o' @ suf) = Some (marshal (JObj o') @ [CHR 0x0A])"
proof -
  have a: "cut ''```'' (pre @ fenced o' @ suf)
      = Some (pre, ''json'' @ [CHR 0x0A] @ marshal (JObj o') @ [CHR 0x0A] @ fence @ suf)"
    using cut_found[OF assms(1), of "''``''" "''json'' @ [CHR 0x0A] @ marshal (JObj o') @ [CHR 0x0A] @ fence @ suf"]
    by (simp add: fenced_def fence_def del: marshal.simps)
  have b: "cut ''```'' ((marshal (JObj o') @ [CHR 0x0A]) @ fence @ suf)
      = Some (marshal (JObj o') @ [CHR 0x0A], suf)"
    using cut_found[of "CHR ''`''" "marshal (JObj o') @ [CHR 0x0A]" "''``''" suf] assms(2)
    by (simp add: fence_def del: marshal.simps)
  have j: "trim_prefix (''json'' @ t) ''json'' = t" "trim_prefix ([CHR 0x0A] @ t) [CHR 0x0A] = t" for t
    by (simp_all add: trim_prefix_def has_prefix_def)
  show ?thesis
    unfolding fenced_block_def a option.case prod.case j append.simps(1)
    using b by (simp add: j del: marshal.simps)
qed

end
