(* ===== verification/ClaimsServer.thy ===== *)
theory ClaimsServer
  imports AgentLaws
begin

section \<open>The tool server of the example (examples/claims-processing/mcp-server/main.go)\<close>

text \<open>
  The six tools the example server adds, with the options each is declared with and its handler,
  a function of the arguments of the call. Five handlers answer with a fixed text; the sixth
  formats two arguments with \<open>%v\<close> (\<open>format_v\<close>). How \<open>%v\<close> writes a number is an
  argument, \<open>num\<close>, a function of its JSON literal. The server itself and its protocol are the
  library's: \<open>serves\<close> says what it does with a call.
\<close>

subsection \<open>Formatting\<close>

text \<open>\<open>fmt.Sprintf("%v", x)\<close> of a decoded JSON value: maps are printed with sorted keys.\<close>

primrec format_v :: "(string \<Rightarrow> string) \<Rightarrow> json \<Rightarrow> string" where
  "format_v num JNull = ''<nil>''"
| "format_v num (JBool b) = (if b then ''true'' else ''false'')"
| "format_v num (JNum lit) = num lit"
| "format_v num (JStr s) = s"
| "format_v num (JArr vs) = ''['' @ join_sep '' '' (map (format_v num) vs) @ '']''"
| "format_v num (JObj m) =
     ''map['' @ join_sep '' '' (map (\<lambda>(k, v). k @ '':'' @ v)
        (sorted_list_of_fmap (fmmap (format_v num) m))) @ '']''"

text \<open>\<open>args[key]\<close>: nil when the key is absent.\<close>

definition argument :: "goobject \<Rightarrow> string \<Rightarrow> json" where
  "argument args key = (case fmlookup (entries args) key of None \<Rightarrow> JNull | Some v \<Rightarrow> v)"

subsection \<open>The tools\<close>

datatype param_type = StringParam | NumberParam

record tool_param =
  param_type :: param_type
  param_name :: string
  param_required :: bool
  param_description :: string

record server_tool =
  st_name :: string
  st_description :: string
  st_params :: "tool_param list"
  st_handler :: "goobject \<Rightarrow> string"

definition quoted :: "string \<Rightarrow> string" where
  "quoted s = [CHR 0x22] @ s @ [CHR 0x22]"

definition parse_claim_json :: server_tool where
  "parse_claim_json =
     \<lparr>st_name = ''parse_claim_json'', st_description = ''Parse raw claim JSON payload'',
      st_params = [\<lparr>param_type = StringParam, param_name = ''raw_json'', param_required = False,
        param_description = ''Raw JSON input, if available''\<rparr>],
      st_handler = (\<lambda>args. ''{'' @ quoted ''status'' @ '': '' @ quoted ''parsed'' @ '', ''
        @ quoted ''claim_id'' @ '': '' @ quoted ''CLM-9901'' @ '', ''
        @ quoted ''policy_id'' @ '': '' @ quoted ''POL-441'' @ ''}'')\<rparr>"

definition policy_param :: tool_param where
  "policy_param =
     \<lparr>param_type = StringParam, param_name = ''policy_id'', param_required = True,
      param_description = ''Target Policy ID''\<rparr>"

definition query_fraud_database :: server_tool where
  "query_fraud_database =
     \<lparr>st_name = ''query_fraud_database'', st_description = ''Check fraud DB for policy history'',
      st_params = [policy_param],
      st_handler = (\<lambda>args. ''{'' @ quoted ''previous_claims'' @ '': 0, ''
        @ quoted ''flagged'' @ '': false}'')\<rparr>"

definition calculate_risk_score :: server_tool where
  "calculate_risk_score =
     \<lparr>st_name = ''calculate_risk_score'', st_description = ''Calculate risk score based on claim amount'',
      st_params = [\<lparr>param_type = NumberParam, param_name = ''amount'', param_required = True,
        param_description = ''Claim dollar amount''\<rparr>],
      st_handler = (\<lambda>args. ''{'' @ quoted ''risk_score'' @ '': 0.12, ''
        @ quoted ''rating'' @ '': '' @ quoted ''LOW'' @ '', ''
        @ quoted ''fraud_status'' @ '': '' @ quoted ''LOW'' @ ''}'')\<rparr>"

definition get_policy_coverage :: server_tool where
  "get_policy_coverage =
     \<lparr>st_name = ''get_policy_coverage'', st_description = ''Check policy limit and endorsements'',
      st_params = [policy_param],
      st_handler = (\<lambda>args. ''{'' @ quoted ''active'' @ '': true, ''
        @ quoted ''max_coverage'' @ '': 50000, ''
        @ quoted ''coverage_status'' @ '': '' @ quoted ''ACTIVE'' @ ''}'')\<rparr>"

definition get_deductible_balance :: server_tool where
  "get_deductible_balance =
     \<lparr>st_name = ''get_deductible_balance'', st_description = ''Fetch remaining deductible amount'',
      st_params = [policy_param],
      st_handler = (\<lambda>args. ''{'' @ quoted ''deductible_remaining'' @ '': 500}'')\<rparr>"

definition summary_text :: "string \<Rightarrow> string \<Rightarrow> string" where
  "summary_text fraud coverage =
     ''{'' @ quoted ''decision'' @ '': '' @ quoted ''APPROVED'' @ '', ''
     @ quoted ''fraud_status'' @ '': '' @ quoted fraud @ '', ''
     @ quoted ''coverage_status'' @ '': '' @ quoted coverage @ ''}''"

definition synthesize_claim_summary :: "(string \<Rightarrow> string) \<Rightarrow> server_tool" where
  "synthesize_claim_summary num =
     \<lparr>st_name = ''synthesize_claim_summary'', st_description = ''Synthesize fraud and coverage results'',
      st_params =
        [\<lparr>param_type = StringParam, param_name = ''fraud_status'', param_required = True,
          param_description = ''Status from fraud check''\<rparr>,
         \<lparr>param_type = StringParam, param_name = ''coverage_status'', param_required = True,
          param_description = ''Status from coverage check''\<rparr>],
      st_handler = (\<lambda>args. summary_text (format_v num (argument args ''fraud_status''))
        (format_v num (argument args ''coverage_status'')))\<rparr>"

definition claims_tools :: "(string \<Rightarrow> string) \<Rightarrow> server_tool list" where
  "claims_tools num =
     [parse_claim_json, query_fraud_database, calculate_risk_score, get_policy_coverage,
      get_deductible_balance, synthesize_claim_summary num]"

subsection \<open>The server\<close>

text \<open>The server as \<open>main\<close> sets it up: \<open>NewMCPServer\<close> with its one option, the tools, the base URL
  its SSE transport announces, and the address it listens on.\<close>

record mcp_server =
  server_name :: string
  server_version :: string
  tool_capabilities :: bool
  server_tools :: "server_tool list"
  base_url :: string
  listen_address :: string

definition claims_server :: "(string \<Rightarrow> string) \<Rightarrow> mcp_server" where
  "claims_server num =
     \<lparr>server_name = ''ClaimsToolServer'', server_version = ''1.0.0'', tool_capabilities = True,
      server_tools = claims_tools num, base_url = ''http://mcp-claims-server:8000'',
      listen_address = '':8000''\<rparr>"

text \<open>What the library does with the tools: a call of a tool that was added runs its handler, and the
  handler's text is the one content of a result that is no error.\<close>

definition serves :: "(string \<Rightarrow> string) \<Rightarrow> services \<Rightarrow> mcp_client \<Rightarrow> bool" where
  "serves num svc client \<longleftrightarrow>
     (\<forall>t \<in> set (server_tools (claims_server num)). \<forall>tr args.
        answer_tool svc tr client (st_name t) args = ToolResult False [TextContent (st_handler t args)])"

text \<open>It lists every tool it was given, under its name.\<close>

definition lists_tools :: "(string \<Rightarrow> string) \<Rightarrow> endpoint_view \<Rightarrow> bool" where
  "lists_tools num v \<longleftrightarrow>
     create_error v = None \<and> start_error v = None \<and> initialize_error v = None
     \<and> (\<exists>ts. listed_tools v = Inr ts \<and> map tool_name ts = map st_name (server_tools (claims_server num)))"

lemma server_facts [simp]:
  "server_tools (claims_server num) = claims_tools num"
  "base_url (claims_server num) = ''http://mcp-claims-server:8000''"
  by (simp_all add: claims_server_def)

subsection \<open>The texts are objects\<close>

definition plain_text :: "string \<Rightarrow> bool" where
  "plain_text s \<longleftrightarrow> (\<forall>c \<in> set s. c \<noteq> CHR 0x22 \<and> c \<noteq> CHR 0x5C \<and> \<not> control_byte c)"

lemma scan_text: "plain_text p \<Longrightarrow> scan_string (p @ CHR 0x22 # r) = Some (p, r)"
  by (induction p) (simp_all add: plain_text_def scan_plain)

lemma skip_ws_simps:
  "skip_ws (CHR '' '' # s) = skip_ws s" "skip_ws (CHR 0x22 # s) = CHR 0x22 # s"
  "skip_ws (CHR '':'' # s) = CHR '':'' # s" "skip_ws (CHR '','' # s) = CHR '','' # s"
  "skip_ws (CHR ''}'' # s) = CHR ''}'' # s" "skip_ws (CHR ''{'' # s) = CHR ''{'' # s" "skip_ws [] = []"
  by (simp_all add: skip_ws_def json_space_def)

text \<open>One member of an object in the style of the handlers, and the rest of the object.\<close>

lemma scan_text_member:
  assumes "plain_text k" "plain_text v"
  shows "scan_members (Suc (Suc n)) (quoted k @ '': '' @ quoted v @ '', '' @ quoted k2 @ rest) =
      map_option (\<lambda>(kvs, r). ((to_valid k, AStr (to_valid v)) # kvs, r)) (scan_members (Suc n) (quoted k2 @ rest))"
    "scan_members (Suc (Suc n)) (quoted k @ '': '' @ quoted v @ ''}'' @ rest) =
      Some ([(to_valid k, AStr (to_valid v))], rest)"
  using scan_text[OF assms(1)] scan_text[OF assms(2)]
  by (simp_all add: quoted_def skip_ws_simps split: option.split)

lemma scan_object:
  "scan_members n (CHR 0x22 # cs) = Some (kvs, r)
     \<Longrightarrow> scan_value (Suc n) (CHR ''{'' # CHR 0x22 # cs) = Some (AObj kvs, r)"
  by (simp add: skip_ws_simps)

lemma parse_summary:
  assumes "plain_text s" "plain_text t"
  shows "parse (summary_text s t) = Some (AObj
    [(''decision'', AStr ''APPROVED''), (''fraud_status'', AStr (to_valid s)),
     (''coverage_status'', AStr (to_valid t))])"
proof -
  have p: "plain_text ''decision''" "plain_text ''APPROVED''" "plain_text ''fraud_status''"
    "plain_text ''coverage_status''" by code_simp+
  have v: "to_valid ''decision'' = ''decision''" "to_valid ''APPROVED'' = ''APPROVED''"
    "to_valid ''fraud_status'' = ''fraud_status''" "to_valid ''coverage_status'' = ''coverage_status''"
    by code_simp+
  let ?body = "quoted ''decision'' @ '': '' @ quoted ''APPROVED'' @ '', ''
     @ quoted ''fraud_status'' @ '': '' @ quoted s @ '', ''
     @ quoted ''coverage_status'' @ '': '' @ quoted t @ ''}'' @ []"
  have tx: "summary_text s t = CHR ''{'' # ?body" by (simp add: summary_text_def)
  have "\<exists>n. scan_fuel (summary_text s t) = Suc (Suc (Suc (Suc (Suc n))))"
    by (simp add: scan_fuel_def tx quoted_def)
  then obtain n where n: "scan_fuel (summary_text s t) = Suc (Suc (Suc (Suc (Suc n))))" ..
  have members: "scan_members (Suc (Suc (Suc (Suc n)))) ?body = Some
    ([(''decision'', AStr ''APPROVED''), (''fraud_status'', AStr (to_valid s)),
      (''coverage_status'', AStr (to_valid t))], [])"
    unfolding scan_text_member(1)[OF p(1,2)] scan_text_member(1)[OF p(3) assms(1)]
      scan_text_member(2)[OF p(4) assms(2)] by (simp add: v)
  have b: "quoted k @ z = CHR 0x22 # k @ CHR 0x22 # z" for k z by (simp add: quoted_def)
  have "scan_value (Suc (Suc (Suc (Suc (Suc n))))) (CHR ''{'' # ?body)
      = Some (AObj [(''decision'', AStr ''APPROVED''), (''fraud_status'', AStr (to_valid s)),
          (''coverage_status'', AStr (to_valid t))], [])"
    using scan_object[OF members[unfolded b]] unfolding b .
  then show ?thesis
    unfolding parse_def n unfolding tx skip_ws_simps by (simp only: option.case prod.case skip_ws_simps simp_thms if_True)
qed

end
