(* ===== verification/Controller.thy ===== *)
theory Controller
  imports GoStrings "HOL-Library.Finite_Map" "HOL-Library.Word"
begin

section \<open>The operator (api/v1alpha1/agentswarm_types.go, internal/controller)\<close>

text \<open>
  The custom resource and the reconciler that turns it into topics and Deployments. Kafka and
  the Kubernetes API are not code of the repository: they are a \<open>platform\<close>, a record of
  the calls the reconciler makes, over a world \<open>'w\<close> each call may change. Not modelled: the
  metadata and status fields of the resource that no code reads, the log lines, the
  registration of the types and of the controller with the manager.
\<close>

subsection \<open>The resource\<close>

type_synonym NodeType = string

definition NodeTypeWorker :: NodeType where "NodeTypeWorker = ''Worker''"
definition NodeTypeHITL :: NodeType where "NodeTypeHITL = ''HumanInTheLoop''"

record MCPEndpoint =
  ep_Name :: string
  ep_URL :: string

record secretKeySelector =
  secret_Name :: string
  secret_Key :: string

record LLMConfig =
  llm_BaseURL :: string
  llm_Model :: string
  llm_APIKeySecretRef :: "secretKeySelector option"

text \<open>
  What a manifest gives for \<open>llm\<close>, and what the reconciler reads: the API server fills in the
  defaults of the markers where the object is there and the member is not, and nothing below an
  object that is not there, which Go decodes to the zero value.
\<close>

record llm_manifest =
  given_BaseURL :: "string option"
  given_Model :: "string option"
  given_APIKeySecretRef :: "secretKeySelector option"

definition defaulted_llm :: "llm_manifest option \<Rightarrow> LLMConfig" where
  "defaulted_llm m =
     (case m of
        None \<Rightarrow> \<lparr>llm_BaseURL = [], llm_Model = [], llm_APIKeySecretRef = None\<rparr>
      | Some g \<Rightarrow>
          \<lparr>llm_BaseURL = (case given_BaseURL g of None \<Rightarrow> ''http://localhost:11434/v1'' | Some u \<Rightarrow> u),
           llm_Model = (case given_Model g of None \<Rightarrow> ''llama3.1'' | Some x \<Rightarrow> x),
           llm_APIKeySecretRef = given_APIKeySecretRef g\<rparr>)"

record AgentNode =
  node_Name :: string
  node_Type :: NodeType
  node_Image :: string
  node_Instructions :: string
  node_DependsOn :: "string list"
  node_Replicas :: "32 word"
  node_MCPServices :: "MCPEndpoint list"
  node_AllowedTools :: "string list"
  node_LLM :: LLMConfig

record KafkaConfig =
  kafka_Brokers :: "string list"

record AgentSwarmSpec =
  spec_Kafka :: KafkaConfig
  spec_Nodes :: "AgentNode list"

record AgentSwarm =
  swarm_Name :: string
  swarm_Namespace :: string
  swarm_Spec :: AgentSwarmSpec

subsection \<open>Deployments\<close>

datatype env_source = EnvValue string | EnvSecret secretKeySelector

record env_var =
  env_name :: string
  env_from :: env_source

record pod_container =
  container_name :: string
  container_image :: string
  container_env :: "env_var list"

record pod_template =
  template_labels :: "(string, string) fmap"
  template_containers :: "pod_container list"

text \<open>A Deployment as far as the reconciler sets it; \<open>dep_owner\<close> is the controller reference.\<close>

record deployment =
  dep_name :: string
  dep_namespace :: string
  dep_owner :: "string option"
  dep_replicas :: "32 word"
  dep_selector :: "(string, string) fmap"
  dep_template :: pod_template

definition encodeMCPEndpoints :: "MCPEndpoint list \<Rightarrow> string" where
  "encodeMCPEndpoints eps = join_sep '','' (map (\<lambda>ep. ep_Name ep @ ''='' @ ep_URL ep) eps)"

definition desired_replicas :: "AgentNode \<Rightarrow> 32 word" where
  "desired_replicas node = (if node_Replicas node = 0 then 1 else node_Replicas node)"

definition deployment_env ::
    "AgentSwarm \<Rightarrow> AgentNode \<Rightarrow> string \<Rightarrow> string list \<Rightarrow> string \<Rightarrow> env_var list" where
  "deployment_env swarm node inputTopic outputTopics joinStateTopic =
     map (\<lambda>(n, v). \<lparr>env_name = n, env_from = EnvValue v\<rparr>)
       [(''KAFKA_BROKERS'', join_sep '','' (kafka_Brokers (spec_Kafka (swarm_Spec swarm)))),
        (''NODE_NAME'', node_Name node),
        (''INPUT_TOPIC'', inputTopic),
        (''OUTPUT_TOPICS'', join_sep '','' outputTopics),
        (''DEPENDS_ON'', join_sep '','' (node_DependsOn node)),
        (''JOIN_STATE_TOPIC'', joinStateTopic),
        (''ALLOWED_TOOLS'', join_sep '','' (node_AllowedTools node)),
        (''MCP_ENDPOINTS'', encodeMCPEndpoints (node_MCPServices node)),
        (''INSTRUCTIONS'', node_Instructions node),
        (''LLM_BASE_URL'', llm_BaseURL (node_LLM node)),
        (''LLM_MODEL'', llm_Model (node_LLM node))]
     @ (case llm_APIKeySecretRef (node_LLM node) of
          None \<Rightarrow> []
        | Some ref \<Rightarrow> [\<lparr>env_name = ''LLM_API_KEY'', env_from = EnvSecret ref\<rparr>])"

text \<open>\<open>set_owner\<close> is \<open>ctrl.SetControllerReference\<close>, whose error the code drops.\<close>

definition buildDeployment ::
    "(AgentSwarm \<Rightarrow> deployment \<Rightarrow> deployment) \<Rightarrow> AgentSwarm \<Rightarrow> AgentNode \<Rightarrow> string \<Rightarrow> string
     \<Rightarrow> string list \<Rightarrow> string \<Rightarrow> deployment" where
  "buildDeployment set_owner swarm node name inputTopic outputTopics joinStateTopic =
     (let labels = fmap_of_list
            [(''app'', ''agentswarm''), (''node'', node_Name node), (''swarm'', swarm_Name swarm)]
      in set_owner swarm
        \<lparr>dep_name = name, dep_namespace = swarm_Namespace swarm, dep_owner = None,
         dep_replicas = desired_replicas node, dep_selector = labels,
         dep_template =
           \<lparr>template_labels = labels,
            template_containers =
              [\<lparr>container_name = ''agent-runner'', container_image = node_Image node,
                container_env = deployment_env swarm node inputTopic outputTopics joinStateTopic\<rparr>]\<rparr>\<rparr>)"

subsection \<open>The platform\<close>

text \<open>A topic's number of partitions, replication factor and configuration (nil is \<open>None\<close>).\<close>

record topic_detail =
  NumPartitions :: "32 word"
  ReplicationFactor :: "16 word"
  ConfigEntries :: "(string, string) fmap option"

datatype api_error = NotFound | ApiError string

type_synonym object_key = "string \<times> string"

text \<open>
  The first three calls are the interface \<open>kafkaAdmin\<close>; \<open>new_admin\<close> is the field
  \<open>NewKafkaAdmin\<close> (or its default \<open>newSaramaClusterAdmin\<close>); the rest is the API client.
  A key is a namespace and a name.
\<close>

record 'w platform =
  ListTopics :: "'w \<Rightarrow> (string + (string, topic_detail) fmap) \<times> 'w"
  CreateTopic :: "string \<Rightarrow> topic_detail \<Rightarrow> bool \<Rightarrow> 'w \<Rightarrow> string option \<times> 'w"
  CloseAdmin :: "'w \<Rightarrow> string option \<times> 'w"
  new_admin :: "string list \<Rightarrow> 'w \<Rightarrow> string option \<times> 'w"
  get_swarm :: "object_key \<Rightarrow> 'w \<Rightarrow> (api_error + AgentSwarm) \<times> 'w"
  get_deployment :: "object_key \<Rightarrow> 'w \<Rightarrow> (api_error + deployment) \<times> 'w"
  create_deployment :: "deployment \<Rightarrow> 'w \<Rightarrow> api_error option \<times> 'w"
  update_deployment :: "deployment \<Rightarrow> 'w \<Rightarrow> api_error option \<times> 'w"
  set_owner :: "AgentSwarm \<Rightarrow> deployment \<Rightarrow> deployment"

datatype reconcile_error = KafkaFailure string | ApiFailure api_error

subsection \<open>Topics\<close>

definition ensureTopic ::
    "'w platform \<Rightarrow> string \<Rightarrow> (string, string) fmap option \<Rightarrow> 'w \<Rightarrow> reconcile_error option \<times> 'w" where
  "ensureTopic pf topic config w =
     (case ListTopics pf w of
        (Inl e, w1) \<Rightarrow> (Some (KafkaFailure e), w1)
      | (Inr topics, w1) \<Rightarrow>
          if fmlookup topics topic = None then
            (case CreateTopic pf topic
                    \<lparr>NumPartitions = 3, ReplicationFactor = 1, ConfigEntries = config\<rparr> False w1 of
               (err, w2) \<Rightarrow> (map_option KafkaFailure err, w2))
          else (None, w1))"

definition ensureKafkaTopic :: "'w platform \<Rightarrow> string \<Rightarrow> 'w \<Rightarrow> reconcile_error option \<times> 'w" where
  "ensureKafkaTopic pf topic = ensureTopic pf topic None"

definition compacted :: "(string, string) fmap option" where
  "compacted = Some (fmupd ''cleanup.policy'' ''compact'' fmempty)"

definition ensureCompactedTopic :: "'w platform \<Rightarrow> string \<Rightarrow> 'w \<Rightarrow> reconcile_error option \<times> 'w" where
  "ensureCompactedTopic pf topic = ensureTopic pf topic compacted"

subsection \<open>Deployments of the nodes\<close>

definition deployment_name :: "AgentSwarm \<Rightarrow> AgentNode \<Rightarrow> string" where
  "deployment_name swarm node = swarm_Name swarm @ ''-'' @ node_Name node"

definition reconcileDeployment ::
    "'w platform \<Rightarrow> AgentSwarm \<Rightarrow> AgentNode \<Rightarrow> string \<Rightarrow> string list \<Rightarrow> string \<Rightarrow> 'w
     \<Rightarrow> reconcile_error option \<times> 'w" where
  "reconcileDeployment pf swarm node inputTopic outputTopics joinStateTopic w =
     (let name = deployment_name swarm node;
          desired = buildDeployment (set_owner pf) swarm node name inputTopic outputTopics joinStateTopic
      in case get_deployment pf (swarm_Namespace swarm, name) w of
           (Inl NotFound, w1) \<Rightarrow> apfst (map_option ApiFailure) (create_deployment pf desired w1)
         | (Inl e, w1) \<Rightarrow> (Some (ApiFailure e), w1)
         | (Inr found, w1) \<Rightarrow>
             apfst (map_option ApiFailure)
               (update_deployment pf
                  (found\<lparr>dep_replicas := dep_replicas desired, dep_template := dep_template desired\<rparr>) w1))"

subsection \<open>The wiring\<close>

definition input_topic_name :: "string \<Rightarrow> string \<Rightarrow> string" where
  "input_topic_name swarm node = swarm @ ''-'' @ node @ ''-input''"

definition join_topic_name :: "string \<Rightarrow> string \<Rightarrow> string" where
  "join_topic_name swarm node = swarm @ ''-'' @ node @ ''-joinstate''"

fun inputTopics_of :: "string \<Rightarrow> AgentNode list \<Rightarrow> (string, string) fmap \<Rightarrow> (string, string) fmap" where
  "inputTopics_of swarm [] m = m"
| "inputTopics_of swarm (n # ns) m =
     inputTopics_of swarm ns (fmupd (node_Name n) (input_topic_name swarm (node_Name n)) m)"

text \<open>The element of a map of slices, and of a map of strings, with Go's zero value.\<close>

definition strings_at :: "(string, string list) fmap \<Rightarrow> string \<Rightarrow> string list" where
  "strings_at m k = (case fmlookup m k of None \<Rightarrow> [] | Some v \<Rightarrow> v)"

definition string_of :: "(string, string) fmap \<Rightarrow> string \<Rightarrow> string" where
  "string_of m k = (case fmlookup m k of None \<Rightarrow> [] | Some v \<Rightarrow> v)"

fun add_edges :: "string \<Rightarrow> string list \<Rightarrow> (string, string list) fmap \<Rightarrow> (string, string list) fmap" where
  "add_edges name [] m = m"
| "add_edges name (dep # deps) m = add_edges name deps (fmupd dep (strings_at m dep @ [name]) m)"

fun downstreamOf_of :: "AgentNode list \<Rightarrow> (string, string list) fmap \<Rightarrow> (string, string list) fmap" where
  "downstreamOf_of [] m = m"
| "downstreamOf_of (n # ns) m = downstreamOf_of ns (add_edges (node_Name n) (node_DependsOn n) m)"

subsection \<open>Reconciling\<close>

text \<open>The body of the loop over the nodes, and the loop.\<close>

definition reconcile_node ::
    "'w platform \<Rightarrow> AgentSwarm \<Rightarrow> (string, string) fmap \<Rightarrow> (string, string list) fmap \<Rightarrow> AgentNode
     \<Rightarrow> 'w \<Rightarrow> reconcile_error option \<times> 'w" where
  "reconcile_node pf swarm inputTopics downstreamOf node w =
     (let inputTopic = string_of inputTopics (node_Name node) in
      case ensureKafkaTopic pf inputTopic w of
        (Some e, w1) \<Rightarrow> (Some e, w1)
      | (None, w1) \<Rightarrow>
          if node_Type node = NodeTypeHITL then (None, w1)
          else
            let outputTopics = map (string_of inputTopics) (strings_at downstreamOf (node_Name node)) in
            if length (node_DependsOn node) > 1 then
              (let joinStateTopic = join_topic_name (swarm_Name swarm) (node_Name node) in
               case ensureCompactedTopic pf joinStateTopic w1 of
                 (Some e, w2) \<Rightarrow> (Some e, w2)
               | (None, w2) \<Rightarrow> reconcileDeployment pf swarm node inputTopic outputTopics joinStateTopic w2)
            else reconcileDeployment pf swarm node inputTopic outputTopics [] w1)"

fun reconcile_nodes ::
    "'w platform \<Rightarrow> AgentSwarm \<Rightarrow> (string, string) fmap \<Rightarrow> (string, string list) fmap
     \<Rightarrow> AgentNode list \<Rightarrow> 'w \<Rightarrow> reconcile_error option \<times> 'w" where
  "reconcile_nodes pf swarm inputTopics downstreamOf [] w = (None, w)"
| "reconcile_nodes pf swarm inputTopics downstreamOf (n # ns) w =
     (case reconcile_node pf swarm inputTopics downstreamOf n w of
        (Some e, w1) \<Rightarrow> (Some e, w1)
      | (None, w1) \<Rightarrow> reconcile_nodes pf swarm inputTopics downstreamOf ns w1)"

text \<open>The deferred close runs on every return after the admin client was made; its error is
  only logged.\<close>

definition Reconcile :: "'w platform \<Rightarrow> object_key \<Rightarrow> 'w \<Rightarrow> reconcile_error option \<times> 'w" where
  "Reconcile pf key w =
     (case get_swarm pf key w of
        (Inl NotFound, w1) \<Rightarrow> (None, w1)
      | (Inl e, w1) \<Rightarrow> (Some (ApiFailure e), w1)
      | (Inr swarm, w1) \<Rightarrow>
          (case new_admin pf (kafka_Brokers (spec_Kafka (swarm_Spec swarm))) w1 of
             (Some e, w2) \<Rightarrow> (Some (KafkaFailure e), w2)
           | (None, w2) \<Rightarrow>
               let nodes = spec_Nodes (swarm_Spec swarm) in
               (case reconcile_nodes pf swarm
                       (inputTopics_of (swarm_Name swarm) nodes fmempty)
                       (downstreamOf_of nodes fmempty) nodes w2 of
                  (err, w3) \<Rightarrow> (err, snd (CloseAdmin pf w3)))))"

end
