(* ===== verification/ControllerLaws.thy ===== *)
theory ControllerLaws
  imports Controller
begin

section \<open>What reconciling does\<close>

text \<open>
  The loop of \<open>Reconcile\<close> is a plan of actions (\<open>plan\<close>) performed until one fails
  (\<open>reconcile_nodes_plan\<close>). Two contracts say what Kafka and the API server do:
  \<open>kafka_admin\<close> for the interface of that name, and \<open>operator_platform\<close>, which extends
  it. Under them a plan that succeeds has established every one of its actions and touched
  nothing else, and performing it again changes nothing.
\<close>

subsection \<open>The wiring as functions of the specification\<close>

definition downstream :: "AgentNode list \<Rightarrow> string \<Rightarrow> string list" where
  "downstream nodes name =
     concat (map (\<lambda>n. map (\<lambda>_. node_Name n) (filter (\<lambda>d. d = name) (node_DependsOn n))) nodes)"

lemma strings_at_upd [simp]: "strings_at (fmupd k v m) k' = (if k = k' then v else strings_at m k')"
  by (simp add: strings_at_def)

lemma strings_at_empty [simp]: "strings_at fmempty k = []"
  by (simp add: strings_at_def)

lemma strings_at_add_edges:
  "strings_at (add_edges name deps m) k
     = strings_at m k @ map (\<lambda>_. name) (filter (\<lambda>d. d = k) deps)"
  by (induction deps arbitrary: m) auto

lemma strings_at_downstreamOf: "strings_at (downstreamOf_of ns m) k = strings_at m k @ downstream ns k"
  by (induction ns arbitrary: m) (auto simp: downstream_def strings_at_add_edges)

lemma in_downstream:
  "d \<in> set (downstream nodes name) \<longleftrightarrow> (\<exists>n \<in> set nodes. node_Name n = d \<and> name \<in> set (node_DependsOn n))"
  by (auto simp: downstream_def)

lemma string_of_inputTopics:
  "string_of (inputTopics_of swarm ns m) k =
     (if k \<in> node_Name ` set ns then input_topic_name swarm k else string_of m k)"
  by (induction ns arbitrary: m) (auto simp: string_of_def)

definition node_outputs :: "AgentSwarm \<Rightarrow> AgentNode \<Rightarrow> string list" where
  "node_outputs swarm node =
     map (input_topic_name (swarm_Name swarm)) (downstream (spec_Nodes (swarm_Spec swarm)) (node_Name node))"

lemma outputs_eq:
  "map (string_of (inputTopics_of swarm ns m)) (downstream ns k) = map (input_topic_name swarm) (downstream ns k)"
  by (auto simp: string_of_inputTopics in_downstream)

text \<open>Names within one swarm do not clash; a topic of one kind is never one of the other.\<close>

lemma topic_name_inj:
  "input_topic_name s a = input_topic_name s b \<longleftrightarrow> a = b"
  "join_topic_name s a = join_topic_name s b \<longleftrightarrow> a = b"
  by (auto simp: input_topic_name_def join_topic_name_def)

lemma topic_kinds_disjoint: "input_topic_name s a \<noteq> join_topic_name t b"
proof
  assume "input_topic_name s a = join_topic_name t b"
  then have "last (input_topic_name s a) = last (join_topic_name t b)" by simp
  then show False by (simp add: input_topic_name_def join_topic_name_def)
qed

lemma deployment_name_inj:
  "deployment_name s a = deployment_name s b \<longleftrightarrow> node_Name a = node_Name b"
  by (auto simp: deployment_name_def)

subsection \<open>The plan\<close>

datatype action =
    EnsureTopic string "(string, string) fmap option"
  | ApplyDeployment AgentNode string "string list" string

definition is_fan_in :: "AgentNode \<Rightarrow> bool" where
  "is_fan_in node \<longleftrightarrow> length (node_DependsOn node) > 1"

definition join_topic_of :: "AgentSwarm \<Rightarrow> AgentNode \<Rightarrow> string" where
  "join_topic_of swarm node =
     (if is_fan_in node then join_topic_name (swarm_Name swarm) (node_Name node) else [])"

definition node_plan :: "AgentSwarm \<Rightarrow> AgentNode \<Rightarrow> action list" where
  "node_plan swarm node =
     (let input = input_topic_name (swarm_Name swarm) (node_Name node) in
      EnsureTopic input None
      # (if node_Type node = NodeTypeHITL then []
         else (if is_fan_in node then [EnsureTopic (join_topic_of swarm node) compacted] else [])
              @ [ApplyDeployment node input (node_outputs swarm node) (join_topic_of swarm node)]))"

definition plan :: "AgentSwarm \<Rightarrow> action list" where
  "plan swarm = concat (map (node_plan swarm) (spec_Nodes (swarm_Spec swarm)))"

fun perform :: "'w platform \<Rightarrow> AgentSwarm \<Rightarrow> action \<Rightarrow> 'w \<Rightarrow> reconcile_error option \<times> 'w" where
  "perform pf swarm (EnsureTopic t c) w = ensureTopic pf t c w"
| "perform pf swarm (ApplyDeployment n i os j) w = reconcileDeployment pf swarm n i os j w"

fun perform_all :: "'w platform \<Rightarrow> AgentSwarm \<Rightarrow> action list \<Rightarrow> 'w \<Rightarrow> reconcile_error option \<times> 'w" where
  "perform_all pf swarm [] w = (None, w)"
| "perform_all pf swarm (a # as) w =
     (case perform pf swarm a w of
        (Some e, w1) \<Rightarrow> (Some e, w1)
      | (None, w1) \<Rightarrow> perform_all pf swarm as w1)"

lemma perform_all_append:
  "perform_all pf swarm (as @ bs) w =
     (case perform_all pf swarm as w of
        (Some e, w1) \<Rightarrow> (Some e, w1)
      | (None, w1) \<Rightarrow> perform_all pf swarm bs w1)"
  by (induction as arbitrary: w) (auto split: prod.split option.split)

lemma perform_one: "perform_all pf swarm [a] w = perform pf swarm a w"
  by (auto split: prod.split option.split)

lemma reconcile_node_plan:
  assumes "node \<in> set nodes" "nodes = spec_Nodes (swarm_Spec swarm)"
  shows "reconcile_node pf swarm (inputTopics_of (swarm_Name swarm) nodes fmempty)
      (downstreamOf_of nodes fmempty) node w = perform_all pf swarm (node_plan swarm node) w"
proof -
  have i: "string_of (inputTopics_of (swarm_Name swarm) nodes fmempty) (node_Name node)
      = input_topic_name (swarm_Name swarm) (node_Name node)"
    using assms(1) by (simp add: string_of_inputTopics)
  have o: "map (string_of (inputTopics_of (swarm_Name swarm) nodes fmempty))
      (strings_at (downstreamOf_of nodes fmempty) (node_Name node)) = node_outputs swarm node"
    by (simp add: strings_at_downstreamOf outputs_eq node_outputs_def assms(2))
  show ?thesis
    unfolding reconcile_node_def Let_def i o node_plan_def
    by (auto simp: ensureKafkaTopic_def ensureCompactedTopic_def is_fan_in_def join_topic_of_def
        split: prod.split option.split)
qed

lemma reconcile_nodes_plan:
  assumes "nodes = spec_Nodes (swarm_Spec swarm)" "set ns \<subseteq> set nodes"
  shows "reconcile_nodes pf swarm (inputTopics_of (swarm_Name swarm) nodes fmempty)
      (downstreamOf_of nodes fmempty) ns w = perform_all pf swarm (concat (map (node_plan swarm) ns)) w"
  using assms(2)
  by (induction ns arbitrary: w)
    (auto simp: reconcile_node_plan[OF _ assms(1)] perform_all_append split: prod.split option.split)

theorem Reconcile_plan:
  "Reconcile pf key w =
     (case get_swarm pf key w of
        (Inl NotFound, w1) \<Rightarrow> (None, w1)
      | (Inl e, w1) \<Rightarrow> (Some (ApiFailure e), w1)
      | (Inr swarm, w1) \<Rightarrow>
          (case new_admin pf (kafka_Brokers (spec_Kafka (swarm_Spec swarm))) w1 of
             (Some e, w2) \<Rightarrow> (Some (KafkaFailure e), w2)
           | (None, w2) \<Rightarrow>
               apsnd (\<lambda>w3. snd (CloseAdmin pf w3)) (perform_all pf swarm (plan swarm) w2)))"
  by (auto simp: Reconcile_def Let_def plan_def reconcile_nodes_plan split: prod.split sum.split
      api_error.split option.split)

text \<open>The topics and the Deployments a plan is about.\<close>

fun action_topics :: "action \<Rightarrow> string list" where
  "action_topics (EnsureTopic t c) = [t]"
| "action_topics _ = []"

fun action_nodes :: "action \<Rightarrow> AgentNode list" where
  "action_nodes (ApplyDeployment n i os j) = [n]"
| "action_nodes _ = []"

definition planned_topics :: "AgentSwarm \<Rightarrow> string set" where
  "planned_topics swarm = (\<Union>a \<in> set (plan swarm). set (action_topics a))"

definition planned_nodes :: "AgentSwarm \<Rightarrow> AgentNode set" where
  "planned_nodes swarm = (\<Union>a \<in> set (plan swarm). set (action_nodes a))"

lemma planned_topics_eq:
  "planned_topics swarm =
     {input_topic_name (swarm_Name swarm) (node_Name n) | n. n \<in> set (spec_Nodes (swarm_Spec swarm))}
     \<union> {join_topic_name (swarm_Name swarm) (node_Name n) | n.
          n \<in> set (spec_Nodes (swarm_Spec swarm)) \<and> node_Type n \<noteq> NodeTypeHITL \<and> is_fan_in n}"
  by (fastforce simp: planned_topics_def plan_def node_plan_def Let_def join_topic_of_def
      split: if_splits)

lemma planned_nodes_eq:
  "planned_nodes swarm = {n \<in> set (spec_Nodes (swarm_Spec swarm)). node_Type n \<noteq> NodeTypeHITL}"
  by (auto simp: planned_nodes_def plan_def node_plan_def Let_def split: if_splits)

subsection \<open>The contract of the Kafka admin client\<close>

text \<open>
  Listing gives the topics there are; creating a topic gives it its detail and touches no other
  topic, also when it fails.
\<close>

locale kafka_admin =
  fixes pf :: "'w platform" and topics :: "'w \<Rightarrow> (string, topic_detail) fmap"
  assumes list_ok: "ListTopics pf w = (Inr ts, w') \<Longrightarrow> ts = topics w"
    and list_keeps: "ListTopics pf w = (r, w') \<Longrightarrow> topics w' = topics w"
    and create_ok: "CreateTopic pf t d False w = (None, w') \<Longrightarrow> topics w' = fmupd t d (topics w)"
    and create_other:
      "CreateTopic pf t d False w = (e, w') \<Longrightarrow> t' \<noteq> t \<Longrightarrow> fmlookup (topics w') t' = fmlookup (topics w) t'"
begin

lemma listed: "ListTopics pf w = (Inr ts, w') \<Longrightarrow> ts = topics w \<and> topics w' = topics w"
  by (simp add: list_ok list_keeps)

lemma ensure_cases:
  assumes "ensureTopic pf t c w = (r, w')"
  obtains (unlisted) e where "r = Some (KafkaFailure e)" "topics w' = topics w"
    | (there) "r = None" "topics w' = topics w" "fmlookup (topics w) t \<noteq> None"
    | (created) w1 e where "topics w1 = topics w" "fmlookup (topics w) t = None"
        "CreateTopic pf t \<lparr>NumPartitions = 3, ReplicationFactor = 1, ConfigEntries = c\<rparr> False w1 = (e, w')"
        "r = map_option KafkaFailure e"
proof (cases "ListTopics pf w")
  case (Pair l w1)
  show ?thesis
  proof (cases l)
    case (Inl e)
    then show ?thesis
      using assms Pair list_keeps[OF Pair] unlisted[of e] by (auto simp: ensureTopic_def)
  next
    case (Inr ts)
    then have ts: "ts = topics w" "topics w1 = topics w" using listed Pair by auto
    show ?thesis
    proof (cases "fmlookup ts t = None")
      case True
      then show ?thesis
        using assms Pair Inr ts created by (auto simp: ensureTopic_def split: prod.splits)
    next
      case False
      then show ?thesis using assms Pair Inr ts there by (auto simp: ensureTopic_def)
    qed
  qed
qed

lemma ensure_other:
  "ensureTopic pf t c w = (r, w') \<Longrightarrow> t' \<noteq> t \<or> fmlookup (topics w) t' \<noteq> None
   \<Longrightarrow> fmlookup (topics w') t' = fmlookup (topics w) t'"
  by (erule ensure_cases) (auto dest: create_other)

lemma ensure_there: "ensureTopic pf t c w = (None, w') \<Longrightarrow> fmlookup (topics w') t \<noteq> None"
  by (erule ensure_cases) (auto dest: create_ok)

lemma ensure_created:
  "ensureTopic pf t c w = (None, w') \<Longrightarrow> fmlookup (topics w) t = None
   \<Longrightarrow> fmlookup (topics w') t = Some \<lparr>NumPartitions = 3, ReplicationFactor = 1, ConfigEntries = c\<rparr>"
  by (erule ensure_cases) (auto dest: create_ok)

lemma ensure_again:
  "ensureTopic pf t c w = (r, w') \<Longrightarrow> fmlookup (topics w) t \<noteq> None \<Longrightarrow> topics w' = topics w"
  by (erule ensure_cases) auto

end

subsection \<open>The contract of the whole platform\<close>

text \<open>
  The API server is a store of Deployments under their keys: reads are current, a create or an
  update that succeeds stores what it was given and touches nothing else. The other calls keep
  the store, and its calls keep the topics. \<open>SetControllerReference\<close> sets the owner only.
\<close>

definition dep_key :: "deployment \<Rightarrow> object_key" where
  "dep_key d = (dep_namespace d, dep_name d)"

text \<open>What the reconciler wants of a Deployment, whatever its owner.\<close>

definition desired_template ::
    "AgentSwarm \<Rightarrow> AgentNode \<Rightarrow> string \<Rightarrow> string list \<Rightarrow> string \<Rightarrow> pod_template" where
  "desired_template swarm node i os j =
     dep_template (buildDeployment (\<lambda>_ d. d) swarm node (deployment_name swarm node) i os j)"

definition is_desired ::
    "AgentSwarm \<Rightarrow> AgentNode \<Rightarrow> string \<Rightarrow> string list \<Rightarrow> string \<Rightarrow> deployment \<Rightarrow> bool" where
  "is_desired swarm node i os j d \<longleftrightarrow>
     dep_key d = (swarm_Namespace swarm, deployment_name swarm node)
     \<and> dep_replicas d = desired_replicas node \<and> dep_template d = desired_template swarm node i os j"

locale operator_platform = kafka_admin pf topics
  for pf :: "'w platform" and topics :: "'w \<Rightarrow> (string, topic_detail) fmap" +
  fixes deployments :: "'w \<Rightarrow> (object_key, deployment) fmap"
  assumes list_dep: "ListTopics pf w = (r1, w') \<Longrightarrow> deployments w' = deployments w"
    and create_dep: "CreateTopic pf t d False w = (r2, w') \<Longrightarrow> deployments w' = deployments w"
    and close_keeps:
      "CloseAdmin pf w = (r2, w') \<Longrightarrow> topics w' = topics w \<and> deployments w' = deployments w"
    and new_admin_keeps:
      "new_admin pf bs w = (r2, w') \<Longrightarrow> topics w' = topics w \<and> deployments w' = deployments w"
    and get_swarm_keeps:
      "get_swarm pf k w = (r3, w') \<Longrightarrow> topics w' = topics w \<and> deployments w' = deployments w"
    and get_keeps:
      "get_deployment pf k w = (r4, w') \<Longrightarrow> topics w' = topics w \<and> deployments w' = deployments w"
    and get_found: "get_deployment pf k w = (Inr dep, w') \<Longrightarrow> fmlookup (deployments w) k = Some dep"
    and get_missing: "get_deployment pf k w = (Inl NotFound, w') \<Longrightarrow> fmlookup (deployments w) k = None"
    and key_of: "fmlookup (deployments w) k = Some dep \<Longrightarrow> dep_key dep = k"
    and store_topics:
      "create_deployment pf dep w = (r5, w') \<Longrightarrow> topics w' = topics w"
      "update_deployment pf dep w = (r5, w') \<Longrightarrow> topics w' = topics w"
    and store_ok:
      "create_deployment pf dep w = (None, w') \<Longrightarrow> deployments w' = fmupd (dep_key dep) dep (deployments w)"
      "update_deployment pf dep w = (None, w') \<Longrightarrow> deployments w' = fmupd (dep_key dep) dep (deployments w)"
    and store_other:
      "create_deployment pf dep w = (r5, w') \<Longrightarrow> k \<noteq> dep_key dep
       \<Longrightarrow> fmlookup (deployments w') k = fmlookup (deployments w) k"
      "update_deployment pf dep w = (r5, w') \<Longrightarrow> k \<noteq> dep_key dep
       \<Longrightarrow> fmlookup (deployments w') k = fmlookup (deployments w) k"
    and owner_only: "\<exists>ow. set_owner pf s dep = dep\<lparr>dep_owner := ow\<rparr>"
begin

lemma built:
  "is_desired swarm node i os j (buildDeployment (set_owner pf) swarm node (deployment_name swarm node) i os j)"
  "dep_template (buildDeployment (set_owner pf) swarm node (deployment_name swarm node) i os j)
     = desired_template swarm node i os j"
  "dep_replicas (buildDeployment (set_owner pf) swarm node (deployment_name swarm node) i os j)
     = desired_replicas node"
  "dep_key (buildDeployment (set_owner pf) swarm node (deployment_name swarm node) i os j)
     = (swarm_Namespace swarm, deployment_name swarm node)"
proof -
  obtain ow where
    b: "buildDeployment (set_owner pf) swarm node (deployment_name swarm node) i os j
      = (buildDeployment (\<lambda>_ d. d) swarm node (deployment_name swarm node) i os j)\<lparr>dep_owner := ow\<rparr>"
    using owner_only unfolding buildDeployment_def Let_def by blast
  show "is_desired swarm node i os j (buildDeployment (set_owner pf) swarm node (deployment_name swarm node) i os j)"
    "dep_template (buildDeployment (set_owner pf) swarm node (deployment_name swarm node) i os j)
     = desired_template swarm node i os j"
    "dep_replicas (buildDeployment (set_owner pf) swarm node (deployment_name swarm node) i os j)
     = desired_replicas node"
    "dep_key (buildDeployment (set_owner pf) swarm node (deployment_name swarm node) i os j)
     = (swarm_Namespace swarm, deployment_name swarm node)"
    unfolding b by (simp_all add: is_desired_def desired_template_def dep_key_def buildDeployment_def Let_def)
qed

lemma ensure_deployments: "ensureTopic pf t c w = (r, w') \<Longrightarrow> deployments w' = deployments w"
  by (auto simp: ensureTopic_def split: prod.splits sum.splits if_splits dest!: list_dep create_dep)

text \<open>The three ways \<open>reconcileDeployment\<close> goes, for the rules below.\<close>

lemma apply_cases:
  assumes "reconcileDeployment pf swarm node i os j w = (r, w')"
  obtains (create) w1 e where
      "get_deployment pf (swarm_Namespace swarm, deployment_name swarm node) w = (Inl NotFound, w1)"
      "create_deployment pf (buildDeployment (set_owner pf) swarm node (deployment_name swarm node) i os j) w1 = (e, w')"
      "r = map_option ApiFailure e"
    | (unread) e where
      "get_deployment pf (swarm_Namespace swarm, deployment_name swarm node) w = (Inl e, w')"
      "r = Some (ApiFailure e)"
    | (update) w1 found e where
      "get_deployment pf (swarm_Namespace swarm, deployment_name swarm node) w = (Inr found, w1)"
      "update_deployment pf (found\<lparr>dep_replicas := desired_replicas node,
         dep_template := desired_template swarm node i os j\<rparr>) w1 = (e, w')"
      "r = map_option ApiFailure e"
  using assms
  by (auto simp: reconcileDeployment_def Let_def apfst_def map_prod_def built
      split: prod.splits sum.splits api_error.splits)

lemma apply_topics: "reconcileDeployment pf swarm node i os j w = (r, w') \<Longrightarrow> topics w' = topics w"
  by (erule apply_cases) (auto dest!: get_keeps store_topics)

lemma apply_elsewhere:
  assumes "reconcileDeployment pf swarm node i os j w = (r, w')"
    and "k \<noteq> (swarm_Namespace swarm, deployment_name swarm node)"
  shows "fmlookup (deployments w') k = fmlookup (deployments w) k"
  using assms(1)
proof (cases rule: apply_cases)
  case (create w1 e)
  then show ?thesis using assms(2) get_keeps store_other(1)[OF create(2), of k] by (auto simp: built)
next
  case (unread e)
  then show ?thesis using get_keeps by auto
next
  case (update w1 found e)
  have "dep_key found = (swarm_Namespace swarm, deployment_name swarm node)"
    using update(1) by (blast dest: get_found key_of)
  then show ?thesis
    using assms(2) get_keeps[OF update(1)] store_other(2)[OF update(2), of k] by (auto simp: dep_key_def)
qed

lemma apply_done:
  assumes "reconcileDeployment pf swarm node i os j w = (None, w')"
  shows "\<exists>d. fmlookup (deployments w') (swarm_Namespace swarm, deployment_name swarm node) = Some d
    \<and> is_desired swarm node i os j d"
  using assms
proof (cases rule: apply_cases)
  case (create w1 e)
  then show ?thesis using store_ok(1)[of _ w1 w'] by (auto simp: built)
next
  case (update w1 found e)
  have k: "dep_key found = (swarm_Namespace swarm, deployment_name swarm node)"
    using update(1) by (blast dest: get_found key_of)
  then show ?thesis
    using update(2,3) store_ok(2)[of _ w1 w'] by (auto simp: dep_key_def is_desired_def)
qed simp

lemma apply_again:
  assumes "fmlookup (deployments w) (swarm_Namespace swarm, deployment_name swarm node) = Some d"
    and "is_desired swarm node i os j d"
    and "reconcileDeployment pf swarm node i os j w = (None, w')"
  shows "deployments w' = deployments w"
  using assms(3)
proof (cases rule: apply_cases)
  case (create w1 e)
  then show ?thesis using get_missing assms(1) by auto
next
  case (update w1 found e)
  have f: "found = d" using get_found[OF update(1)] assms(1) by simp
  have "found\<lparr>dep_replicas := desired_replicas node, dep_template := desired_template swarm node i os j\<rparr> = d"
    using assms(2) by (simp add: f is_desired_def)
  then have "deployments w' = fmupd (dep_key d) d (deployments w1)"
    using update(2,3) store_ok(2) by auto
  then show ?thesis
    using get_keeps[OF update(1)] assms(1,2) by (auto simp: is_desired_def intro!: fmap_ext)
qed simp

subsection \<open>Performing a plan\<close>

lemma perform_topics_other:
  "perform pf swarm a w = (r, w') \<Longrightarrow> t \<notin> set (action_topics a) \<or> fmlookup (topics w) t \<noteq> None
   \<Longrightarrow> fmlookup (topics w') t = fmlookup (topics w) t"
  by (cases a) (auto dest: ensure_other[where t' = t] apply_topics)

lemma perform_deployments_other:
  "perform pf swarm a w = (r, w')
   \<Longrightarrow> k \<notin> (\<lambda>n. (swarm_Namespace swarm, deployment_name swarm n)) ` set (action_nodes a)
   \<Longrightarrow> fmlookup (deployments w') k = fmlookup (deployments w) k"
  by (cases a) (auto dest: ensure_deployments apply_elsewhere)

lemma perform_all_topics_other:
  "perform_all pf swarm as w = (r, w')
   \<Longrightarrow> (\<forall>a \<in> set as. t \<notin> set (action_topics a)) \<or> fmlookup (topics w) t \<noteq> None
   \<Longrightarrow> fmlookup (topics w') t = fmlookup (topics w) t"
proof (induction as arbitrary: w)
  case (Cons a as)
  obtain r1 w1 where p: "perform pf swarm a w = (r1, w1)" by fastforce
  have "fmlookup (topics w1) t = fmlookup (topics w) t"
    using Cons.prems(2) by (intro perform_topics_other[OF p]) auto
  with Cons p show ?case by (auto split: option.splits)
qed simp

lemma perform_all_deployments_other:
  "perform_all pf swarm as w = (r, w')
   \<Longrightarrow> \<forall>a \<in> set as. k \<notin> (\<lambda>n. (swarm_Namespace swarm, deployment_name swarm n)) ` set (action_nodes a)
   \<Longrightarrow> fmlookup (deployments w') k = fmlookup (deployments w) k"
proof (induction as arbitrary: w)
  case (Cons a as)
  obtain r1 w1 where p: "perform pf swarm a w = (r1, w1)" by fastforce
  have "fmlookup (deployments w1) k = fmlookup (deployments w) k"
    using Cons.prems(2) by (intro perform_deployments_other[OF p]) auto
  with Cons p show ?case by (auto split: option.splits)
qed simp

text \<open>What an action is for.\<close>

fun established :: "AgentSwarm \<Rightarrow> action \<Rightarrow> 'w \<Rightarrow> bool" where
  "established swarm (EnsureTopic t c) w \<longleftrightarrow> fmlookup (topics w) t \<noteq> None"
| "established swarm (ApplyDeployment n i os j) w \<longleftrightarrow>
     (\<exists>d. fmlookup (deployments w) (swarm_Namespace swarm, deployment_name swarm n) = Some d
        \<and> is_desired swarm n i os j d)"

lemma perform_established: "perform pf swarm a w = (None, w') \<Longrightarrow> established swarm a w'"
  by (cases a) (auto dest: ensure_there apply_done)

lemma perform_again:
  "established swarm a w \<Longrightarrow> perform pf swarm a w = (None, w')
   \<Longrightarrow> topics w' = topics w \<and> deployments w' = deployments w"
  by (cases a)
    (auto dest: ensure_again ensure_deployments apply_topics apply_again)

lemma established_cong:
  "topics w' = topics w \<Longrightarrow> deployments w' = deployments w \<Longrightarrow> established swarm a w' = established swarm a w"
  by (cases a) auto

text \<open>No two actions of a plan apply a Deployment of the same name.\<close>

definition separate :: "action list \<Rightarrow> bool" where
  "separate as \<longleftrightarrow> distinct (map node_Name (concat (map action_nodes as)))"

lemma established_kept:
  assumes "established swarm a w" "perform_all pf swarm as w = (r, w')"
    and "\<forall>n \<in> set (action_nodes a). node_Name n \<notin> node_Name ` set (concat (map action_nodes as))"
  shows "established swarm a w'"
proof (cases a)
  case (EnsureTopic t c)
  then show ?thesis using perform_all_topics_other[OF assms(2), of t] assms(1) by auto
next
  case (ApplyDeployment n i os j)
  have "fmlookup (deployments w') (swarm_Namespace swarm, deployment_name swarm n)
      = fmlookup (deployments w) (swarm_Namespace swarm, deployment_name swarm n)"
    using assms(3) ApplyDeployment
    by (intro perform_all_deployments_other[OF assms(2)])
      (auto simp: deployment_name_inj image_iff)
  then show ?thesis using ApplyDeployment assms(1) by auto
qed

lemma perform_all_established:
  "perform_all pf swarm as w = (None, w') \<Longrightarrow> separate as \<Longrightarrow> a \<in> set as \<Longrightarrow> established swarm a w'"
proof (induction as arbitrary: w)
  case (Cons b as)
  obtain w1 where p: "perform pf swarm b w = (None, w1)" "perform_all pf swarm as w1 = (None, w')"
    using Cons.prems(1) by (auto split: prod.splits option.splits)
  show ?case
  proof (cases "a = b")
    case True
    have "\<forall>n \<in> set (action_nodes b). node_Name n \<notin> node_Name ` set (concat (map action_nodes as))"
      using Cons.prems(2) by (cases b) (auto simp: separate_def)
    with established_kept[OF perform_established[OF p(1)] p(2)] True show ?thesis by simp
  next
    case False
    have "separate as" using Cons.prems(2) by (auto simp: separate_def)
    with Cons.IH[OF p(2)] Cons.prems(3) False show ?thesis by simp
  qed
qed simp

lemma perform_all_again:
  "\<forall>a \<in> set as. established swarm a w \<Longrightarrow> perform_all pf swarm as w = (None, w')
   \<Longrightarrow> topics w' = topics w \<and> deployments w' = deployments w"
proof (induction as arbitrary: w)
  case (Cons b as)
  obtain w1 where p: "perform pf swarm b w = (None, w1)" "perform_all pf swarm as w1 = (None, w')"
    using Cons.prems(2) by (auto split: prod.splits option.splits)
  have k: "topics w1 = topics w \<and> deployments w1 = deployments w"
    using perform_again[OF _ p(1)] Cons.prems(1) by auto
  have "\<forall>a \<in> set as. established swarm a w1"
    using Cons.prems(1) established_cong[OF conjunct1[OF k] conjunct2[OF k]] by simp
  from Cons.IH[OF this p(2)] k show ?case by simp
qed simp

subsection \<open>Reconciling\<close>

lemma separate_plan:
  assumes "distinct (map node_Name (spec_Nodes (swarm_Spec swarm)))"
  shows "separate (plan swarm)"
proof -
  have one: "concat (map action_nodes (node_plan swarm n)) = (if node_Type n = NodeTypeHITL then [] else [n])" for n
    by (simp add: node_plan_def Let_def)
  have "concat (map action_nodes (concat (map (node_plan swarm) ns))) = filter (\<lambda>n. node_Type n \<noteq> NodeTypeHITL) ns" for ns
    by (induction ns) (simp_all add: one)
  then have "concat (map action_nodes (plan swarm)) = filter (\<lambda>n. node_Type n \<noteq> NodeTypeHITL) (spec_Nodes (swarm_Spec swarm))"
    unfolding plan_def by blast
  then show ?thesis using assms by (simp add: separate_def distinct_map_filter)
qed

text \<open>A reconciliation that finds its swarm either fails to reach Kafka, or performs the plan.\<close>

lemma Reconcile_runs:
  assumes "Reconcile pf key w = (r, w')" "get_swarm pf key w = (Inr swarm, w1)"
  obtains (unconnected) "r \<noteq> None" "topics w' = topics w" "deployments w' = deployments w"
    | (performed) w2 w3 where "perform_all pf swarm (plan swarm) w2 = (r, w3)"
        "topics w2 = topics w" "deployments w2 = deployments w"
        "topics w' = topics w3" "deployments w' = deployments w3"
proof -
  obtain a w2 where n: "new_admin pf (kafka_Brokers (spec_Kafka (swarm_Spec swarm))) w1 = (a, w2)"
    by fastforce
  have k: "topics w2 = topics w" "deployments w2 = deployments w"
    using new_admin_keeps[OF n] get_swarm_keeps[OF assms(2)] by auto
  show ?thesis
  proof (cases a)
    case (Some e)
    with assms n k unconnected show ?thesis by (auto simp: Reconcile_plan)
  next
    case None
    obtain r3 w3 where p: "perform_all pf swarm (plan swarm) w2 = (r3, w3)" by fastforce
    have r: "r3 = r" "w' = snd (CloseAdmin pf w3)" using assms n p None by (auto simp: Reconcile_plan)
    then have "CloseAdmin pf w3 = (fst (CloseAdmin pf w3), w')" by simp
    from performed[OF p[unfolded r(1)] k] close_keeps[OF this] show ?thesis by simp
  qed
qed

lemma Reconcile_established:
  assumes "Reconcile pf key w = (None, w')" "get_swarm pf key w = (Inr swarm, w1)"
    and "distinct (map node_Name (spec_Nodes (swarm_Spec swarm)))" "a \<in> set (plan swarm)"
  shows "established swarm a w'"
  using assms(1,2)
proof (cases rule: Reconcile_runs)
  case (performed w2 w3)
  from perform_all_established[OF performed(1) separate_plan[OF assms(3)] assms(4)]
  show ?thesis using established_cong[OF performed(4,5)] by simp
qed simp

lemma Reconcile_provisions:
  assumes "Reconcile pf key w = (None, w')" "get_swarm pf key w = (Inr swarm, w1)"
    and "distinct (map node_Name (spec_Nodes (swarm_Spec swarm)))"
    and "node \<in> set (spec_Nodes (swarm_Spec swarm))"
  shows "fmlookup (topics w') (input_topic_name (swarm_Name swarm) (node_Name node)) \<noteq> None
    \<and> (node_Type node \<noteq> NodeTypeHITL \<longrightarrow>
         (is_fan_in node \<longrightarrow> fmlookup (topics w') (join_topic_of swarm node) \<noteq> None)
         \<and> (\<exists>d. fmlookup (deployments w') (swarm_Namespace swarm, deployment_name swarm node) = Some d
             \<and> is_desired swarm node (input_topic_name (swarm_Name swarm) (node_Name node))
                 (node_outputs swarm node) (join_topic_of swarm node) d))"
proof -
  note est = Reconcile_established[OF assms(1-3)]
  have sub: "a \<in> set (plan swarm)" if "a \<in> set (node_plan swarm node)" for a
    using that assms(4) by (auto simp: plan_def)
  have i: "EnsureTopic (input_topic_name (swarm_Name swarm) (node_Name node)) None \<in> set (node_plan swarm node)"
    by (simp add: node_plan_def Let_def)
  have j: "EnsureTopic (join_topic_of swarm node) compacted \<in> set (node_plan swarm node)"
    if "node_Type node \<noteq> NodeTypeHITL" "is_fan_in node"
    using that by (simp add: node_plan_def Let_def)
  have d: "ApplyDeployment node (input_topic_name (swarm_Name swarm) (node_Name node))
        (node_outputs swarm node) (join_topic_of swarm node) \<in> set (node_plan swarm node)"
    if "node_Type node \<noteq> NodeTypeHITL"
    using that by (simp add: node_plan_def Let_def)
  show ?thesis
  proof (intro conjI impI)
    show "fmlookup (topics w') (input_topic_name (swarm_Name swarm) (node_Name node)) \<noteq> None"
      using est[OF sub[OF i]] by simp
    show "fmlookup (topics w') (join_topic_of swarm node) \<noteq> None"
      if "node_Type node \<noteq> NodeTypeHITL" "is_fan_in node"
      using est[OF sub[OF j[OF that]]] by simp
    show "\<exists>dep. fmlookup (deployments w') (swarm_Namespace swarm, deployment_name swarm node) = Some dep
        \<and> is_desired swarm node (input_topic_name (swarm_Name swarm) (node_Name node))
            (node_outputs swarm node) (join_topic_of swarm node) dep"
      if "node_Type node \<noteq> NodeTypeHITL"
      using est[OF sub[OF d[OF that]]] by simp
  qed
qed

lemma Reconcile_frame:
  assumes "Reconcile pf key w = (r, w')" "get_swarm pf key w = (Inr swarm, w1)"
  shows "(t \<notin> planned_topics swarm \<or> fmlookup (topics w) t \<noteq> None
      \<longrightarrow> fmlookup (topics w') t = fmlookup (topics w) t)
    \<and> (k \<notin> (\<lambda>n. (swarm_Namespace swarm, deployment_name swarm n)) ` planned_nodes swarm
      \<longrightarrow> fmlookup (deployments w') k = fmlookup (deployments w) k)"
  using assms
proof (cases rule: Reconcile_runs)
  case (performed w2 w3)
  show ?thesis
    using perform_all_topics_other[OF performed(1), of t]
      perform_all_deployments_other[OF performed(1), of k] performed(2-)
    by (auto simp: planned_topics_def planned_nodes_def)
qed simp

lemma Reconcile_again:
  assumes "Reconcile pf key w = (None, w')" "get_swarm pf key w = (Inr swarm, w1)"
    and "distinct (map node_Name (spec_Nodes (swarm_Spec swarm)))"
    and "get_swarm pf key w' = (Inr swarm, w4)" "Reconcile pf key w' = (None, w'')"
  shows "topics w'' = topics w' \<and> deployments w'' = deployments w'"
  using assms(5,4)
proof (cases rule: Reconcile_runs)
  case (performed w2 w3)
  have "\<forall>a \<in> set (plan swarm). established swarm a w2"
    using Reconcile_established[OF assms(1-3)] established_cong[OF performed(2,3)] by simp
  from perform_all_again[OF this performed(1)] performed show ?thesis by simp
qed simp

end

end
