(* ===== verification/FakePlatform.thy ===== *)
theory FakePlatform
  imports ControllerLaws
begin

section \<open>The platform of the operator's tests (internal/controller/agentswarm_controller_test.go)\<close>

text \<open>
  \<open>fakeKafkaAdmin\<close>, the in-memory implementation of \<open>kafkaAdmin\<close> the tests of the
  reconciler run against, next to an API server that is a plain store of objects. It meets both
  contracts of the operator.
\<close>

record fake_world =
  fake_topics :: "(string, topic_detail) fmap"
  stored_swarms :: "(object_key, AgentSwarm) fmap"
  stored_deployments :: "deployment list"

definition fake_ListTopics :: "fake_world \<Rightarrow> (string + (string, topic_detail) fmap) \<times> fake_world" where
  "fake_ListTopics w = (Inr (fake_topics w), w)"

definition fake_CreateTopic ::
    "string \<Rightarrow> topic_detail \<Rightarrow> bool \<Rightarrow> fake_world \<Rightarrow> string option \<times> fake_world" where
  "fake_CreateTopic t d validate w = (None, w\<lparr>fake_topics := fmupd t d (fake_topics w)\<rparr>)"

definition fake_Close :: "fake_world \<Rightarrow> string option \<times> fake_world" where
  "fake_Close w = (None, w)"

definition fake_deployments :: "fake_world \<Rightarrow> (object_key, deployment) fmap" where
  "fake_deployments w = fmap_of_list (map (\<lambda>d. (dep_key d, d)) (stored_deployments w))"

text \<open>Creating what exists and updating what does not are refused.\<close>

definition store_create :: "deployment \<Rightarrow> fake_world \<Rightarrow> api_error option \<times> fake_world" where
  "store_create d w =
     (if fmlookup (fake_deployments w) (dep_key d) = None
      then (None, w\<lparr>stored_deployments := d # stored_deployments w\<rparr>)
      else (Some (ApiError ''already exists''), w))"

definition store_update :: "deployment \<Rightarrow> fake_world \<Rightarrow> api_error option \<times> fake_world" where
  "store_update d w =
     (if fmlookup (fake_deployments w) (dep_key d) = None then (Some NotFound, w)
      else (None, w\<lparr>stored_deployments :=
                      d # filter (\<lambda>x. dep_key x \<noteq> dep_key d) (stored_deployments w)\<rparr>))"

definition get_from :: "(object_key, 'a) fmap \<Rightarrow> object_key \<Rightarrow> 'w \<Rightarrow> (api_error + 'a) \<times> 'w" where
  "get_from m k w = ((case fmlookup m k of None \<Rightarrow> Inl NotFound | Some d \<Rightarrow> Inr d), w)"

definition fake_platform :: "fake_world platform" where
  "fake_platform =
     \<lparr>ListTopics = fake_ListTopics, CreateTopic = fake_CreateTopic, CloseAdmin = fake_Close,
      new_admin = (\<lambda>brokers w. (None, w)),
      get_swarm = (\<lambda>k w. get_from (stored_swarms w) k w),
      get_deployment = (\<lambda>k w. get_from (fake_deployments w) k w),
      create_deployment = store_create, update_deployment = store_update,
      set_owner = (\<lambda>swarm d. d\<lparr>dep_owner := Some (swarm_Name swarm)\<rparr>)\<rparr>"

interpretation fake_kafka: kafka_admin fake_platform fake_topics
  by unfold_locales
    (auto simp: fake_platform_def fake_ListTopics_def fake_CreateTopic_def)

lemma fake_deployments_key: "fmlookup (fake_deployments w) k = Some d \<Longrightarrow> dep_key d = k"
  by (auto simp: fake_deployments_def fmlookup_of_list dest!: map_of_SomeD)

lemma fake_deployments_upd:
  "fake_deployments (w\<lparr>stored_deployments := d # ds\<rparr>)
     = fmupd (dep_key d) d (fake_deployments (w\<lparr>stored_deployments := ds\<rparr>))"
  by (simp add: fake_deployments_def)

lemma fake_deployments_same [simp]:
  "fake_deployments (w\<lparr>stored_deployments := stored_deployments w\<rparr>) = fake_deployments w"
  "fake_deployments (w\<lparr>fake_topics := ts\<rparr>) = fake_deployments w"
  by (simp_all add: fake_deployments_def)

lemma fake_deployments_filter:
  "fmlookup (fake_deployments (w\<lparr>stored_deployments := filter (\<lambda>x. dep_key x \<noteq> k) ds\<rparr>)) k'
     = (if k' = k then None else fmlookup (fake_deployments (w\<lparr>stored_deployments := ds\<rparr>)) k')"
  by (induction ds) (auto simp: fake_deployments_def)

interpretation fake_operator: operator_platform fake_platform fake_topics fake_deployments
  by unfold_locales
    (auto simp: fake_platform_def fake_ListTopics_def fake_CreateTopic_def fake_Close_def
      get_from_def store_create_def store_update_def fake_deployments_upd fake_deployments_key
      fake_deployments_filter
      split: option.splits if_splits intro!: fmap_ext)

subsection \<open>The spec of the tests\<close>

text \<open>
  The resource the tests create if it is not there, and the body of the spec: the reconciliation
  reports no error, and the Deployment of the Worker is there. The Go client always sends the
  member \<open>llm\<close>, as an empty object when nothing is set, so its defaults apply.
\<close>

definition test_key :: object_key where
  "test_key = (''default'', ''test-resource'')"

definition test_resource :: AgentSwarm where
  "test_resource =
     \<lparr>swarm_Name = ''test-resource'', swarm_Namespace = ''default'',
      swarm_Spec = \<lparr>spec_Kafka = \<lparr>kafka_Brokers = [''localhost:9092'']\<rparr>,
        spec_Nodes = [\<lparr>node_Name = ''ingest-agent'', node_Type = NodeTypeWorker, node_Image = ''agent-runner:v1'',
          node_Instructions = [], node_DependsOn = [], node_Replicas = 0, node_MCPServices = [],
          node_AllowedTools = [],
          node_LLM = defaulted_llm (Some \<lparr>given_BaseURL = None, given_Model = None, given_APIKeySecretRef = None\<rparr>)\<rparr>]\<rparr>\<rparr>"

definition before_each :: "fake_world \<Rightarrow> fake_world" where
  "before_each w =
     (case fst (get_swarm fake_platform test_key w) of
        Inl NotFound \<Rightarrow> w\<lparr>stored_swarms := fmupd test_key test_resource (stored_swarms w)\<rparr>
      | _ \<Rightarrow> w)"

definition reconcile_spec :: "fake_world \<Rightarrow> bool" where
  "reconcile_spec w =
     (case Reconcile fake_platform test_key (before_each w) of
        (None, w') \<Rightarrow>
          (case fst (get_deployment fake_platform (''default'', ''test-resource'' @ ''-ingest-agent'') w') of
             Inr d \<Rightarrow> True | Inl e \<Rightarrow> False)
      | (Some e, w') \<Rightarrow> False)"

text \<open>The cleanup fails if the resource is gone.\<close>

definition after_each :: "fake_world \<Rightarrow> fake_world option" where
  "after_each w =
     (case fst (get_swarm fake_platform test_key w) of
        Inl e \<Rightarrow> None
      | Inr swarm \<Rightarrow> Some (w\<lparr>stored_swarms := fmdrop test_key (stored_swarms w)\<rparr>))"

text \<open>It passes on a server without objects; before and after the controller has seen the resource.\<close>

definition new_fake_world :: fake_world where
  "new_fake_world = \<lparr>fake_topics = fmempty, stored_swarms = fmempty, stored_deployments = []\<rparr>"

lemma reconcile_spec_passes:
  "reconcile_spec new_fake_world"
  "reconcile_spec (snd (Reconcile fake_platform test_key (before_each new_fake_world)))"
  by code_simp+

lemma reconcile_spec_cleans:
  "map_option (\<lambda>w. fmlookup (stored_swarms w) test_key)
     (after_each (snd (Reconcile fake_platform test_key (before_each new_fake_world)))) = Some None"
  by code_simp

end
