(* ===== verification/OperatorProps.thy ===== *)
theory OperatorProps
  imports FakePlatform
begin

section \<open>Properties of the operator\<close>

text \<open>
  The swarm of examples/claims-processing/swarm.yaml, on which the properties are evaluated, and
  the properties of \<open>Reconcile\<close>.
\<close>

definition sample_llm :: LLMConfig where
  "sample_llm =
     \<lparr>llm_BaseURL = ''http://host.k3d.internal:8001/v1'', llm_Model = ''Qwen3.8-27B-4bit'',
      llm_APIKeySecretRef = Some \<lparr>secret_Name = ''llm-credentials'', secret_Key = ''api-key''\<rparr>\<rparr>"

definition sample_node :: "string \<Rightarrow> NodeType \<Rightarrow> string list \<Rightarrow> string list \<Rightarrow> AgentNode" where
  "sample_node name ty deps allowed =
     \<lparr>node_Name = name, node_Type = ty, node_Image = ''agent-runner:v1'',
      node_Instructions = ''Analyze the claim, then answer.'', node_DependsOn = deps,
      node_Replicas = 0,
      node_MCPServices =
        [\<lparr>ep_Name = ''claims-tools'', ep_URL = ''http://mcp-claims-server:8000/sse''\<rparr>],
      node_AllowedTools = allowed, node_LLM = sample_llm\<rparr>"

definition sample_swarm :: "string \<Rightarrow> AgentNode list \<Rightarrow> AgentSwarm" where
  "sample_swarm name nodes =
     \<lparr>swarm_Name = name, swarm_Namespace = ''default'',
      swarm_Spec = \<lparr>spec_Kafka = \<lparr>kafka_Brokers = [''host.k3d.internal:9092'']\<rparr>, spec_Nodes = nodes\<rparr>\<rparr>"

definition claims_nodes :: "AgentNode list" where
  "claims_nodes =
     [sample_node ''claims-ingest-agent'' NodeTypeWorker [] [''parse_claim_json''],
      sample_node ''fraud-detection-agent'' NodeTypeWorker [''claims-ingest-agent'']
        [''query_fraud_database'', ''calculate_risk_score''],
      sample_node ''coverage-verifier-agent'' NodeTypeWorker [''claims-ingest-agent'']
        [''get_policy_coverage'', ''get_deductible_balance''],
      sample_node ''claim-decision-agent'' NodeTypeWorker
        [''fraud-detection-agent'', ''coverage-verifier-agent''] [''synthesize_claim_summary''],
      sample_node ''hitl-payout-approval'' NodeTypeHITL [''claim-decision-agent''] []]"

definition claims_swarm :: AgentSwarm where
  "claims_swarm = sample_swarm ''claims-processing-swarm'' claims_nodes"

text \<open>The tests' platform with some swarms and nothing else.\<close>

definition fresh_world :: "AgentSwarm list \<Rightarrow> fake_world" where
  "fresh_world swarms =
     \<lparr>fake_topics = fmempty,
      stored_swarms = fmap_of_list (map (\<lambda>s. ((swarm_Namespace s, swarm_Name s), s)) swarms),
      stored_deployments = []\<rparr>"

definition claims_key :: object_key where
  "claims_key = (''default'', ''claims-processing-swarm'')"

definition claims_world :: fake_world where
  "claims_world = fresh_world [claims_swarm]"

lemma get_claims:
  "get_swarm fake_platform claims_key w = (Inr claims_swarm, w)" if "stored_swarms w = stored_swarms claims_world"
  using that
  by (simp add: fake_platform_def get_from_def claims_world_def fresh_world_def claims_key_def
      claims_swarm_def sample_swarm_def)

lemma claims_names_distinct: "distinct (map node_Name (spec_Nodes (swarm_Spec claims_swarm)))"
  by code_simp

lemma claims_reconciled:
  "fst (Reconcile fake_platform claims_key claims_world) = None"
  by code_simp

subsection \<open>The loop is its plan\<close>

text \<open>C18: Reconcile does what the plan of the swarm says and nothing more: after the resource
  was read and the admin client made, it performs, in order, for each node the creation of its
  input topic, then (for a Worker) of its compacted join-state topic if it has more than one
  dependency, and its Deployment, up to the first action that fails, whose error it returns; the
  admin client is closed on every one of these ways. A resource that is gone is no error.\<close>
theorem reconcile_is_its_plan:
  "Reconcile pf key w =
     (case get_swarm pf key w of
        (Inl NotFound, w1) \<Rightarrow> (None, w1)
      | (Inl e, w1) \<Rightarrow> (Some (ApiFailure e), w1)
      | (Inr swarm, w1) \<Rightarrow>
          (case new_admin pf (kafka_Brokers (spec_Kafka (swarm_Spec swarm))) w1 of
             (Some e, w2) \<Rightarrow> (Some (KafkaFailure e), w2)
           | (None, w2) \<Rightarrow>
               apsnd (\<lambda>w3. snd (CloseAdmin pf w3)) (perform_all pf swarm (plan swarm) w2)))"
  by (rule Reconcile_plan)

subsection \<open>The edges\<close>

lemma count_map_const: "count_list (map (\<lambda>_. y) xs) x = (if x = y then length xs else 0)"
  by (induction xs) auto

lemma count_downstream:
  assumes "distinct (map node_Name nodes)" "m \<in> set nodes"
  shows "count_list (downstream nodes name) (node_Name m) = count_list (node_DependsOn m) name"
  using assms
proof (induction nodes)
  case (Cons n nodes)
  have z: "count_list (downstream ns k) x = 0" if "x \<notin> node_Name ` set ns" for ns k x
    using that by (induction ns) (auto simp: downstream_def count_map_const)
  have h: "downstream (n # nodes) name
      = map (\<lambda>_. node_Name n) (filter (\<lambda>d. d = name) (node_DependsOn n)) @ downstream nodes name"
    by (simp add: downstream_def)
  have c: "length (filter (\<lambda>d. d = name) ds) = count_list ds name" for ds
    by (induction ds) auto
  show ?case
  proof (cases "node_Name m = node_Name n")
    case True
    have "m = n" using Cons.prems True by (metis distinct.simps(2) image_eqI list.set_map list.simps(9) set_ConsD)
    with Cons.prems show ?thesis by (simp add: h count_map_const c z)
  next
    case False
    with Cons show ?thesis by (auto simp: h count_map_const)
  qed
qed simp

lemma count_map_inj: "inj f \<Longrightarrow> count_list (map f xs) (f x) = count_list xs x"
  by (induction xs) (auto dest: injD)

lemma inj_input_topic: "inj (input_topic_name s)"
  by (auto simp: inj_def topic_name_inj)

text \<open>C19: The edges of the graph become topics exactly: when the names of the nodes differ, the
  output topics the reconciler computes for a node contain the input topic of another node as
  often as that node names it in dependsOn, so once for a dependency declared once, and never
  for a node that does not depend on it.\<close>
theorem outputs_follow_edges:
  assumes "distinct (map node_Name nodes)" "m \<in> set nodes"
  shows "count_list
      (map (string_of (inputTopics_of swarm nodes fmempty)) (strings_at (downstreamOf_of nodes fmempty) name))
      (input_topic_name swarm (node_Name m)) = count_list (node_DependsOn m) name"
  unfolding strings_at_downstreamOf
  using count_map_inj[OF inj_input_topic] count_downstream[OF assms]
  by (simp add: outputs_eq)

theorem outputs_follow_edges_witness:
  "count_list
      (map (string_of (inputTopics_of ''claims'' claims_nodes fmempty))
        (strings_at (downstreamOf_of claims_nodes fmempty) ''fraud-detection-agent''))
      (input_topic_name ''claims'' ''claim-decision-agent'') = 1"
  using outputs_follow_edges[of claims_nodes "claims_nodes ! 3" "''claims''" "''fraud-detection-agent''"]
  by (simp add: claims_nodes_def sample_node_def)

subsection \<open>What a reconciliation leaves behind\<close>

text \<open>C10: A reconciliation that reports no error has provisioned the whole swarm. On a Kafka and
  an API server that keep their contracts, with node names that differ: every node, a
  HumanInTheLoop gate too, has its input topic; every Worker with more than one dependency its
  join-state topic; and every Worker a Deployment with the replicas of the node (one when the
  node says 0) and exactly the pod template the controller builds from the node, its input
  topic, its output topics and its join-state topic.\<close>
theorem reconcile_provisions:
  assumes "operator_platform pf topics deployments"
    and "get_swarm pf key w = (Inr swarm, w1)"
    and "distinct (map node_Name (spec_Nodes (swarm_Spec swarm)))"
    and "Reconcile pf key w = (None, w')"
    and "node \<in> set (spec_Nodes (swarm_Spec swarm))"
  shows "fmlookup (topics w') (input_topic_name (swarm_Name swarm) (node_Name node)) \<noteq> None
    \<and> (node_Type node \<noteq> NodeTypeHITL \<longrightarrow>
         (is_fan_in node \<longrightarrow> fmlookup (topics w') (join_topic_of swarm node) \<noteq> None)
         \<and> (\<exists>d. fmlookup (deployments w') (swarm_Namespace swarm, deployment_name swarm node) = Some d
             \<and> is_desired swarm node (input_topic_name (swarm_Name swarm) (node_Name node))
                 (node_outputs swarm node) (join_topic_of swarm node) d))"
  by (rule operator_platform.Reconcile_provisions[OF assms(1,4,2,3,5)])

lemma claims_outcome:
  "Reconcile fake_platform claims_key claims_world
     = (None, snd (Reconcile fake_platform claims_key claims_world))"
  by (metis claims_reconciled prod.collapse)

theorem reconcile_provisions_witness:
  "fmlookup (fake_topics (snd (Reconcile fake_platform claims_key claims_world)))
     (input_topic_name ''claims-processing-swarm'' ''hitl-payout-approval'') \<noteq> None"
  using reconcile_provisions[OF fake_operator.operator_platform_axioms get_claims
      claims_names_distinct claims_outcome, of "claims_nodes ! 4"]
  by (simp add: claims_swarm_def sample_swarm_def claims_nodes_def sample_node_def)

text \<open>A reconciliation touches nothing that is not its own, whether it succeeds or fails
  halfway: a topic that is not one of the swarm's, and any topic that was already there, is as
  before; and so is every Deployment that is not one of the swarm's Workers'. (So a join-state
  topic that already exists without compaction stays so, and the Deployment of a node that was
  removed, or was turned into a HumanInTheLoop gate, keeps running.)\<close>
theorem reconcile_frame:
  assumes "operator_platform pf topics deployments"
    and "get_swarm pf key w = (Inr swarm, w1)"
    and "Reconcile pf key w = (r, w')"
  shows "(t \<notin> planned_topics swarm \<or> fmlookup (topics w) t \<noteq> None
      \<longrightarrow> fmlookup (topics w') t = fmlookup (topics w) t)
    \<and> (k \<notin> (\<lambda>n. (swarm_Namespace swarm, deployment_name swarm n)) ` planned_nodes swarm
      \<longrightarrow> fmlookup (deployments w') k = fmlookup (deployments w) k)"
  by (rule operator_platform.Reconcile_frame[OF assms(1,3,2)])

text \<open>The gate of the sample was a Worker before, and its Deployment is there.\<close>

definition gate_deployment :: deployment where
  "gate_deployment =
     \<lparr>dep_name = ''claims-processing-swarm-hitl-payout-approval'', dep_namespace = ''default'',
      dep_owner = None, dep_replicas = 1, dep_selector = fmempty,
      dep_template = \<lparr>template_labels = fmempty, template_containers = []\<rparr>\<rparr>"

definition gate_key :: object_key where
  "gate_key = (''default'', ''claims-processing-swarm-hitl-payout-approval'')"

definition gate_world :: fake_world where
  "gate_world = claims_world\<lparr>stored_deployments := [gate_deployment]\<rparr>"

theorem reconcile_frame_witness:
  "fmlookup (fake_deployments (snd (Reconcile fake_platform claims_key gate_world))) gate_key
     = Some gate_deployment"
proof -
  have "gate_key \<notin> (\<lambda>n. (swarm_Namespace claims_swarm, deployment_name claims_swarm n))
      ` planned_nodes claims_swarm"
    unfolding planned_nodes_eq by code_simp
  moreover have "fmlookup (fake_deployments gate_world) gate_key = Some gate_deployment"
    by code_simp
  ultimately show ?thesis
    using reconcile_frame[OF fake_operator.operator_platform_axioms get_claims,
        of gate_world "fst (Reconcile fake_platform claims_key gate_world)"]
    by (simp add: gate_world_def)
qed

text \<open>C33: Reconciling again changes nothing: when a reconciliation succeeded and the resource is
  unchanged, the next one that succeeds leaves every topic and every Deployment as it is.\<close>
theorem reconcile_idempotent:
  assumes "operator_platform pf topics deployments"
    and "get_swarm pf key w = (Inr swarm, w1)"
    and "distinct (map node_Name (spec_Nodes (swarm_Spec swarm)))"
    and "Reconcile pf key w = (None, w')"
    and "get_swarm pf key w' = (Inr swarm, w4)"
    and "Reconcile pf key w' = (None, w'')"
  shows "topics w'' = topics w' \<and> deployments w'' = deployments w'"
  by (rule operator_platform.Reconcile_again[OF assms(1,4,2,3,5,6)])

definition claims_done :: fake_world where
  "claims_done = snd (Reconcile fake_platform claims_key claims_world)"

theorem reconcile_idempotent_witness:
  "fake_deployments (snd (Reconcile fake_platform claims_key claims_done))
     = fake_deployments claims_done"
proof -
  have "stored_swarms claims_done = stored_swarms claims_world"
    unfolding claims_done_def by code_simp
  moreover have "fst (Reconcile fake_platform claims_key claims_done) = None"
    unfolding claims_done_def by code_simp
  ultimately show ?thesis
    using reconcile_idempotent[OF fake_operator.operator_platform_axioms get_claims
        claims_names_distinct claims_outcome get_claims]
    by (metis claims_done_def prod.collapse)
qed

subsection \<open>Names\<close>


text \<open>Within one swarm the names do keep apart: distinct nodes have distinct input topics,
  join-state topics and Deployments, and no input topic of any swarm is a join-state topic of
  any swarm.\<close>
theorem names_within_a_swarm:
  "(input_topic_name s a = input_topic_name s b \<longleftrightarrow> a = b)
   \<and> (join_topic_name s a = join_topic_name s b \<longleftrightarrow> a = b)
   \<and> (deployment_name swarm m = deployment_name swarm n \<longleftrightarrow> node_Name m = node_Name n)
   \<and> input_topic_name s a \<noteq> join_topic_name t b"
  by (simp add: topic_name_inj topic_kinds_disjoint deployment_name_inj)

end
