(* ===== verification/JoinLaws.thy ===== *)
theory JoinLaws
  imports Join
begin

section \<open>What the join state and its changelog keep\<close>

text \<open>
  The JSON form of \<open>joinState\<close> meets the contract \<open>codec\<close>. \<open>mergeJoinedData\<close> is
  characterised key by key (\<open>fmlookup_merge\<close>). A replay of the changelog keeps, for each
  key, what its last record says (\<open>replay_latest\<close>); so it does not depend on how the records
  are spread over partitions nor on compaction, and hydration waits for ever exactly when the
  last record of a partition is gone.
\<close>

subsection \<open>The JSON form\<close>

definition wf_received :: "(string, goobject) fmap \<Rightarrow> bool" where
  "wf_received f \<longleftrightarrow> fmpred (\<lambda>k d. valid_utf8 k \<and> wf_map d) f"

definition wf_joinState :: "joinState \<Rightarrow> bool" where
  "wf_joinState st \<longleftrightarrow> wf_received (entries (received st))"

lemma read_submaps_list:
  assumes "\<forall>(k, d) \<in> set kvs. wf_map d"
  shows "read_submaps m (map (\<lambda>(k, d). (k, ast_of (any_of_map d))) kvs) = Some (m ++\<^sub>f fmap_of_list (rev kvs))"
  using assms
proof (induction kvs arbitrary: m)
  case (Cons p kvs)
  obtain k d where p: "p = (k, d)" by (cases p)
  with Cons have "read_submaps m (map (\<lambda>(k, d). (k, ast_of (any_of_map d))) (p # kvs))
      = Some (fmupd k d m ++\<^sub>f fmap_of_list (rev kvs))"
    by (simp add: read_map_ast)
  then show ?case by (simp add: p fmap_ext fmlookup_of_list map_add_def)
qed simp

lemma sorted_list_mem: "(k, v) \<in> set (sorted_list_of_fmap m) \<longleftrightarrow> fmlookup m k = Some v"
  by (metis distinct_sorted_fmap map_of_eq_Some_iff map_of_sorted_list)

definition ast_received :: "(string, goobject) gomap \<Rightarrow> jast" where
  "ast_received r =
     (case r of None \<Rightarrow> ANull
      | Some f \<Rightarrow> AObj (map (\<lambda>(k, d). (k, ast_of (any_of_map d))) (sorted_list_of_fmap f)))"

lemma scans_received:
  assumes "wf_received (entries r)"
  shows "scans (case r of None \<Rightarrow> ''null''
      | Some f \<Rightarrow> enc_members (sorted_list_of_fmap (fmmap marshal_map f))) (ast_received r)"
proof (cases r)
  case None
  then show ?thesis by (simp add: ast_received_def scans_word)
next
  case (Some f)
  let ?l = "sorted_list_of_fmap f"
  have wf: "valid_utf8 k \<and> wf_map d" if "(k, d) \<in> set ?l" for k d
    using assms that by (auto simp: Some sorted_list_mem wf_received_def fmpred_iff)
  have "list_all2 (\<lambda>p q. fst p = fst q \<and> scans (snd p) (snd q))
      (map (apsnd marshal_map) ?l) (map (apsnd (\<lambda>d. ast_of (any_of_map d))) ?l)"
    by (simp add: list.rel_map, rule list.rel_refl_strong) (use wf in \<open>auto intro: scans_map\<close>)
  note lst = scans_members[OF this]
  have eq: "map (\<lambda>(k, a). (to_valid k, a)) (map (apsnd (\<lambda>d. ast_of (any_of_map d))) ?l)
      = map (\<lambda>(k, d). (k, ast_of (any_of_map d))) ?l"
    using wf by (auto simp: to_valid_valid)
  from lst[unfolded eq] show ?thesis by (simp add: Some ast_received_def sorted_list_of_fmap_map)
qed

lemma read_received_ast:
  assumes "wf_received (entries r)"
  shows "read_received None (ast_received r) = Some r"
proof (cases r)
  case (Some f)
  have "\<forall>(k, d) \<in> set (sorted_list_of_fmap f). wf_map d"
    using assms by (auto simp: Some sorted_list_mem wf_received_def fmpred_iff)
  from read_submaps_list[OF this, of fmempty] show ?thesis
    by (simp add: Some read_received_def ast_received_def fmap_of_rev_sorted)
qed (simp add: read_received_def ast_received_def)

lemma received_name: "field_named ''received'' ''received''" "to_valid ''received'' = ''received''"
  by code_simp+

lemma unmarshal_marshal_joinState:
  assumes "wf_joinState st"
  shows "unmarshal_joinState (marshal_joinState st) = Some st"
proof -
  have wf: "wf_received (entries (received st))" using assms by (simp add: wf_joinState_def)
  have "parse (marshal_joinState st) = Some (AObj [(''received'', ast_received (received st))])"
    unfolding marshal_joinState_def
    using parse_members[of "[(''received'', _)]" "[(''received'', ast_received (received st))]"]
      scans_received[OF wf] by (simp add: received_name)
  then show ?thesis
    using read_received_ast[OF wf]
    by (simp add: unmarshal_joinState_def read_struct_def read_joinState_field_def received_name
        zero_joinState_def)
qed

lemma read_submaps_wf:
  "read_submaps m kvs = Some f \<Longrightarrow> wf_received m \<Longrightarrow> \<forall>(k, a) \<in> set kvs. valid_utf8 k \<and> wf_ast a
   \<Longrightarrow> wf_received f"
proof (induction m kvs rule: read_submaps.induct)
  case (2 m k a kvs)
  then obtain d where d: "read_map None a = Some d" by (auto split: option.splits)
  with 2 have "wf_map d" by (auto intro: read_map_wf)
  with 2 d show ?case by (auto simp: wf_received_def)
qed simp

lemma read_received_wf:
  "read_received old a = Some r \<Longrightarrow> wf_ast a \<Longrightarrow> wf_received (entries old) \<Longrightarrow> wf_received (entries r)"
  by (cases a) (auto simp: read_received_def wf_received_def[of fmempty] intro: read_submaps_wf)

lemma unmarshal_joinState_wf: "unmarshal_joinState s = Some st \<Longrightarrow> wf_joinState st"
proof -
  assume u: "unmarshal_joinState s = Some st"
  have zero: "wf_joinState zero_joinState"
    by (simp add: wf_joinState_def zero_joinState_def wf_received_def)
  from u obtain a where a: "parse s = Some a" "read_struct read_joinState_field zero_joinState a = Some st"
    by (auto simp: unmarshal_joinState_def split: option.splits)
  have wa: "wf_ast a" by (rule parse_wf[OF a(1)])
  show ?thesis
  proof (cases a)
    case (AObj kvs)
    with a(2) have r: "read_members read_joinState_field zero_joinState kvs = Some st"
      by (simp add: read_struct_def)
    show ?thesis
      by (rule read_members_inv[where P = wf_joinState, OF r zero])
        (use wa AObj in \<open>fastforce simp: read_joinState_field_def wf_joinState_def
          intro: read_received_wf split: if_splits\<close>)
  qed (use a(2) zero in \<open>auto simp: read_struct_def\<close>)
qed

interpretation joinState_codec: codec marshal_joinState unmarshal_joinState wf_joinState
  by unfold_locales (auto intro: unmarshal_marshal_joinState unmarshal_joinState_wf)

lemma marshal_joinState_nonempty [simp]: "marshal_joinState st \<noteq> []"
  by (simp add: marshal_joinState_def enc_members_def)

subsection \<open>Merging\<close>

lemma add_missing_lookup:
  "fmlookup (add_missing ks d m) k =
     (case fmlookup m k of Some v \<Rightarrow> Some v | None \<Rightarrow> if k \<in> set ks then fmlookup d k else None)"
  by (induction ks arbitrary: m) (auto split: option.splits)

lemma add_missing_add:
  "iterates ks d \<Longrightarrow> add_missing ks d m = d ++\<^sub>f m"
  by (rule fmap_ext) (auto simp: add_missing_lookup iterates_set split: option.splits
      intro: fmdomI)

text \<open>The value the first of the sources that has the key gives it.\<close>

fun first_given :: "(string, goobject) fmap \<Rightarrow> string list \<Rightarrow> string \<Rightarrow> json option" where
  "first_given rcv [] k = None"
| "first_given rcv (s # ss) k =
     (case fmlookup rcv s of
        None \<Rightarrow> first_given rcv ss k
      | Some d \<Rightarrow> (case fmlookup (entries d) k of Some v \<Rightarrow> Some v | None \<Rightarrow> first_given rcv ss k))"

definition good_order :: "(string fset \<Rightarrow> string list) \<Rightarrow> bool" where
  "good_order ord \<longleftrightarrow> (\<forall>S. distinct (ord S) \<and> fset_of_list (ord S) = S)"

lemma good_order_iterates: "good_order ord \<Longrightarrow> iterates (ord (fmdom m)) m"
  by (simp add: good_order_def iterates_def)

lemma visits_all_good: "visits_all svc \<Longrightarrow> good_order (visit svc tr)"
  by (simp add: visits_all_def good_order_def)

lemma fmlookup_merge_sources:
  assumes "good_order ord" "distinct ss"
  shows "fmlookup (merge_sources ord ss rcv m) k =
     (if k \<in> set ss \<and> fmlookup rcv k \<noteq> None then map_option any_of_map (fmlookup rcv k)
      else case fmlookup m k of Some v \<Rightarrow> Some v | None \<Rightarrow> first_given rcv ss k)"
  using assms(2)
proof (induction ss arbitrary: m)
  case (Cons s ss)
  show ?case
  proof (cases "fmlookup rcv s")
    case (Some d)
    have "fmlookup (add_missing (ord (fmdom (entries d))) (entries d) (fmupd s (any_of_map d) m)) k
        = (if k = s then Some (any_of_map d) else case fmlookup m k of Some v \<Rightarrow> Some v
           | None \<Rightarrow> fmlookup (entries d) k)"
      by (auto simp: add_missing_add good_order_iterates[OF assms(1)] split: option.splits)
    with Some Cons show ?thesis by (auto split: option.splits)
  next
    case None
    with Cons show ?thesis by (auto split: option.split)
  qed
qed (simp split: option.splits)

lemma fmlookup_merge:
  assumes "good_order ord"
  shows "fmlookup (mergeJoinedData ord st) k =
     (case fmlookup (entries (received st)) k of
        Some d \<Rightarrow> Some (any_of_map d)
      | None \<Rightarrow> first_given (entries (received st)) (ord (fmdom (entries (received st)))) k)"
  using assms good_order_iterates[OF assms, of "entries (received st)"]
  by (auto simp: mergeJoinedData_def Let_def fmlookup_merge_sources iterates_distinct iterates_set
      split: option.splits)

lemma first_given_agree:
  assumes "\<And>s d v'. fmlookup rcv s = Some d \<Longrightarrow> fmlookup (entries d) k = Some v' \<Longrightarrow> v' = v"
    and "s \<in> set ss" "fmlookup rcv s = Some d" "fmlookup (entries d) k = Some v"
  shows "first_given rcv ss k = Some v"
  using assms(2) by (induction ss) (auto split: option.splits simp: assms(3,4) dest: assms(1))

lemma first_given_None:
  "first_given rcv ss k = None \<longleftrightarrow>
     (\<forall>s \<in> set ss. \<forall>d. fmlookup rcv s = Some d \<longrightarrow> fmlookup (entries d) k = None)"
  by (induction ss) (auto split: option.splits)

subsection \<open>Replaying the changelog\<close>

lemma replay_simps [simp]:
  "replay js [] = js"
  "replay js (r # rs) = replay (applyHydratedRecord js r) rs"
  "replay js (rs @ rs') = replay (replay js rs) rs'"
  by (simp_all add: replay_def)

text \<open>What the value of a record makes of its key, and the records that can be read.\<close>

definition value_state :: "string option \<Rightarrow> joinState option" where
  "value_state val = (case val of None \<Rightarrow> None | Some v \<Rightarrow> if v = [] then None else unmarshal_joinState v)"

definition readable :: "string \<times> string option \<Rightarrow> bool" where
  "readable r \<longleftrightarrow> snd r = None \<or> snd r = Some [] \<or> (\<exists>v st. snd r = Some v \<and> unmarshal_joinState v = Some st)"

lemma apply_lookup:
  assumes "readable r"
  shows "fmlookup (applyHydratedRecord js r) k = (if k = fst r then value_state (snd r) else fmlookup js k)"
  using assms by (auto simp: applyHydratedRecord_def value_state_def readable_def split: option.splits)

lemma apply_other: "k \<noteq> fst r \<Longrightarrow> fmlookup (applyHydratedRecord js r) k = fmlookup js k"
  by (auto simp: applyHydratedRecord_def split: option.splits)

text \<open>The value the last record of a key leaves, \<open>None\<close> when there is none.\<close>

fun latest :: "string \<Rightarrow> (string \<times> string option) list \<Rightarrow> joinState option \<Rightarrow> joinState option" where
  "latest k [] d = d"
| "latest k (r # rs) d = latest k rs (if fst r = k then value_state (snd r) else d)"

lemma latest_append: "latest k (rs @ rs') d = latest k rs' (latest k rs d)"
  by (induction rs arbitrary: d) auto

lemma latest_filter: "latest k (filter (\<lambda>r. fst r = k) rs) d = latest k rs d"
  by (induction rs arbitrary: d) auto

lemma latest_none: "\<forall>r \<in> set rs. fst r \<noteq> k \<Longrightarrow> latest k rs d = d"
  by (induction rs arbitrary: d) auto

theorem replay_latest:
  assumes "\<forall>r \<in> set rs. readable r"
  shows "fmlookup (replay js rs) k = latest k rs (fmlookup js k)"
  using assms by (induction rs arbitrary: js) (auto simp: apply_lookup intro: arg_cong)

lemma replay_eqI:
  assumes "\<forall>r \<in> set rs. readable r" "\<forall>r \<in> set rs'. readable r"
    and "\<And>k. latest k rs None = latest k rs' None"
  shows "replay fmempty rs = replay fmempty rs'"
  using assms by (intro fmap_ext) (simp add: replay_latest)

lemma readable_written: "wf_joinState st \<Longrightarrow> readable (k, Some (marshal_joinState st))"
  using joinState_codec.dec_enc by (auto simp: readable_def)

lemma readable_tombstone [simp]: "readable (k, None)"
  by (simp add: readable_def)

lemma apply_written:
  "wf_joinState st \<Longrightarrow> applyHydratedRecord js (k, Some (marshal_joinState st)) = fmupd k st js"
  by (simp add: applyHydratedRecord_def joinState_codec.dec_enc)

lemma apply_tombstone [simp]: "applyHydratedRecord js (k, None) = fmdrop k js"
  by (simp add: applyHydratedRecord_def)

subsection \<open>Partitions and compaction\<close>

text \<open>
  A log of a partition: its records with their offsets, counted from 0. \<open>log_partition\<close> is
  the partition that still holds all of them, \<open>kept_partition\<close> one that holds the records
  whose offsets satisfy \<open>keep\<close>; neither fails nor is cancelled.
\<close>

definition records_from :: "nat \<Rightarrow> (string \<times> string option) list \<Rightarrow> (nat \<times> string \<times> string option) list" where
  "records_from n rs = zip [n..<n + length rs] rs"

definition kept_partition :: "(nat \<Rightarrow> bool) \<Rightarrow> (string \<times> string option) list \<Rightarrow> partition" where
  "kept_partition keep rs =
     \<lparr>newest_offset = Inr (int (length rs)), consume_error = None,
      inputs = map (\<lambda>(i, k, v). Record (int i) k v) (filter (\<lambda>(i, r). keep i) (records_from 0 rs))\<rparr>"

definition kept_records :: "(nat \<Rightarrow> bool) \<Rightarrow> (string \<times> string option) list \<Rightarrow> (string \<times> string option) list" where
  "kept_records keep rs = map snd (filter (\<lambda>(i, r). keep i) (records_from 0 rs))"

lemma hydrate_loop_before:
  assumes "\<forall>(i, r) \<in> set ps. int i + 1 < newest"
  shows "hydrate_loop newest js (map (\<lambda>(i, k, v). Record (int i) k v) ps @ ins)
    = hydrate_loop newest (replay js (map snd ps)) ins"
  using assms by (induction ps arbitrary: js) auto

lemma records_from_snoc: "records_from n (rs @ [r]) = records_from n rs @ [(n + length rs, r)]"
  by (simp add: records_from_def)

lemma records_from_bound: "(i, r) \<in> set (records_from n rs) \<Longrightarrow> i < n + length rs"
  by (auto simp: records_from_def set_zip)

theorem hydrate_kept:
  "hydratePartition (kept_partition keep rs) js =
     (if rs = [] \<or> keep (length rs - 1) then Hydrated (replay js (kept_records keep rs)) else Waiting)"
proof (cases rs rule: rev_cases)
  case Nil
  then show ?thesis by (simp add: hydratePartition_def kept_partition_def kept_records_def records_from_def)
next
  case (snoc ys r)
  let ?ps = "filter (\<lambda>(i, r). keep i) (records_from 0 ys)"
  have b: "\<forall>(i, r) \<in> set ?ps. int i + 1 < int (length rs)"
    using snoc by (auto dest: records_from_bound)
  show ?thesis
    using hydrate_loop_before[OF b, of js] hydrate_loop_before[OF b, of js "[]"] snoc
    by (cases r) (simp add: hydratePartition_def kept_partition_def kept_records_def records_from_snoc)
qed

end
