(* ===== verification/MessageProps.thy ===== *)
theory MessageProps
  imports Config JoinLaws
begin

section \<open>Properties of the configuration and the message format\<close>

text \<open>
  What \<open>splitCSV\<close> reads back, what a node makes of the messages of another one and of
  payloads from outside, and which correlation IDs it chooses.
\<close>

subsection \<open>Lists in the environment\<close>

text \<open>A list the controller joins with commas is read back by splitCSV as the same list
  exactly when every item is non-empty, holds no comma and has no space around it.\<close>
theorem splitCSV_reads_back:
  "splitCSV (join_sep '','' xs) = xs \<longleftrightarrow> (\<forall>x \<in> set xs. csv_item x)"
  by (metis splitCSV_items splitCSV_join)

theorem splitCSV_reads_back_witness:
  "splitCSV (join_sep '','' [''fraud-detection-agent'', ''coverage-verifier-agent''])
     = [''fraud-detection-agent'', ''coverage-verifier-agent'']"
proof -
  have "\<forall>x \<in> set [''fraud-detection-agent'', ''coverage-verifier-agent'']. csv_item x"
    by code_simp
  then show ?thesis using splitCSV_reads_back by blast
qed

subsection \<open>Envelopes\<close>

text \<open>C24: A node reads an envelope that another node published as exactly the envelope that was
  sent: the same correlation ID, source and data, as long as the strings are valid UTF-8, the
  correlation ID is not empty and the data is not nil.\<close>
theorem envelope_round_trip:
  assumes "wf_envelope e" "correlationID e \<noteq> []" "data e \<noteq> None"
  shows "parseOrWrapEnvelope ord buf (marshal_envelope e) = e"
  using assms by (simp add: parseOrWrapEnvelope_def unmarshal_marshal_envelope)

definition sample_envelope :: envelope where
  "sample_envelope =
     \<lparr>correlationID = ''CLM-1'', source = ''fraud-detection-agent'',
      data = Some (fmap_of_list [(''risk'', JNum ''0.25''), (''note'', JStr ''a <b>''),
        (''flags'', JArr [JBool True, JNull])])\<rparr>"

theorem envelope_round_trip_witness:
  "parseOrWrapEnvelope (\<lambda>_. []) [] (marshal_envelope sample_envelope) = sample_envelope"
proof -
  have "wf_envelope sample_envelope" "correlationID sample_envelope \<noteq> []"
    "data sample_envelope \<noteq> None"
    by code_simp+
  then show ?thesis by (rule envelope_round_trip)
qed

lemma raw_key [simp]: "\<not> has_suffix ''raw'' ''_id''"
  by code_simp

text \<open>A payload that is no JSON object (text, a number, a list, broken JSON) is never lost nor
  rejected: it is kept verbatim under the key \<open>raw\<close> of a fresh envelope without a source,
  whose correlation ID is the random one.\<close>
theorem other_payloads_are_wrapped:
  assumes "unmarshal_map payload = None"
  shows "parseOrWrapEnvelope ord buf payload =
    \<lparr>correlationID = hex_encode buf, source = [], data = Some (fmupd ''raw'' (JStr payload) fmempty)\<rparr>"
proof -
  have "unmarshal_envelope payload = None"
    using assms
    by (auto simp: unmarshal_map_def unmarshal_envelope_def read_struct_def read_map_def
        split: option.splits jast.splits)
  moreover have k: "string_at (Some (fmupd ''raw'' (JStr payload) fmempty)) k = None" if "k \<noteq> ''raw''" for k
    using that by (simp add: string_at_def)
  have "first_string (Some (fmupd ''raw'' (JStr payload) fmempty)) ks = None" if "''raw'' \<notin> set ks" for ks
    using that k by (induction ks) auto
  from this[of "[''correlation_id'', ''id'']"] this[of "filter (\<lambda>k. has_suffix k ''_id'')
      (ord (fmdom (entries (Some (fmupd ''raw'' (JStr payload) fmempty)))))"]
  have "newCorrelationID ord buf (Some (fmupd ''raw'' (JStr payload) fmempty)) = hex_encode buf"
    by (simp add: newCorrelationID_def raw_key)
  ultimately show ?thesis using assms by (simp add: parseOrWrapEnvelope_def Let_def)
qed

theorem other_payloads_are_wrapped_witness:
  "data (parseOrWrapEnvelope (\<lambda>_. []) [] ''loss report, not JSON'')
     = Some (fmupd ''raw'' (JStr ''loss report, not JSON'') fmempty)"
proof -
  have "unmarshal_map ''loss report, not JSON'' = None" by code_simp
  from other_payloads_are_wrapped[OF this] show ?thesis by simp
qed

subsection \<open>Correlation IDs\<close>

lemma first_string_None: "first_string d ks = None \<longleftrightarrow> (\<forall>k \<in> set ks. string_at d k = None)"
  by (induction ks) (auto split: option.splits)

lemma first_string_Some: "first_string d ks = Some s \<Longrightarrow> \<exists>k \<in> set ks. string_at d k = Some s"
  by (induction ks) (auto split: option.splits)

lemma string_at_dom: "string_at d k = Some s \<Longrightarrow> k |\<in>| fmdom (entries d)"
  by (auto simp: string_at_def split: option.splits intro: fmdomI)

lemma good_order_mem: "good_order ord \<Longrightarrow> k \<in> set (ord S) \<longleftrightarrow> k |\<in>| S"
  by (metis fset_of_list_elem good_order_def)

text \<open>The keys the search by suffix can take its answer from.\<close>

definition id_key :: "goobject \<Rightarrow> string \<Rightarrow> bool" where
  "id_key d k \<longleftrightarrow> has_suffix k ''_id'' \<and> string_at d k \<noteq> None"

text \<open>The correlation ID of a fresh payload: the string under \<open>correlation_id\<close>, else the
  one under \<open>id\<close>, else the string under some key that ends in \<open>_id\<close>, else the random one,
  which is used only when no such string is there.\<close>
theorem correlation_id_choice:
  assumes "good_order ord"
  shows "case string_at d ''correlation_id'' of
      Some s \<Rightarrow> newCorrelationID ord buf d = s
    | None \<Rightarrow> (case string_at d ''id'' of
        Some s \<Rightarrow> newCorrelationID ord buf d = s
      | None \<Rightarrow>
          (if \<exists>k. id_key d k
           then \<exists>k. id_key d k \<and> string_at d k = Some (newCorrelationID ord buf d)
           else newCorrelationID ord buf d = hex_encode buf))"
proof (cases "first_string d [''correlation_id'', ''id'']")
  case (Some s)
  then show ?thesis by (auto simp: newCorrelationID_def split: option.splits)
next
  case None
  let ?ks = "filter (\<lambda>k. has_suffix k ''_id'') (ord (fmdom (entries d)))"
  have mem: "id_key d k \<longleftrightarrow> k \<in> set ?ks \<and> string_at d k \<noteq> None" for k
    using good_order_mem[OF assms] by (auto simp: id_key_def dest: string_at_dom)
  show ?thesis
  proof (cases "first_string d ?ks")
    case (Some s)
    then show ?thesis
      using None first_string_Some[OF Some] mem
      by (force simp: newCorrelationID_def split: option.splits)
  next
    case inner: None
    then have "\<not> id_key d k" for k using mem by (simp add: first_string_None)
    then show ?thesis using None inner by (auto simp: newCorrelationID_def split: option.splits)
  qed
qed

definition claim_payload :: goobject where
  "claim_payload =
     Some (fmap_of_list [(''claim_id'', JStr ''CLM-1''), (''policy_id'', JStr ''POL-9'')])"

definition sorted_visit :: "string fset \<Rightarrow> string list" where
  "sorted_visit S = sorted_list_of_fset S"

definition reversed_visit :: "string fset \<Rightarrow> string list" where
  "reversed_visit S = rev (sorted_list_of_fset S)"

lemma good_visits: "good_order sorted_visit" "good_order reversed_visit"
  by (auto simp: good_order_def sorted_visit_def reversed_visit_def sorted_list_of_fset.rep_eq
      fset_eq_iff fset_of_list_elem)

theorem correlation_id_choice_witness:
  "\<exists>k. id_key claim_payload k
     \<and> string_at claim_payload k = Some (newCorrelationID sorted_visit [] claim_payload)"
proof -
  have "string_at claim_payload ''correlation_id'' = None" "string_at claim_payload ''id'' = None"
    "id_key claim_payload ''claim_id''"
    by code_simp+
  then have "\<exists>k. id_key claim_payload k" "string_at claim_payload ''correlation_id'' = None"
    "string_at claim_payload ''id'' = None" by blast+
  then show ?thesis
    using correlation_id_choice[OF good_visits(1), of claim_payload "[]"]
    by (simp only: option.case if_True)
qed

text \<open>When at most one key of the payload ends in \<open>_id\<close> and holds a string, the
  correlation ID is stable: it does not depend on the order in which Go visits the map.\<close>
theorem correlation_id_stable:
  assumes "good_order ord" "good_order ord'"
    and "\<And>k k'. id_key d k \<Longrightarrow> id_key d k' \<Longrightarrow> k = k'"
  shows "newCorrelationID ord buf d = newCorrelationID ord' buf d"
proof -
  have f: "first_string d (filter (\<lambda>k. has_suffix k ''_id'') (o1 (fmdom (entries d)))) =
      (if \<exists>k. id_key d k then string_at d (THE k. id_key d k) else None)" if "good_order o1" for o1
  proof -
    let ?ks = "filter (\<lambda>k. has_suffix k ''_id'') (o1 (fmdom (entries d)))"
    have mem: "id_key d k \<longleftrightarrow> k \<in> set ?ks \<and> string_at d k \<noteq> None" for k
      using good_order_mem[OF that] by (auto simp: id_key_def dest: string_at_dom)
    show ?thesis
    proof (cases "first_string d ?ks")
      case (Some s)
      then obtain k where k: "id_key d k" "string_at d k = Some s"
        using first_string_Some mem by (metis option.distinct(1))
      then have "(THE k. id_key d k) = k" using assms(3) by blast
      with k Some show ?thesis by auto
    next
      case None
      then have "\<not> id_key d k" for k using mem by (simp add: first_string_None)
      with None show ?thesis by simp
    qed
  qed
  show ?thesis unfolding newCorrelationID_def f[OF assms(1)] f[OF assms(2)] by (rule refl)
qed

theorem correlation_id_stable_witness:
  "newCorrelationID sorted_visit [] (Some (fmupd ''claim_id'' (JStr ''CLM-1'') fmempty))
     = newCorrelationID reversed_visit [] (Some (fmupd ''claim_id'' (JStr ''CLM-1'') fmempty))"
proof (rule correlation_id_stable[OF good_visits])
  fix k k'
  assume "id_key (Some (fmupd ''claim_id'' (JStr ''CLM-1'') fmempty)) k"
    "id_key (Some (fmupd ''claim_id'' (JStr ''CLM-1'') fmempty)) k'"
  then show "k = k'" by (auto simp: id_key_def string_at_def split: if_splits)
qed

text \<open>With two such keys it is not: a claim that carries a \<open>claim_id\<close> and a
  \<open>policy_id\<close>, as the repository's own example payload does, is given one or the other
  depending on the order of the visit, so the same payload consumed again (after a crash, or by
  another root node) can run under another correlation ID.\<close>
theorem correlation_id_unstable:
  "newCorrelationID sorted_visit [] claim_payload = ''CLM-1''
   \<and> newCorrelationID reversed_visit [] claim_payload = ''POL-9''"
  by code_simp

end
