(* ===== verification/JoinProps.thy ===== *)
theory JoinProps
  imports JoinLaws
begin

section \<open>Properties of the join state and its changelog\<close>

text \<open>
  What a completed join hands to the agent, what a restarted runner finds of it in the
  changelog, and what hydration makes of partitions and of compaction.
\<close>

subsection \<open>Merging\<close>

text \<open>C31: The data of a completed join: every source's payload is there under the source's own
  name, whatever the other payloads contain; a key that is no source's name has a value that one
  of the sources gave it, and exactly the one when the sources that give it agree; and there are
  no other keys. This holds for every order in which Go visits the maps.\<close>
theorem merge_contents:
  assumes "good_order ord" "received st = Some rcv"
  shows "(\<forall>s d. fmlookup rcv s = Some d \<longrightarrow> fmlookup (mergeJoinedData ord st) s = Some (any_of_map d))
    \<and> (\<forall>k v. fmlookup rcv k = None \<longrightarrow> fmlookup (mergeJoinedData ord st) k = Some v
         \<longrightarrow> (\<exists>s d. fmlookup rcv s = Some d \<and> fmlookup (entries d) k = Some v))
    \<and> (\<forall>k v s d. fmlookup rcv k = None \<longrightarrow> fmlookup rcv s = Some d \<longrightarrow> fmlookup (entries d) k = Some v
         \<longrightarrow> (\<forall>s' d' v'. fmlookup rcv s' = Some d' \<longrightarrow> fmlookup (entries d') k = Some v' \<longrightarrow> v' = v)
         \<longrightarrow> fmlookup (mergeJoinedData ord st) k = Some v)"
proof -
  have mem: "s \<in> set (ord (fmdom rcv)) \<longleftrightarrow> fmlookup rcv s \<noteq> None" for s
    using iterates_set[OF good_order_iterates[OF assms(1)]] .
  have given: "\<exists>s d. fmlookup rcv s = Some d \<and> fmlookup (entries d) k = Some v"
    if "first_given rcv ss k = Some v" for ss k v
    using that by (induction ss) (auto split: option.splits)
  have look: "fmlookup (mergeJoinedData ord st) k =
      (case fmlookup rcv k of Some d \<Rightarrow> Some (any_of_map d)
       | None \<Rightarrow> first_given rcv (ord (fmdom rcv)) k)" for k
    using fmlookup_merge[OF assms(1), of st k] by (simp only: assms(2) entries_simps)
  show ?thesis
  proof (intro conjI allI impI)
    fix k v s d
    assume h: "fmlookup rcv k = None" "fmlookup rcv s = Some d" "fmlookup (entries d) k = Some v"
      "\<forall>s' d' v'. fmlookup rcv s' = Some d' \<longrightarrow> fmlookup (entries d') k = Some v' \<longrightarrow> v' = v"
    have "first_given rcv (ord (fmdom rcv)) k = Some v"
      by (rule first_given_agree[OF _ _ h(2,3)]) (use h mem in auto)
    then show "fmlookup (mergeJoinedData ord st) k = Some v" using h(1) by (simp add: look)
  qed (use given look in auto)
qed

definition two_contributions :: joinState where
  "two_contributions =
     \<lparr>received = Some (fmap_of_list
        [(''fraud'', Some (fmap_of_list [(''score'', JNum ''1''), (''fraud_only'', JBool True)])),
         (''coverage'', Some (fmap_of_list [(''score'', JNum ''2'')]))])\<rparr>"

lemma sorted_visit_good: "good_order sorted_list_of_fset"
  by (auto simp: good_order_def sorted_list_of_fset.rep_eq fset_eq_iff fset_of_list_elem)

lemma reversed_visit_good: "good_order (\<lambda>S. rev (sorted_list_of_fset S))"
  by (auto simp: good_order_def sorted_list_of_fset.rep_eq fset_eq_iff fset_of_list_elem)

theorem merge_contents_witness:
  "fmlookup (mergeJoinedData sorted_list_of_fset two_contributions) ''coverage''
     = Some (JObj (fmap_of_list [(''score'', JNum ''2'')]))"
proof -
  have r: "received two_contributions = Some (entries (received two_contributions))"
    by (simp add: two_contributions_def)
  have "fmlookup (entries (received two_contributions)) ''coverage'' = Some (Some (fmap_of_list [(''score'', JNum ''2'')]))"
    by (simp add: two_contributions_def)
  from merge_contents[OF sorted_visit_good r, THEN conjunct1, rule_format, OF this]
  show ?thesis by (simp only: any_of_map_def option.case)
qed

text \<open>When two sources give a key different values, the flattened value depends on the order
  in which Go visits the map, so two runs of the same join can hand different data to the agent.\<close>
theorem merge_conflict_unstable:
  "fmlookup (mergeJoinedData sorted_list_of_fset two_contributions) ''score'' = Some (JNum ''2'')
   \<and> fmlookup (mergeJoinedData (\<lambda>S. rev (sorted_list_of_fset S)) two_contributions) ''score''
       = Some (JNum ''1'')"
  by code_simp

subsection \<open>The changelog\<close>

text \<open>What is written can be read: when Kafka has acknowledged the write of a join state, a
  replay of the changelog, as a restarted runner does it, gives exactly that state for the
  correlation ID and leaves the other joins as they were; and a tombstone the broker stored takes
  the join away.\<close>
theorem changelog_keeps_writes:
  assumes "wf_joinState st"
    and "writeJoinState svc topic cid st tr = (Acked, tr1)"
    and "tombstoneJoinState svc topic cid tr1 = (a, tr2)" "stored a"
  shows "replay js (topic_records topic tr1) = fmupd cid st (replay js (topic_records topic tr))
    \<and> replay js (topic_records topic tr2) = fmdrop cid (replay js (topic_records topic tr))"
proof -
  have "topic_records topic tr1 = topic_records topic tr @ [(cid, Some (marshal_joinState st))]"
    "topic_records topic tr2 = topic_records topic tr1 @ [(cid, None)]"
    using assms(2-4)
    by (auto simp: writeJoinState_def tombstoneJoinState_def send_message_def Let_def)
  then show ?thesis by (auto simp: apply_written[OF assms(1)] intro: fmap_ext)
qed

definition willing :: services where
  "willing =
     \<lparr>answer_send = (\<lambda>tr m. Acked), answer_http = (\<lambda>tr r. Unreachable ''''),
      answer_tool = (\<lambda>tr c n d. ToolFailed ''''), bad_url = (\<lambda>u. None), json_error = (\<lambda>s. ''''),
      visit = (\<lambda>tr. sorted_list_of_fset), random_bytes = (\<lambda>tr i. CHR ''0'')\<rparr>"

theorem changelog_keeps_writes_witness:
  "replay fmempty (topic_records ''j'' [Sent \<lparr>pm_topic = ''j'', pm_key = ''CLM-1'',
       pm_value = Some (marshal_joinState two_contributions)\<rparr> Acked])
     = fmupd ''CLM-1'' two_contributions fmempty"
proof -
  have w: "wf_joinState two_contributions" by code_simp
  have a: "writeJoinState willing ''j'' ''CLM-1'' two_contributions [] = (Acked, [Sent \<lparr>pm_topic = ''j'',
      pm_key = ''CLM-1'', pm_value = Some (marshal_joinState two_contributions)\<rparr> Acked])"
    by (simp add: writeJoinState_def send_message_def willing_def)
  show ?thesis
    using changelog_keeps_writes[OF w a, of Acked _ fmempty]
    by (simp add: tombstoneJoinState_def send_message_def willing_def)
qed

subsection \<open>Partitions\<close>

lemma replay_key:
  "fmlookup js k = fmlookup js' k
   \<Longrightarrow> fmlookup (replay js rs) k = fmlookup (replay js' (filter (\<lambda>r. fst r = k) rs)) k"
proof (induction rs arbitrary: js js')
  case (Cons r rs)
  show ?case
  proof (cases "fst r = k")
    case True
    then have "fmlookup (applyHydratedRecord js r) k = fmlookup (applyHydratedRecord js' r) k"
      using Cons.prems by (auto simp: applyHydratedRecord_def split: option.splits)
    with True Cons.IH show ?thesis by simp
  next
    case False
    then have "fmlookup (applyHydratedRecord js r) k = fmlookup js' k"
      using Cons.prems by (simp add: apply_other)
    with False Cons.IH show ?thesis by simp
  qed
qed simp

lemma replay_concat:
  "replay js (concat rss) = fold (\<lambda>rs js. replay js rs) rss js"
  by (induction rss arbitrary: js) auto

lemma kept_all: "kept_records (\<lambda>_. True) rs = rs"
  by (simp add: kept_records_def records_from_def)

lemma hydrate_whole: "hydratePartition (kept_partition (\<lambda>_. True) rs) js = Hydrated (replay js rs)"
  by (simp add: hydrate_kept kept_all)

lemma hydrate_whole_partitions:
  "hydrate_partitions (map (kept_partition (\<lambda>_. True)) rss) js = Hydrated (replay js (concat rss))"
  by (induction rss arbitrary: js) (auto simp: hydrate_whole)

definition spread :: "nat \<Rightarrow> (string \<Rightarrow> nat) \<Rightarrow> (string \<times> string option) list
    \<Rightarrow> (string \<times> string option) list list" where
  "spread n part rs = map (\<lambda>i. filter (\<lambda>r. part (fst r) = i) rs) [0..<n]"

lemma filter_spread:
  "part k < n \<Longrightarrow> filter (\<lambda>r. fst r = k) (concat (spread n part rs)) = filter (\<lambda>r. fst r = k) rs"
proof (induction n)
  case (Suc n)
  have s: "concat (spread (Suc n) part rs) = concat (spread n part rs) @ filter (\<lambda>r. part (fst r) = n) rs"
    by (simp add: spread_def)
  have none: "filter (\<lambda>r. fst r = k) (concat (spread m part rs)) = []" if "m \<le> part k" for m
    using that by (auto simp: spread_def filter_empty_conv)
  show ?case
  proof (cases "part k = n")
    case True
    have "filter (\<lambda>r. fst r = k) (filter (\<lambda>r. part (fst r) = n) rs) = filter (\<lambda>r. fst r = k) rs"
      using True by (auto intro!: filter_cong)
    with none[of n] True show ?thesis by (simp add: s)
  next
    case False
    with Suc have "filter (\<lambda>r. fst r = k) (concat (spread n part rs)) = filter (\<lambda>r. fst r = k) rs" by simp
    moreover have "filter (\<lambda>r. fst r = k) (filter (\<lambda>r. part (fst r) = n) rs) = []"
      using False by (auto simp: filter_empty_conv)
    ultimately show ?thesis by (simp add: s)
  qed
qed simp

text \<open>Hydration rebuilds the joins from the whole changelog, however Kafka spread its records
  over the partitions: for every log and every assignment of the keys to the partitions, reading
  one partition after the other ends, and gives the joins the records leave when they are
  applied in the order they were written.\<close>
theorem hydration_independent_of_partitions:
  assumes "\<And>k. part k < n" "topic \<noteq> []"
    and "client_error kv = None" "consumer_error kv = None"
    and "partitions kv = Inr (map (kept_partition (\<lambda>_. True)) (spread n part rs))"
  shows "hydrateJoinState kv topic = Hydrated (replay fmempty rs)"
proof -
  have "replay fmempty (concat (spread n part rs)) = replay fmempty rs"
    by (rule fmap_ext) (subst (1 2) replay_key[OF refl], simp only: filter_spread[of part _ n, OF assms(1)])
  then show ?thesis
    using assms(2-) by (simp add: hydrateJoinState_def hydrate_whole_partitions)
qed

definition three_records :: "(string \<times> string option) list" where
  "three_records =
     [(''CLM-1'', Some (marshal_joinState two_contributions)),
      (''CLM-2'', Some (marshal_joinState two_contributions)), (''CLM-1'', None)]"

definition by_length :: "string \<Rightarrow> nat" where
  "by_length k = length k mod 3"

theorem hydration_independent_of_partitions_witness:
  "hydrateJoinState
     \<lparr>client_error = None, consumer_error = None,
      partitions = Inr (map (kept_partition (\<lambda>_. True)) (spread 3 by_length three_records))\<rparr> ''j''
   = Hydrated (replay fmempty three_records)"
  by (rule hydration_independent_of_partitions[of by_length 3]) (simp_all add: by_length_def)

subsection \<open>Compaction\<close>

text \<open>What compaction may leave of a log: the last record of every key, except that a tombstone
  may go too once all earlier records of its key are gone.\<close>

definition compacts :: "(nat \<Rightarrow> bool) \<Rightarrow> (string \<times> string option) list \<Rightarrow> bool" where
  "compacts keep rs \<longleftrightarrow>
     (\<forall>i < length rs. (\<forall>j < length rs. i < j \<longrightarrow> fst (rs ! j) \<noteq> fst (rs ! i)) \<longrightarrow>
        keep i \<or> (snd (rs ! i) = None \<and> (\<forall>j < i. fst (rs ! j) = fst (rs ! i) \<longrightarrow> \<not> keep j)))"

definition kept_from :: "(nat \<Rightarrow> bool) \<Rightarrow> nat \<Rightarrow> (string \<times> string option) list \<Rightarrow> (string \<times> string option) list" where
  "kept_from keep n rs = map snd (filter (\<lambda>(i, r). keep i) (records_from n rs))"

lemma records_from_Cons: "records_from n (x # xs) = (n, x) # records_from (Suc n) xs"
  by (simp add: records_from_def upt_conv_Cons del: upt_Suc)

lemma records_from_append: "records_from n (xs @ ys) = records_from n xs @ records_from (n + length xs) ys"
proof (induction xs arbitrary: n)
  case (Cons x xs)
  show ?case using Cons[of "Suc n"] by (simp add: records_from_Cons)
qed (simp add: records_from_def)

lemma kept_from_append: "kept_from keep n (xs @ ys) = kept_from keep n xs @ kept_from keep (n + length xs) ys"
  by (simp add: kept_from_def records_from_append)

lemma kept_from_one: "kept_from keep n [r] = (if keep n then [r] else [])"
  by (simp add: kept_from_def records_from_def)

lemma records_from_set: "(j, r) \<in> set (records_from n rs) \<longleftrightarrow> (\<exists>i < length rs. j = n + i \<and> r = rs ! i)"
proof (induction rs arbitrary: n)
  case (Cons x rs)
  show ?case using Cons[of "Suc n"] by (auto simp: records_from_Cons less_Suc_eq_0_disj)
qed (simp add: records_from_def)

lemma kept_from_sub:
  "r \<in> set (kept_from keep n rs) \<longleftrightarrow> (\<exists>i < length rs. rs ! i = r \<and> keep (n + i))"
proof
  assume "r \<in> set (kept_from keep n rs)"
  then obtain j where "(j, r) \<in> set (records_from n rs)" "keep j" by (auto simp: kept_from_def)
  then show "\<exists>i < length rs. rs ! i = r \<and> keep (n + i)" by (auto simp: records_from_set)
next
  assume "\<exists>i < length rs. rs ! i = r \<and> keep (n + i)"
  then obtain i where "(n + i, r) \<in> set (records_from n rs)" "keep (n + i)" by (auto simp: records_from_set)
  then show "r \<in> set (kept_from keep n rs)" unfolding kept_from_def by force
qed

lemma latest_last: "latest k (xs @ r # ys) d = value_state (snd r)"
  if "fst r = k" "\<forall>y \<in> set ys. fst y \<noteq> k"
  using that by (simp add: latest_append latest_none)

lemma compacts_latest:
  assumes "compacts keep rs"
  shows "latest k (kept_from keep 0 rs) None = latest k rs None"
proof (cases "\<exists>r \<in> set rs. fst r = k")
  case False
  then have "\<forall>r \<in> set (kept_from keep 0 rs). fst r \<noteq> k"
    by (metis kept_from_sub nth_mem)
  with False show ?thesis by (simp add: latest_none)
next
  case True
  then obtain xs r ys where rs: "rs = xs @ r # ys" "fst r = k" "\<forall>y \<in> set ys. fst y \<noteq> k"
    using split_list_last_prop[of rs "\<lambda>r. fst r = k"] by blast
  have later: "\<forall>j < length rs. length xs < j \<longrightarrow> fst (rs ! j) \<noteq> fst (rs ! length xs)"
  proof (intro allI impI)
    fix j assume "j < length rs" "length xs < j"
    then have "rs ! j \<in> set ys"
      by (auto simp: rs(1) nth_append nth_Cons')
    with rs show "fst (rs ! j) \<noteq> fst (rs ! length xs)" by simp
  qed
  have full: "latest k rs None = value_state (snd r)"
    using rs latest_last by blast
  have kept: "kept_from keep 0 rs = kept_from keep 0 xs @ kept_from keep (length xs) [r]
      @ kept_from keep (Suc (length xs)) ys"
    using kept_from_append[of keep 0 xs "[r] @ ys"] kept_from_append[of keep "length xs" "[r]" ys] rs(1)
    by simp
  have tail: "\<forall>y \<in> set (kept_from keep (Suc (length xs)) ys). fst y \<noteq> k"
    using rs(3) by (metis kept_from_sub nth_mem)
  show ?thesis
  proof (cases "keep (length xs)")
    case True
    then show ?thesis
      unfolding full kept using rs(2) tail by (simp add: kept_from_one latest_last)
  next
    case False
    have "length xs < length rs" "rs ! length xs = r" by (simp_all add: rs(1))
    with assms[unfolded compacts_def, rule_format, of "length xs"] later False rs(2)
    have gone: "snd r = None" "\<forall>j < length xs. fst (rs ! j) = k \<longrightarrow> \<not> keep j" by auto
    have "\<forall>y \<in> set (kept_from keep 0 xs). fst y \<noteq> k"
      using gone(2) rs(1) by (auto simp: kept_from_sub nth_append)
    with tail False gone(1) show ?thesis
      unfolding full kept by (simp add: kept_from_one latest_append latest_none value_state_def)
  qed
qed

text \<open>C20: Compaction is harmless to hydration as long as it leaves the newest record: for a log of
  readable records from which compaction dropped what it may, hydrating the partition gives what
  the whole log gives. When the newest record itself is gone (dropped, expired or deleted),
  hydration never returns: it waits for an offset that will not come.\<close>
theorem hydration_of_compacted_log:
  assumes "\<forall>r \<in> set rs. readable r" "compacts keep rs"
  shows "hydratePartition (kept_partition keep rs) fmempty =
    (if rs = [] \<or> keep (length rs - 1) then Hydrated (replay fmempty rs) else Waiting)"
proof -
  have "\<forall>r \<in> set (kept_from keep 0 rs). readable r"
    using assms(1) by (metis kept_from_sub nth_mem)
  then have "replay fmempty (kept_records keep rs) = replay fmempty rs"
    using compacts_latest[OF assms(2)] assms(1)
    by (intro replay_eqI) (simp_all add: kept_records_def kept_from_def)
  then show ?thesis by (simp add: hydrate_kept)
qed

text \<open>The log of a join that was completed: its tombstone is its last record.\<close>

definition completed_log :: "(string \<times> string option) list" where
  "completed_log = [(''CLM-1'', Some (marshal_joinState two_contributions)), (''CLM-1'', None)]"

lemma completed_log_readable: "\<forall>r \<in> set completed_log. readable r"
proof -
  have "wf_joinState two_contributions" by code_simp
  then show ?thesis by (simp add: completed_log_def readable_written)
qed

lemma completed_log_compacts: "compacts (\<lambda>i. False) completed_log" "compacts (\<lambda>i. i = 1) completed_log"
  by (auto simp: compacts_def completed_log_def less_Suc_eq)

theorem hydration_of_compacted_log_witness:
  "hydratePartition (kept_partition (\<lambda>i. i = 1) completed_log) fmempty
     = Hydrated (replay fmempty completed_log)
   \<and> hydratePartition (kept_partition (\<lambda>i. False) completed_log) fmempty = Waiting"
  using hydration_of_compacted_log[OF completed_log_readable completed_log_compacts(1)]
    hydration_of_compacted_log[OF completed_log_readable completed_log_compacts(2)]
  by (simp add: completed_log_def)

end
