(* ===== verification/Handler.thy ===== *)
theory Handler
  imports Agent
begin

section \<open>The message handler (cmd/runner/handler.go) and the start of the runner (main.go)\<close>

text \<open>
  \<open>join\<close>, \<open>publish\<close>, \<open>completeCorrelation\<close> and the body and the loop of
  \<open>ConsumeClaim\<close>; then what \<open>main\<close> does with them: hydrate, recover the joins that were
  complete, consume. A \<open>log.Fatalf\<close> ends the process, as does the panic of a write to a nil
  map; both end the trace there.
\<close>

datatype publish_error = PublishingTo string string

datatype fatal =
    ContributionNotRecorded string string
  | AgentLoopIncomplete string
  | ResultNotPublished string publish_error
  | NoProducer string
  | NotHydrated hydration_error
  | NoConsumerGroup string

datatype 'a outcome = Ret 'a | Fatal fatal | Panic

subsection \<open>Joining\<close>

definition isFanIn :: "agentHandler \<Rightarrow> bool" where
  "isFanIn h \<longleftrightarrow> length (dependsOn (cfg h)) > 1"

text \<open>The result on return: the error of the write, or the merged data and whether the join is
  complete.\<close>

definition join ::
    "services \<Rightarrow> agentHandler \<Rightarrow> envelope \<Rightarrow> trace
     \<Rightarrow> (string + goobject \<times> bool) outcome \<times> agentHandler \<times> trace" where
  "join svc h env tr =
     (if length (dependsOn (cfg h)) \<le> 1 then (Ret (Inr (data env, True)), h, tr)
      else
        let cid = correlationID env;
            st = (case fmlookup (joins h) cid of
                    Some st \<Rightarrow> st | None \<Rightarrow> \<lparr>received = Some fmempty\<rparr>)
        in case received st of
             None \<Rightarrow> (Panic, h, tr)
           | Some rcv \<Rightarrow>
               let st' = st\<lparr>received := Some (fmupd (source env) (data env) rcv)\<rparr>;
                   h' = h\<lparr>joins := fmupd cid st' (joins h)\<rparr>
               in case writeJoinState svc (joinStateTopic (cfg h)) cid st' tr of
                    (Rejected e kept, tr') \<Rightarrow> (Ret (Inl e), h', tr')
                  | (Acked, tr') \<Rightarrow>
                      if gomap_len (received st') < length (dependsOn (cfg h))
                      then (Ret (Inr (None, False)), h', tr')
                      else (Ret (Inr (Some (mergeJoinedData (visit svc tr') st'), True)), h', tr'))"

subsection \<open>Publishing\<close>

fun publish_all ::
    "services \<Rightarrow> string list \<Rightarrow> string \<Rightarrow> string \<Rightarrow> trace \<Rightarrow> publish_error option \<times> trace" where
  "publish_all svc [] cid payload tr = (None, tr)"
| "publish_all svc (topic # topics) cid payload tr =
     (case send_message svc \<lparr>pm_topic = topic, pm_key = cid, pm_value = Some payload\<rparr> tr of
        (Rejected e kept, tr') \<Rightarrow> (Some (PublishingTo topic e), tr')
      | (Acked, tr') \<Rightarrow> publish_all svc topics cid payload tr')"

definition publish ::
    "services \<Rightarrow> agentHandler \<Rightarrow> string \<Rightarrow> object \<Rightarrow> trace \<Rightarrow> publish_error option \<times> trace" where
  "publish svc h cid d tr =
     (if outputTopics (cfg h) = [] then (None, tr)
      else publish_all svc (outputTopics (cfg h)) cid
        (marshal_envelope \<lparr>correlationID = cid, source = nodeName (cfg h), data = Some d\<rparr>) tr)"

subsection \<open>Completing a correlation\<close>

definition completeCorrelation ::
    "services \<Rightarrow> agentHandler \<Rightarrow> string \<Rightarrow> goobject \<Rightarrow> trace \<Rightarrow> agentHandler outcome \<times> trace" where
  "completeCorrelation svc h cid d tr =
     (case agentLoop svc h d tr of
        (None, tr1) \<Rightarrow> (Fatal (AgentLoopIncomplete cid), tr1)
      | (Some out, tr1) \<Rightarrow>
          (case publish svc h cid out tr1 of
             (Some e, tr2) \<Rightarrow> (Fatal (ResultNotPublished cid e), tr2)
           | (None, tr2) \<Rightarrow>
               if joinStateTopic (cfg h) = [] then (Ret h, tr2)
               else (Ret (h\<lparr>joins := fmdrop cid (joins h)\<rparr>),
                     snd (tombstoneJoinState svc (joinStateTopic (cfg h)) cid tr2))))"

subsection \<open>Consuming\<close>

text \<open>The buffer of \<open>newCorrelationID\<close> has eight bytes.\<close>

definition random_buffer :: "services \<Rightarrow> trace \<Rightarrow> string" where
  "random_buffer svc tr = map (random_bytes svc tr) [0..<8]"

definition message_envelope :: "services \<Rightarrow> consumer_message \<Rightarrow> trace \<Rightarrow> envelope" where
  "message_envelope svc msg tr =
     parseOrWrapEnvelope (visit svc tr) (random_buffer svc tr) (cm_value msg)"

text \<open>The body of the loop of \<open>ConsumeClaim\<close>.\<close>

definition consume_message ::
    "services \<Rightarrow> agentHandler \<Rightarrow> consumer_message \<Rightarrow> trace \<Rightarrow> agentHandler outcome \<times> trace" where
  "consume_message svc h msg tr =
     (let env = message_envelope svc msg tr in
      case join svc h env tr of
        (Panic, h1, tr1) \<Rightarrow> (Panic, tr1)
      | (Fatal f, h1, tr1) \<Rightarrow> (Fatal f, tr1)
      | (Ret (Inl e), h1, tr1) \<Rightarrow> (Fatal (ContributionNotRecorded (correlationID env) e), tr1)
      | (Ret (Inr (merged, ready)), h1, tr1) \<Rightarrow>
          let tr2 = (if isFanIn h then mark_message msg tr1 else tr1) in
          if ready then
            (case completeCorrelation svc h1 (correlationID env) merged tr2 of
               (Ret h2, tr3) \<Rightarrow> (Ret h2, if isFanIn h then tr3 else mark_message msg tr3)
             | (other, tr3) \<Rightarrow> (other, tr3))
          else (Ret h1, tr2))"

fun consumeClaim ::
    "services \<Rightarrow> agentHandler \<Rightarrow> consumer_message list \<Rightarrow> trace \<Rightarrow> agentHandler outcome \<times> trace" where
  "consumeClaim svc h [] tr = (Ret h, tr)"
| "consumeClaim svc h (msg # msgs) tr =
     (case consume_message svc h msg tr of
        (Ret h', tr') \<Rightarrow> consumeClaim svc h' msgs tr'
      | (other, tr') \<Rightarrow> (other, tr'))"

subsection \<open>Starting\<close>

text \<open>
  \<open>for correlationID, st := range joins\<close>, where \<open>joins\<close> is the handler's own map and the
  body deletes no key but the current one.
\<close>

fun recover_joins ::
    "services \<Rightarrow> agentHandler \<Rightarrow> string list \<Rightarrow> trace \<Rightarrow> agentHandler outcome \<times> trace" where
  "recover_joins svc h [] tr = (Ret h, tr)"
| "recover_joins svc h (cid # cids) tr =
     (case fmlookup (joins h) cid of
        None \<Rightarrow> recover_joins svc h cids tr
      | Some st \<Rightarrow>
          if gomap_len (received st) \<ge> length (dependsOn (cfg h)) then
            (case completeCorrelation svc h cid (Some (mergeJoinedData (visit svc tr) st)) tr of
               (Ret h', tr') \<Rightarrow> recover_joins svc h' cids tr'
             | (other, tr') \<Rightarrow> (other, tr'))
          else recover_joins svc h cids tr)"

text \<open>What the client libraries answer while \<open>main\<close> sets up.\<close>

record startup =
  producer_error :: "string option"
  mcp_view :: "string \<Rightarrow> string \<Rightarrow> endpoint_view"
  kafka :: kafka_view
  group_error :: "string option"

definition new_handler :: "services \<Rightarrow> startup \<Rightarrow> config \<Rightarrow> joins \<Rightarrow> trace \<Rightarrow> agentHandler" where
  "new_handler svc su c js tr =
     \<lparr>cfg = c, tools = found_tools (connectMCPTools (visit svc tr) (mcp_view su) c),
      llm = (if llmBaseURL c \<noteq> [] then Some (newLLMClient c) else None), joins = js\<rparr>"

text \<open>
  \<open>main\<close> up to its wait for a signal, with the messages of the claims it is then given.
  \<open>None\<close>: it waits for ever in the hydration.
\<close>

definition runner_main ::
    "services \<Rightarrow> startup \<Rightarrow> (string \<Rightarrow> string) \<Rightarrow> consumer_message list \<Rightarrow> trace
     \<Rightarrow> (agentHandler outcome \<times> trace) option" where
  "runner_main svc su getenv msgs tr =
     (let c = loadConfig getenv in
      case producer_error su of
        Some e \<Rightarrow> Some (Fatal (NoProducer e), tr)
      | None \<Rightarrow>
          (case hydrateJoinState (kafka su) (joinStateTopic c) of
             Waiting \<Rightarrow> None
           | HydrationFailed e \<Rightarrow> Some (Fatal (NotHydrated e), tr)
           | Hydrated js \<Rightarrow>
               let h = new_handler svc su c js tr in
               (case recover_joins svc h (visit svc tr (fmdom js)) tr of
                  (Ret h1, tr1) \<Rightarrow>
                    (case group_error su of
                       Some e \<Rightarrow> Some (Fatal (NoConsumerGroup e), tr1)
                     | None \<Rightarrow> Some (consumeClaim svc h1 msgs tr1))
                | (other, tr1) \<Rightarrow> Some (other, tr1))))"

end
