(* ===== verification/HandlerLaws.thy ===== *)
theory HandlerLaws
  imports Handler AgentLaws JoinLaws
begin

section \<open>What the handler's operations add to the trace\<close>

text \<open>
  The shape of the events of each operation: \<open>publish_trace\<close>, \<open>complete_cases\<close>,
  \<open>join_cases\<close>, \<open>consume_cases\<close>. Then the invariant \<open>synced\<close>: every join a runner
  has in memory is what the changelog says of it.
\<close>

subsection \<open>Publishing\<close>

definition output_message :: "agentHandler \<Rightarrow> string \<Rightarrow> object \<Rightarrow> string \<Rightarrow> producer_message" where
  "output_message h cid out topic =
     \<lparr>pm_topic = topic, pm_key = cid,
      pm_value = Some (marshal_envelope \<lparr>correlationID = cid, source = nodeName (cfg h), data = Some out\<rparr>)\<rparr>"

definition published :: "agentHandler \<Rightarrow> string \<Rightarrow> object \<Rightarrow> trace" where
  "published h cid out = map (\<lambda>t. Sent (output_message h cid out t) Acked) (outputTopics (cfg h))"

text \<open>Some topics in order were acknowledged, the next one was not.\<close>

definition published_partly :: "agentHandler \<Rightarrow> string \<Rightarrow> object \<Rightarrow> publish_error \<Rightarrow> trace \<Rightarrow> bool" where
  "published_partly h cid out err es \<longleftrightarrow>
     (\<exists>done t rest e kept. outputTopics (cfg h) = done @ t # rest \<and> err = PublishingTo t e
        \<and> es = map (\<lambda>t. Sent (output_message h cid out t) Acked) done
               @ [Sent (output_message h cid out t) (Rejected e kept)])"

lemma publish_all_trace:
  "publish_all svc topics cid payload tr = (r, tr') \<Longrightarrow>
     (r = None \<and> tr' = tr @ map (\<lambda>t. Sent \<lparr>pm_topic = t, pm_key = cid, pm_value = Some payload\<rparr> Acked) topics)
     \<or> (\<exists>done t rest e kept. topics = done @ t # rest \<and> r = Some (PublishingTo t e)
          \<and> tr' = tr @ map (\<lambda>t. Sent \<lparr>pm_topic = t, pm_key = cid, pm_value = Some payload\<rparr> Acked) done
              @ [Sent \<lparr>pm_topic = t, pm_key = cid, pm_value = Some payload\<rparr> (Rejected e kept)])"
proof (induction topics arbitrary: tr)
  case (Cons t ts)
  let ?m = "\<lparr>pm_topic = t, pm_key = cid, pm_value = Some payload\<rparr>"
  show ?case
  proof (cases "answer_send svc tr ?m")
    case Acked
    with Cons.prems have "publish_all svc ts cid payload (tr @ [Sent ?m Acked]) = (r, tr')"
      by (simp add: send_message_def)
    from Cons.IH[OF this] show ?thesis
    proof
      assume "\<exists>done t' rest e kept. ts = done @ t' # rest \<and> r = Some (PublishingTo t' e)
        \<and> tr' = (tr @ [Sent ?m Acked])
            @ map (\<lambda>t. Sent \<lparr>pm_topic = t, pm_key = cid, pm_value = Some payload\<rparr> Acked) done
            @ [Sent \<lparr>pm_topic = t', pm_key = cid, pm_value = Some payload\<rparr> (Rejected e kept)]"
      then obtain dn t' rest e kept where "ts = dn @ t' # rest" "r = Some (PublishingTo t' e)"
        "tr' = (tr @ [Sent ?m Acked])
            @ map (\<lambda>t. Sent \<lparr>pm_topic = t, pm_key = cid, pm_value = Some payload\<rparr> Acked) dn
            @ [Sent \<lparr>pm_topic = t', pm_key = cid, pm_value = Some payload\<rparr> (Rejected e kept)]" by blast
      then show ?thesis
        by (intro disjI2 exI[of _ "t # dn"] exI[of _ t'] exI[of _ rest] exI[of _ e] exI[of _ kept]) simp
    qed simp
  next
    case (Rejected e kept)
    with Cons.prems have "r = Some (PublishingTo t e)" "tr' = tr @ [Sent ?m (Rejected e kept)]"
      by (simp_all add: send_message_def Let_def)
    then show ?thesis
      by (intro disjI2 exI[of _ "[]"] exI[of _ t] exI[of _ ts] exI[of _ e] exI[of _ kept]) simp
  qed
qed simp

lemma publish_trace:
  assumes "publish svc h cid out tr = (r, tr')"
  shows "(r = None \<and> tr' = tr @ published h cid out)
    \<or> (\<exists>err es. r = Some err \<and> tr' = tr @ es \<and> published_partly h cid out err es)"
proof (cases "outputTopics (cfg h) = []")
  case True
  with assms show ?thesis by (simp add: publish_def published_def)
next
  case False
  with assms have "publish_all svc (outputTopics (cfg h)) cid
      (marshal_envelope \<lparr>correlationID = cid, source = nodeName (cfg h), data = Some out\<rparr>) tr = (r, tr')"
    by (simp add: publish_def)
  from publish_all_trace[OF this] show ?thesis
    unfolding published_def published_partly_def output_message_def by blast
qed

subsection \<open>Completing\<close>

text \<open>The tombstone, when the node has a changelog at all.\<close>

definition buried :: "agentHandler \<Rightarrow> string \<Rightarrow> trace \<Rightarrow> bool" where
  "buried h cid es \<longleftrightarrow>
     (if joinStateTopic (cfg h) = [] then es = []
      else \<exists>a. es = [Sent \<lparr>pm_topic = joinStateTopic (cfg h), pm_key = cid, pm_value = None\<rparr> a])"

definition completed_joins :: "agentHandler \<Rightarrow> string \<Rightarrow> agentHandler" where
  "completed_joins h cid = (if joinStateTopic (cfg h) = [] then h else h\<lparr>joins := fmdrop cid (joins h)\<rparr>)"

lemma complete_cases:
  assumes "completeCorrelation svc h cid d tr = (r, tr')"
  obtains (failed) es f where "r = Fatal f" "tr' = tr @ es" "list_all asked es"
    | (unpublished) es out err ps where "r = Fatal (ResultNotPublished cid err)" "tr' = tr @ es @ ps"
        "list_all asked es" "published_partly h cid out err ps"
    | (completed) es out b where "r = Ret (completed_joins h cid)" "list_all asked es"
        "tr' = tr @ es @ published h cid out @ b" "buried h cid b"
proof -
  obtain l tr1 where l: "agentLoop svc h d tr = (l, tr1)" by fastforce
  then obtain es where es: "tr1 = tr @ es" "list_all asked es"
    using agentLoop_adds[OF l] by (auto simp: adds_def)
  show ?thesis
  proof (cases l)
    case None
    with assms l es failed[of "AgentLoopIncomplete cid" es] show ?thesis
      by (simp add: completeCorrelation_def)
  next
    case (Some out)
    obtain p tr2 where p: "publish svc h cid out tr1 = (p, tr2)" by fastforce
    from publish_trace[OF p] show ?thesis
    proof
      assume a: "p = None \<and> tr2 = tr1 @ published h cid out"
      have "r = Ret (completed_joins h cid) \<and> (\<exists>b. tr' = tr2 @ b \<and> buried h cid b)"
        using assms l Some p a
        by (auto simp: completeCorrelation_def completed_joins_def buried_def tombstoneJoinState_def
            send_message_def Let_def split: if_splits)
      with a es completed show ?thesis by auto
    next
      assume "\<exists>err es. p = Some err \<and> tr2 = tr1 @ es \<and> published_partly h cid out err es"
      then obtain err ps where ps: "p = Some err" "tr2 = tr1 @ ps" "published_partly h cid out err ps"
        by blast
      then have "r = Fatal (ResultNotPublished cid err)" "tr' = tr2"
        using assms l Some p by (simp_all add: completeCorrelation_def)
      with ps es unpublished show ?thesis by simp
    qed
  qed
qed

text \<open>Events that mark nothing, and that write no record of a topic.\<close>

lemma not_marked_asked: "list_all asked es \<Longrightarrow> list_all not_marked es"
  by (auto simp: list_all_iff dest: asked_not)

lemma not_marked_partly: "published_partly h cid out err es \<Longrightarrow> list_all not_marked es"
  by (auto simp: published_partly_def list_all_iff)

definition quiet :: "string \<Rightarrow> trace \<Rightarrow> bool" where
  "quiet t es \<longleftrightarrow> (\<forall>e \<in> set es. event_records t e = [])"

lemma quiet_records: "quiet t es \<Longrightarrow> topic_records t es = []"
  by (simp add: quiet_def topic_records_def)

lemma quiet_asked: "list_all asked es \<Longrightarrow> quiet t es"
  by (auto simp: quiet_def list_all_iff dest!: asked_not not_sent_records)

lemma quiet_published:
  "t \<notin> set (outputTopics (cfg h)) \<Longrightarrow> quiet t (published h cid out)"
  "t \<notin> set (outputTopics (cfg h)) \<Longrightarrow> published_partly h cid out err ps \<Longrightarrow> quiet t ps"
  by (auto simp: quiet_def published_def published_partly_def output_message_def)

lemma quiet_append [simp]: "quiet t (a @ b) \<longleftrightarrow> quiet t a \<and> quiet t b"
  by (auto simp: quiet_def)

subsection \<open>Joining\<close>

definition known :: "agentHandler \<Rightarrow> string \<Rightarrow> joinState" where
  "known h cid = (case fmlookup (joins h) cid of Some st \<Rightarrow> st | None \<Rightarrow> \<lparr>received = Some fmempty\<rparr>)"

definition with_contribution :: "envelope \<Rightarrow> (string, goobject) fmap \<Rightarrow> joinState" where
  "with_contribution env rcv = \<lparr>received = Some (fmupd (source env) (data env) rcv)\<rparr>"

definition changelog_message :: "agentHandler \<Rightarrow> string \<Rightarrow> joinState \<Rightarrow> producer_message" where
  "changelog_message h cid st =
     \<lparr>pm_topic = joinStateTopic (cfg h), pm_key = cid, pm_value = Some (marshal_joinState st)\<rparr>"

lemma join_straight: "\<not> isFanIn h \<Longrightarrow> join svc h env tr = (Ret (Inr (data env, True)), h, tr)"
  by (simp add: join_def isFanIn_def)

lemma join_cases:
  assumes "isFanIn h" "join svc h env tr = (r, h', tr')"
  obtains (panic) "received (known h (correlationID env)) = None" "r = Panic" "tr' = tr"
    | (unrecorded) rcv st e kept where "received (known h (correlationID env)) = Some rcv"
        "st = with_contribution env rcv" "r = Ret (Inl e)"
        "tr' = tr @ [Sent (changelog_message h (correlationID env) st) (Rejected e kept)]"
    | (recorded) rcv st where "received (known h (correlationID env)) = Some rcv"
        "st = with_contribution env rcv"
        "r = Ret (Inr (if size (fmdom (fmupd (source env) (data env) rcv)) < length (dependsOn (cfg h))
             then (None, False) else (Some (mergeJoinedData (visit svc tr') st), True)))"
        "h' = h\<lparr>joins := fmupd (correlationID env) st (joins h)\<rparr>"
        "tr' = tr @ [Sent (changelog_message h (correlationID env) st) Acked]"
proof (cases "received (known h (correlationID env))")
  case None
  with assms panic show ?thesis
    by (simp add: join_def isFanIn_def known_def Let_def split: option.splits)
next
  case (Some rcv)
  let ?cid = "correlationID env" and ?st = "with_contribution env rcv"
  have st: "(known h ?cid)\<lparr>received := Some (fmupd (source env) (data env) rcv)\<rparr> = ?st"
    by (simp add: with_contribution_def)
  have nf: "\<not> length (dependsOn (cfg h)) \<le> 1" using assms(1) by (simp add: isFanIn_def)
  have len: "gomap_len (received ?st) = size (fmdom (fmupd (source env) (data env) rcv))"
    by (simp add: with_contribution_def)
  have j: "join svc h env tr =
      (case writeJoinState svc (joinStateTopic (cfg h)) ?cid ?st tr of
         (Rejected e kept, tr') \<Rightarrow> (Ret (Inl e), h\<lparr>joins := fmupd ?cid ?st (joins h)\<rparr>, tr')
       | (Acked, tr') \<Rightarrow>
           if size (fmdom (fmupd (source env) (data env) rcv)) < length (dependsOn (cfg h))
           then (Ret (Inr (None, False)), h\<lparr>joins := fmupd ?cid ?st (joins h)\<rparr>, tr')
           else (Ret (Inr (Some (mergeJoinedData (visit svc tr') ?st), True)),
                 h\<lparr>joins := fmupd ?cid ?st (joins h)\<rparr>, tr'))"
    unfolding join_def Let_def known_def[symmetric] Some option.case st if_not_P[OF nf] len
    by (rule refl)
  show ?thesis
  proof (cases "answer_send svc tr (changelog_message h ?cid ?st)")
    case Acked
    then have w: "writeJoinState svc (joinStateTopic (cfg h)) ?cid ?st tr
        = (Acked, tr @ [Sent (changelog_message h ?cid ?st) Acked])"
      by (simp add: writeJoinState_def send_message_def changelog_message_def)
    have "r = Ret (Inr (if size (fmdom (fmupd (source env) (data env) rcv)) < length (dependsOn (cfg h))
             then (None, False) else (Some (mergeJoinedData (visit svc tr') ?st), True)))"
      "h' = h\<lparr>joins := fmupd ?cid ?st (joins h)\<rparr>"
      "tr' = tr @ [Sent (changelog_message h ?cid ?st) Acked]"
      using assms(2)[unfolded j w] by (auto simp only: prod.case send_result.case prod.inject split: if_splits)
    then show ?thesis by (rule recorded[OF Some refl])
  next
    case (Rejected e kept)
    then have w: "writeJoinState svc (joinStateTopic (cfg h)) ?cid ?st tr
        = (Rejected e kept, tr @ [Sent (changelog_message h ?cid ?st) (Rejected e kept)])"
      by (simp add: writeJoinState_def send_message_def changelog_message_def Let_def)
    have "r = Ret (Inl e)"
      "tr' = tr @ [Sent (changelog_message h ?cid ?st) (Rejected e kept)]"
      using assms(2)[unfolded j w] by simp_all
    then show ?thesis by (rule unrecorded[OF Some refl])
  qed
qed

subsection \<open>Consuming\<close>

lemma consume_straight:
  assumes "\<not> isFanIn h"
  shows "consume_message svc h msg tr =
    (case completeCorrelation svc h (correlationID (message_envelope svc msg tr))
            (data (message_envelope svc msg tr)) tr of
       (Ret h2, tr3) \<Rightarrow> (Ret h2, tr3 @ [Marked msg])
     | (other, tr3) \<Rightarrow> (other, tr3))"
  using assms
  by (simp add: consume_message_def join_straight Let_def mark_message_def split: prod.splits outcome.splits)

text \<open>A fan-in node takes a message: the contribution is recorded, and marked at once.\<close>

definition taken :: "agentHandler \<Rightarrow> envelope \<Rightarrow> (string, goobject) fmap \<Rightarrow> agentHandler" where
  "taken h env rcv = h\<lparr>joins := fmupd (correlationID env) (with_contribution env rcv) (joins h)\<rparr>"

definition recorded_events :: "agentHandler \<Rightarrow> envelope \<Rightarrow> (string, goobject) fmap \<Rightarrow> consumer_message \<Rightarrow> trace" where
  "recorded_events h env rcv msg =
     [Sent (changelog_message h (correlationID env) (with_contribution env rcv)) Acked, Marked msg]"

definition enough :: "agentHandler \<Rightarrow> envelope \<Rightarrow> (string, goobject) fmap \<Rightarrow> bool" where
  "enough h env rcv \<longleftrightarrow> length (dependsOn (cfg h)) \<le> size (fmdom (fmupd (source env) (data env) rcv))"

lemma consume_cases:
  assumes "isFanIn h" "consume_message svc h msg tr = (r, tr')" "env = message_envelope svc msg tr"
  obtains (panic) "r = Panic" "tr' = tr"
    | (unrecorded) rcv st e kept where "r = Fatal (ContributionNotRecorded (correlationID env) e)"
        "received (known h (correlationID env)) = Some rcv" "st = with_contribution env rcv"
        "tr' = tr @ [Sent (changelog_message h (correlationID env) st) (Rejected e kept)]"
    | (waiting) rcv where "received (known h (correlationID env)) = Some rcv" "\<not> enough h env rcv"
        "r = Ret (taken h env rcv)" "tr' = tr @ recorded_events h env rcv msg"
    | (ready) rcv m where "received (known h (correlationID env)) = Some rcv" "enough h env rcv"
        "completeCorrelation svc (taken h env rcv) (correlationID env) m
           (tr @ recorded_events h env rcv msg) = (r, tr')"
        "m = Some (mergeJoinedData (visit svc (tr @ [hd (recorded_events h env rcv msg)]))
           (with_contribution env rcv))"
proof -
  obtain j h1 tr1 where j: "join svc h env tr = (j, h1, tr1)" by (cases "join svc h env tr")
  note c = assms(2)[unfolded consume_message_def Let_def assms(3)[symmetric] j prod.case]
  from assms(1) j show ?thesis
  proof (cases rule: join_cases)
    case panic
    with c that(1) show ?thesis by simp
  next
    case (unrecorded rcv st e kept)
    with c have "r = Fatal (ContributionNotRecorded (correlationID env) e)"
      "tr' = tr @ [Sent (changelog_message h (correlationID env) st) (Rejected e kept)]"
      by simp_all
    then show ?thesis using that(2) unrecorded(1,2) by blast
  next
    case (recorded rcv st)
    show ?thesis
    proof (cases "enough h env rcv")
      case True
      then have n: "\<not> size (fmdom (fmupd (source env) (data env) rcv)) < length (dependsOn (cfg h))"
        by (simp add: enough_def)
      let ?m = "Some (mergeJoinedData (visit svc (tr @ [hd (recorded_events h env rcv msg)]))
           (with_contribution env rcv))"
      have "completeCorrelation svc (taken h env rcv) (correlationID env) ?m
           (tr @ recorded_events h env rcv msg) = (r, tr')"
        using c assms(1) recorded n
        by (cases "completeCorrelation svc (taken h env rcv) (correlationID env) ?m
             (tr @ recorded_events h env rcv msg)")
          (simp add: taken_def recorded_events_def mark_message_def split: outcome.splits)
      from that(4)[OF recorded(1) True this refl] show ?thesis .
    next
      case False
      then have n: "size (fmdom (fmupd (source env) (data env) rcv)) < length (dependsOn (cfg h))"
        by (simp add: enough_def)
      with c assms(1) recorded have "r = Ret (taken h env rcv)" "tr' = tr @ recorded_events h env rcv msg"
        by (simp_all add: taken_def recorded_events_def mark_message_def)
      from that(3)[OF recorded(1) False this] show ?thesis .
    qed
  qed
qed

subsection \<open>Memory and changelog\<close>

definition changelog :: "agentHandler \<Rightarrow> trace \<Rightarrow> joins" where
  "changelog h tr = replay fmempty (topic_records (joinStateTopic (cfg h)) tr)"

definition synced :: "agentHandler \<Rightarrow> trace \<Rightarrow> bool" where
  "synced h tr \<longleftrightarrow>
     fmpred (\<lambda>cid st. wf_joinState st \<and> fmlookup (changelog h tr) cid = Some st) (joins h)"

lemma synced_iff:
  "synced h tr \<longleftrightarrow>
     (\<forall>cid st. fmlookup (joins h) cid = Some st \<longrightarrow>
        wf_joinState st \<and> fmlookup (changelog h tr) cid = Some st)"
  by (simp add: synced_def fmpred_iff)

text \<open>The environment the controller gives a fan-in node.\<close>

definition fan_in_node :: "config \<Rightarrow> bool" where
  "fan_in_node c \<longleftrightarrow> joinStateTopic c \<noteq> [] \<and> joinStateTopic c \<notin> set (outputTopics c)"

lemma records_asked: "list_all asked es \<Longrightarrow> topic_records t es = []"
  by (induction es) (auto dest!: asked_not not_sent_records)

lemma records_published: "t \<notin> set (outputTopics (cfg h)) \<Longrightarrow> topic_records t (published h cid out) = []"
proof -
  have "topic_records t (map (\<lambda>t. Sent (output_message h cid out t) Acked) ts) = []" if "t \<notin> set ts" for ts
    using that by (induction ts) (auto simp: output_message_def)
  then show "t \<notin> set (outputTopics (cfg h)) \<Longrightarrow> topic_records t (published h cid out) = []"
    by (simp add: published_def)
qed

lemma changelog_joins [simp]: "changelog (h\<lparr>joins := js\<rparr>) tr = changelog h tr"
  by (simp add: changelog_def)

lemma changelog_asked: "list_all asked es \<Longrightarrow> changelog h (tr @ es) = changelog h tr"
  by (simp add: changelog_def records_asked)

lemma changelog_published: "fan_in_node (cfg h) \<Longrightarrow> changelog h (tr @ published h cid out) = changelog h tr"
  by (simp add: changelog_def records_published fan_in_node_def)

lemma changelog_written:
  "wf_joinState st \<Longrightarrow> changelog h (tr @ [Sent (changelog_message h cid st) Acked])
     = fmupd cid st (changelog h tr)"
  by (simp add: changelog_def changelog_message_def apply_written)

lemma changelog_marked: "changelog h (tr @ [Marked msg]) = changelog h tr"
  by (simp add: changelog_def)

lemma changelog_buried:
  "buried h cid b \<Longrightarrow> k \<noteq> cid \<Longrightarrow> fmlookup (changelog h (tr @ b)) k = fmlookup (changelog h tr) k"
  by (auto simp: buried_def changelog_def split: if_splits)

lemma wf_contribution:
  "wf_joinState (known h cid) \<Longrightarrow> received (known h cid) = Some rcv \<Longrightarrow> valid_utf8 (source env)
   \<Longrightarrow> wf_map (data env) \<Longrightarrow> wf_joinState (with_contribution env rcv)"
  by (auto simp: wf_joinState_def wf_received_def with_contribution_def)

lemma synced_known: "synced h tr \<Longrightarrow> wf_joinState (known h cid)"
  by (auto simp: synced_iff known_def wf_joinState_def wf_received_def split: option.splits)

lemma synced_taken:
  assumes "synced h tr" "received (known h (correlationID env)) = Some rcv"
    and "valid_utf8 (source env)" "wf_map (data env)"
  shows "synced (taken h env rcv) (tr @ recorded_events h env rcv msg)"
proof -
  have w: "wf_joinState (with_contribution env rcv)"
    by (rule wf_contribution[OF synced_known[OF assms(1)] assms(2-4)])
  have "changelog (taken h env rcv) (tr @ recorded_events h env rcv msg)
      = fmupd (correlationID env) (with_contribution env rcv) (changelog h tr)"
    using changelog_written[OF w, of h tr "correlationID env"] changelog_marked
    by (simp add: recorded_events_def changelog_def taken_def)
  with assms(1) w show ?thesis
    by (auto simp: synced_iff taken_def)
qed

lemma synced_completed:
  assumes "synced h tr" "fan_in_node (cfg h)"
    and "completeCorrelation svc h cid d tr = (Ret h', tr')"
  shows "synced h' tr' \<and> cfg h' = cfg h"
  using assms(3)
proof (cases rule: complete_cases)
  case (completed es out b)
  have h': "h' = h\<lparr>joins := fmdrop cid (joins h)\<rparr>"
    using completed(1) assms(2) by (simp add: completed_joins_def fan_in_node_def)
  have "fmlookup (changelog h tr') k = fmlookup (changelog h tr) k" if "k \<noteq> cid" for k
    using changelog_buried[OF completed(4) that, of "(tr @ es) @ published h cid out"]
      changelog_published[OF assms(2), of "tr @ es" cid out] changelog_asked[OF completed(2), of h tr]
    by (simp add: completed(3))
  with assms(1) show ?thesis
    by (auto simp: synced_iff h' split: if_splits)
qed simp_all

lemma wrapped_wf:
  "valid_utf8 payload \<Longrightarrow>
     valid_utf8 (source (parseOrWrapEnvelope ord buf payload)) \<and> wf_map (data (parseOrWrapEnvelope ord buf payload))"
proof -
  assume v: "valid_utf8 payload"
  have w: "wf_map (case unmarshal_map payload of Some d \<Rightarrow> d | None \<Rightarrow> Some (fmupd ''raw'' (JStr payload) fmempty))"
    using v by (auto split: option.split dest: unmarshal_map_wf intro!: wf_object_upd)
  then show ?thesis
    by (auto simp: parseOrWrapEnvelope_def Let_def wf_envelope_def split: option.split
        dest: unmarshal_envelope_wf)
qed

lemma message_wf:
  "valid_utf8 (cm_value msg) \<Longrightarrow>
     valid_utf8 (source (message_envelope svc msg tr)) \<and> wf_map (data (message_envelope svc msg tr))"
  unfolding message_envelope_def by (rule wrapped_wf)

lemma taken_cfg [simp]: "cfg (taken h env rcv) = cfg h" "isFanIn (taken h env rcv) = isFanIn h"
  by (simp_all add: taken_def isFanIn_def)

lemma synced_consume:
  assumes "isFanIn h" "fan_in_node (cfg h)" "synced h tr" "valid_utf8 (cm_value msg)"
    and "consume_message svc h msg tr = (Ret h', tr')"
  shows "synced h' tr' \<and> cfg h' = cfg h"
  using assms(1,5) refl[of "message_envelope svc msg tr"]
proof (cases rule: consume_cases)
  case (waiting rcv)
  with synced_taken[OF assms(3) waiting(1)] message_wf[OF assms(4)] show ?thesis by simp
next
  case (ready rcv m)
  have "synced (taken h (message_envelope svc msg tr) rcv)
      (tr @ recorded_events h (message_envelope svc msg tr) rcv msg)"
    using synced_taken[OF assms(3) ready(1)] message_wf[OF assms(4)] by blast
  from synced_completed[OF this _ ready(3)] assms(2) show ?thesis by simp
qed simp_all

lemma isFanIn_cfg: "cfg h' = cfg h \<Longrightarrow> isFanIn h' = isFanIn h"
  by (simp add: isFanIn_def)

lemma synced_claim:
  assumes "consumeClaim svc h msgs tr = (Ret h', tr')"
    and "isFanIn h" "fan_in_node (cfg h)" "synced h tr" "\<forall>msg \<in> set msgs. valid_utf8 (cm_value msg)"
  shows "synced h' tr' \<and> cfg h' = cfg h"
  using assms
proof (induction msgs arbitrary: h tr)
  case (Cons msg msgs)
  obtain r1 tr1 where c: "consume_message svc h msg tr = (r1, tr1)" by fastforce
  with Cons.prems(1) obtain h1 where h1: "r1 = Ret h1" "consumeClaim svc h1 msgs tr1 = (Ret h', tr')"
    by (cases r1) auto
  have s: "synced h1 tr1 \<and> cfg h1 = cfg h"
    using synced_consume[OF Cons.prems(2-4) _ c[unfolded h1(1)]] Cons.prems(5) by simp
  then show ?case
    using Cons.IH[OF h1(2)] Cons.prems(2,3,5) isFanIn_cfg[of h1 h] by simp
qed simp

lemma synced_recover:
  assumes "recover_joins svc h cids tr = (Ret h', tr')" "fan_in_node (cfg h)" "synced h tr"
  shows "synced h' tr' \<and> cfg h' = cfg h"
  using assms
proof (induction svc h cids tr rule: recover_joins.induct)
  case (2 svc h cid cids tr)
  show ?case
  proof (cases "\<exists>st. fmlookup (joins h) cid = Some st \<and> gomap_len (received st) \<ge> length (dependsOn (cfg h))")
    case False
    with 2 show ?thesis by (auto split: option.splits)
  next
    case True
    then obtain st where st: "fmlookup (joins h) cid = Some st"
      "gomap_len (received st) \<ge> length (dependsOn (cfg h))" by blast
    obtain r1 tr1 where c: "completeCorrelation svc h cid (Some (mergeJoinedData (visit svc tr) st)) tr = (r1, tr1)"
      by fastforce
    with 2(4) st obtain h1 where h1: "r1 = Ret h1" "recover_joins svc h1 cids tr1 = (Ret h', tr')"
      by (cases r1) auto
    have s: "synced h1 tr1 \<and> cfg h1 = cfg h"
      using synced_completed[OF 2(6,5) c[unfolded h1(1)]] .
    then show ?thesis using 2(2)[OF st(1) st(2) c[unfolded h1(1), symmetric] refl h1(2)] 2(5) by simp
  qed
qed simp

text \<open>A handler that was just hydrated.\<close>

lemma synced_hydrated:
  assumes "joins h = changelog h tr"
  shows "synced h tr"
proof -
  have "wf_joinState st" if "fmlookup (replay fmempty rs) cid = Some st" for rs cid st
    using that
  proof (induction rs rule: rev_induct)
    case (snoc r rs)
    then show ?case
      by (auto simp: applyHydratedRecord_def split: option.splits if_splits dest: unmarshal_joinState_wf)
  qed simp
  with assms show ?thesis by (simp add: synced_iff changelog_def)
qed

end
