(* ===== verification/AgentProps.thy ===== *)
theory AgentProps
  imports AgentLaws JoinLaws "HOL-Library.Multiset"
begin

section \<open>Properties of the agent loop and its tools\<close>

text \<open>
  The turn cap and what the loop may do, where a result comes from, what is found in the answer
  of a model, which tools it is offered and what it is told of their results.
\<close>

subsection \<open>The loop\<close>

text \<open>C32: The agent loop always ends, after at most eight requests to the LLM, whatever the LLM
  and the tools answer; and it only talks to the LLM and the tools: it sends nothing to Kafka
  and marks no message.\<close>
theorem agent_loop_bounded:
  "\<exists>es. snd (agentLoop svc h d tr) = tr @ es \<and> posts es \<le> 8
     \<and> list_all (\<lambda>e. is_posted e \<or> is_called e) es"
  using agentLoop_posts[of svc h d tr "fst (agentLoop svc h d tr)" "snd (agentLoop svc h d tr)"]
  by (auto simp: maxAgentTurns_def list_all_iff asked_def)

text \<open>C23: A result of the agent loop is never made up: the last thing that happened is an answer
  of the LLM with status 200, no error and a first choice without tool calls, and the result is
  that message merged into the task. It keeps every key of the task's data.\<close>
theorem agent_loop_result:
  assumes "agentLoop svc h d tr = (Some out, tr')"
  shows "fmdom (entries d) |\<subseteq>| fmdom out
    \<and> (\<exists>tr0 req status body parsed m ms. tr' = tr0 @ [Posted req (Response 200 status body)]
         \<and> unmarshal_chatResponse body = Some parsed \<and> resp_error parsed = None
         \<and> choices parsed = m # ms \<and> toolCalls m = [] \<and> out = mergeFinalAnswer d (content m))"
proof -
  obtain m where m: "tr' \<noteq> []" "final_reply (last tr') m" "out = mergeFinalAnswer d (content m)"
    using agentLoop_result[OF assms] by blast
  then have "tr' = butlast tr' @ [last tr']" by simp
  with m show ?thesis
    unfolding final_reply_def using mergeFinalAnswer_dom by metis
qed

text \<open>A model that answers at once, in prose around an object.\<close>

definition q :: string where
  "q = [CHR 0x22]"

definition sample_answer :: string where
  "sample_answer =
     ''{'' @ q @ ''choices'' @ q @ '':[{'' @ q @ ''message'' @ q @ '':{'' @ q @ ''role'' @ q @ '':''
     @ q @ ''assistant'' @ q @ '','' @ q @ ''content'' @ q @ '':'' @ q @ ''Sure: {}'' @ q @ ''}}]}''"

definition sample_config :: config where
  "sample_config = loadConfig (\<lambda>name.
     if name = ''NODE_NAME'' then ''fraud''
     else if name = ''LLM_BASE_URL'' then ''http://llm/v1/''
     else if name = ''ALLOWED_TOOLS'' then ''calculate_risk_score'' else [])"

definition risk_tool :: toolBinding where
  "risk_tool =
     \<lparr>binding_client = ''claims-tools'',
      binding_tool = \<lparr>tool_name = ''calculate_risk_score'', tool_description = ''Score a claim'',
        schema_properties = None, schema_required = None\<rparr>\<rparr>"

definition sample_handler :: agentHandler where
  "sample_handler =
     \<lparr>cfg = sample_config, tools = fmap_of_list [(''calculate_risk_score'', risk_tool)],
      llm = Some (newLLMClient sample_config), joins = fmempty\<rparr>"

definition sample_services :: "string \<Rightarrow> content list \<Rightarrow> services" where
  "sample_services body cs =
     \<lparr>answer_send = (\<lambda>tr m. Acked), answer_http = (\<lambda>tr r. Response 200 ''200 OK'' body),
      answer_tool = (\<lambda>tr c n d. ToolResult True cs), bad_url = (\<lambda>u. None), json_error = (\<lambda>s. ''bad''),
      visit = (\<lambda>tr. sorted_list_of_fset), random_bytes = (\<lambda>tr i. CHR ''0'')\<rparr>"

theorem agent_loop_result_witness:
  "\<exists>out tr'. agentLoop (sample_services sample_answer []) sample_handler (Some (fmupd ''amount'' (JNum ''12'') fmempty)) []
       = (Some out, tr') \<and> ''amount'' |\<in>| fmdom out"
proof -
  let ?r = "agentLoop (sample_services sample_answer []) sample_handler (Some (fmupd ''amount'' (JNum ''12'') fmempty)) []"
  have "fst ?r \<noteq> None" by code_simp
  then obtain out tr' where r: "?r = (Some out, tr')" by (cases ?r) auto
  from agent_loop_result[OF r] have "''amount'' |\<in>| fmdom out"
    by (metis entries_simps(2) fmdom_fmupd finsertI1 fsubsetD)
  with r show ?thesis by blast
qed

subsection \<open>The answer\<close>

text \<open>An object in the answer of a model is found in each of the three forms the code is
  meant for: alone; in a fenced block tagged json, with prose before and after it; and bare
  between prose without braces. What is found is the object itself, when its text contains no
  backquote and the prose starts with a visible character other than a brace or an n.\<close>
theorem answer_object_found:
  assumes "wf_object o'" "CHR ''`'' \<notin> set (marshal (JObj o'))"
    and "prose_head c" "CHR ''`'' \<notin> set (c # pre)" "CHR ''`'' \<notin> set suf"
  shows "extractJSONObject (marshal (JObj o')) = Some (Some o')
    \<and> extractJSONObject ((c # pre) @ fenced o' @ any) = Some (Some o')
    \<and> (CHR ''{'' \<notin> set (c # pre) \<and> CHR ''}'' \<notin> set suf
        \<longrightarrow> extractJSONObject ((c # pre) @ marshal (JObj o') @ suf) = Some (Some o'))"
proof (intro conjI impI)
  show "extractJSONObject (marshal (JObj o')) = Some (Some o')"
    using tryUnmarshal_object[OF assms(1)] by (simp add: extractJSONObject_def)
next
  have "tryUnmarshalObject (marshal (JObj o') @ [CHR 0x0A]) = Some (Some o')"
    using tryUnmarshal_object[OF assms(1)]
    unfolding tryUnmarshalObject_def trim_space_newline marshal_trim .
  with fenced_block_found[OF assms(4,2), of any] tryUnmarshal_prose[OF assms(3), of "pre @ fenced o' @ any"]
  show "extractJSONObject ((c # pre) @ fenced o' @ any) = Some (Some o')"
    by (simp add: extractJSONObject_def)
next
  assume b: "CHR ''{'' \<notin> set (c # pre) \<and> CHR ''}'' \<notin> set suf"
  have "cut ''```'' ((c # pre) @ marshal (JObj o') @ suf) = None"
    by (rule cut_none) (use assms(2,4,5) in auto)
  with b braced_part_found[of "c # pre" suf o'] tryUnmarshal_object[OF assms(1)]
    tryUnmarshal_prose[OF assms(3), of "pre @ marshal (JObj o') @ suf"]
  show "extractJSONObject ((c # pre) @ marshal (JObj o') @ suf) = Some (Some o')"
    by (simp add: extractJSONObject_def fenced_block_def del: marshal.simps)
qed

definition risk_answer :: object where
  "risk_answer = fmap_of_list [(''risk'', JNum ''0.25'')]"

theorem answer_object_found_witness:
  "extractJSONObject (''Here is the answer: '' @ marshal (JObj risk_answer) @ '' Done.'') = Some (Some risk_answer)
   \<and> extractJSONObject (''Here: '' @ fenced risk_answer @ ''{x} ```'') = Some (Some risk_answer)"
proof -
  have w: "wf_object risk_answer" "CHR ''`'' \<notin> set (marshal (JObj risk_answer))" "prose_head CHR ''H''"
    by code_simp+
  show ?thesis
    using answer_object_found[OF w, of "''ere is the answer: ''" "'' Done.''" "[]"]
      answer_object_found[OF w, of "''ere: ''" "[]" "''{x} ```''"]
    by (simp del: marshal.simps)
qed

text \<open>An answer \<open>null\<close> is dropped without a trace: it is read as an object without
  fields, so the outgoing data are the incoming ones, although an answer that is no object is
  meant to be kept under \<open>result\<close>.\<close>
theorem null_answer_is_dropped: "mergeFinalAnswer d ''null'' = entries d"
proof -
  have "extractJSONObject ''null'' = Some None" by code_simp
  then show ?thesis by (simp add: mergeFinalAnswer_def Let_def)
qed

subsection \<open>The tools\<close>

lemma bind_tools_lookup:
  "fmlookup (bind_tools c ts m) name = Some b \<Longrightarrow>
     fmlookup m name = Some b \<or> (tool_name (binding_tool b) = name \<and> binding_client b = c)"
  by (induction c ts m rule: bind_tools.induct) (auto split: if_splits)

text \<open>What the loop over the endpoints keeps true of its state.\<close>

definition mcp_invariant :: "mcp_connections \<Rightarrow> bool" where
  "mcp_invariant s \<longleftrightarrow>
     (\<forall>name b. fmlookup (found_tools s) name = Some b \<longrightarrow>
        tool_name (binding_tool b) = name \<and> binding_client b \<in> set (kept_clients s))"

lemma connect_endpoint_invariant: "mcp_invariant s \<Longrightarrow> mcp_invariant (connect_endpoint c v s)"
  by (fastforce simp: mcp_invariant_def connect_endpoint_def split: sum.splits dest: bind_tools_lookup)

lemma connect_endpoints_invariant: "mcp_invariant s \<Longrightarrow> mcp_invariant (connect_endpoints view eps names s)"
  by (induction view eps names s rule: connect_endpoints.induct)
    (auto split: option.splits intro: connect_endpoint_invariant)

definition started :: "(string \<Rightarrow> string \<Rightarrow> endpoint_view) \<Rightarrow> (string, string) fmap \<Rightarrow> string \<Rightarrow> bool" where
  "started view eps name \<longleftrightarrow>
     (\<exists>url. fmlookup eps name = Some url \<and> create_error (view name url) = None
        \<and> start_error (view name url) = None)"

lemma connect_endpoints_clients:
  "mset (kept_clients (connect_endpoints view eps names s)) + mset (closed_clients (connect_endpoints view eps names s))
     = mset (kept_clients s) + mset (closed_clients s) + mset (filter (started view eps) names)"
proof (induction view eps names s rule: connect_endpoints.induct)
  case (2 view eps name names s)
  show ?case
  proof (cases "fmlookup eps name")
    case None
    with 2 show ?thesis by (simp add: started_def)
  next
    case (Some url)
    have "mset (kept_clients (connect_endpoint name (view name url) s))
        + mset (closed_clients (connect_endpoint name (view name url) s))
      = mset (kept_clients s) + mset (closed_clients s)
        + mset (if started view eps name then [name] else [])"
      using Some by (auto simp: connect_endpoint_def started_def split: sum.splits)
    with Some 2 show ?thesis by simp
  qed
qed simp

text \<open>No connection to a tool server is lost: when the cleanup function has run, the clients
  that were closed are exactly those that could be made and started, each once, whether or not
  they failed afterwards; and every tool found is bound under its own name to a client that is
  kept open until then.\<close>
theorem mcp_clients_accounted:
  assumes "good_order ord"
  shows "distinct (closed_clients (cleanup_mcp (connectMCPTools ord view c)))
    \<and> set (closed_clients (cleanup_mcp (connectMCPTools ord view c))) = {name. started view (mcpEndpoints c) name}
    \<and> (\<forall>name b. fmlookup (found_tools (connectMCPTools ord view c)) name = Some b \<longrightarrow>
        tool_name (binding_tool b) = name \<and> binding_client b \<in> set (kept_clients (connectMCPTools ord view c)))"
proof -
  let ?s0 = "\<lparr>found_tools = fmempty, kept_clients = [], closed_clients = []\<rparr>"
    and ?names = "ord (fmdom (mcpEndpoints c))"
  have "mcp_invariant ?s0" by (simp add: mcp_invariant_def)
  from connect_endpoints_invariant[OF this] have i: "mcp_invariant (connectMCPTools ord view c)"
    by (simp add: connectMCPTools_def)
  have m: "mset (closed_clients (cleanup_mcp (connectMCPTools ord view c)))
      = mset (filter (started view (mcpEndpoints c)) ?names)"
    using connect_endpoints_clients[of view "mcpEndpoints c" ?names ?s0]
    by (simp add: cleanup_mcp_def connectMCPTools_def add.commute)
  have it: "iterates ?names (mcpEndpoints c)" by (rule good_order_iterates[OF assms])
  have "set (filter (started view (mcpEndpoints c)) ?names) = {name. started view (mcpEndpoints c) name}"
    using iterates_set[OF it] by (auto simp: started_def)
  then show ?thesis
    using i m iterates_distinct[OF it]
    by (simp add: mcp_invariant_def mset_eq_setD[OF m] mset_eq_imp_distinct_iff[OF m])
qed

definition claims_view :: "string \<Rightarrow> string \<Rightarrow> endpoint_view" where
  "claims_view name url =
     (if name = ''claims-tools''
      then \<lparr>create_error = None, start_error = None, initialize_error = None,
             listed_tools = Inr [binding_tool risk_tool]\<rparr>
      else \<lparr>create_error = None, start_error = None, initialize_error = Some ''timeout'',
             listed_tools = Inr []\<rparr>)"

definition claims_config :: config where
  "claims_config = sample_config\<lparr>mcpEndpoints :=
     fmap_of_list [(''claims-tools'', ''http://mcp''), (''old-tools'', ''http://old'')]\<rparr>"

lemma sorted_good: "good_order sorted_list_of_fset"
  by (auto simp: good_order_def sorted_list_of_fset.rep_eq fset_eq_iff fset_of_list_elem)

theorem mcp_clients_accounted_witness:
  "set (closed_clients (cleanup_mcp (connectMCPTools sorted_list_of_fset claims_view claims_config)))
     = {''claims-tools'', ''old-tools''}"
  using mcp_clients_accounted[OF sorted_good, of claims_view claims_config]
  by (auto simp: started_def claims_view_def claims_config_def split: if_splits)

lemma offered_names:
  assumes "tools h = found_tools (connectMCPTools ord view (cfg h))"
  shows "map (\<lambda>t. tf_name (ts_function t)) (toolSpecs h)
    = filter (\<lambda>name. fmlookup (tools h) name \<noteq> None) (allowedTools (cfg h))"
proof -
  have "mcp_invariant (connectMCPTools ord view (cfg h))"
    unfolding connectMCPTools_def by (rule connect_endpoints_invariant) (simp add: mcp_invariant_def)
  then have n: "tool_name (binding_tool b) = name" if "fmlookup (tools h) name = Some b" for name b
    using that assms by (simp add: mcp_invariant_def)
  have "map (\<lambda>t. tf_name (ts_function t)) (specs_of (tools h) names)
      = filter (\<lambda>name. fmlookup (tools h) name \<noteq> None) names" for names
    by (induction names) (auto split: option.splits dest: n)
  then show ?thesis by (simp add: toolSpecs_def)
qed


text \<open>The list of allowed tools does not limit what the LLM can call: a call is looked up
  among all tools of the node's endpoints, so whatever ALLOWED_TOOLS says, the same calls are
  carried out with the same results.\<close>
theorem allowed_tools_not_enforced:
  "callToolForAgent svc (h\<lparr>cfg := (cfg h)\<lparr>allowedTools := ts\<rparr>\<rparr>) tc tr = callToolForAgent svc h tc tr"
  by (simp add: callToolForAgent_def)

text \<open>What a tool says of its failure is lost when it is text: for a call that was made and
  answered with contents of which none is a JSON object (or null), the LLM is handed \<open>{}\<close>,
  with or without the error flag of the result.\<close>
theorem tool_error_text_is_lost:
  assumes "fmlookup (tools h) (fn_name (tc_function tc)) = Some b"
    and "unmarshal_map (fn_arguments (tc_function tc)) = Some args"
    and "answer_tool svc tr (binding_client b) (fn_name (tc_function tc)) args = ToolResult is_error cs"
    and "\<forall>t. TextContent t \<in> set cs \<longrightarrow> unmarshal_map t = None"
  shows "fst (callToolForAgent svc h tc tr) = ''{}''"
proof -
  have "parse_contents cs = Some fmempty"
    using assms(4) by (induction cs rule: parse_contents.induct) auto
  moreover have "marshal_map (Some fmempty) = ''{}''" by code_simp
  ultimately show ?thesis
    using assms(1-3) by (simp add: callToolForAgent_def call_tool_def Let_def parseToolResult_def)
qed

definition sample_call :: toolCall where
  "sample_call =
     \<lparr>tc_id = ''call_1'', tc_type = ''function'',
      tc_function = \<lparr>fn_name = ''calculate_risk_score'', fn_arguments = ''{}''\<rparr>\<rparr>"

theorem tool_error_text_is_lost_witness:
  "fst (callToolForAgent (sample_services [] [TextContent ''fraud database is down'']) sample_handler sample_call [])
     = ''{}''"
proof -
  have "unmarshal_map ''fraud database is down'' = None" "unmarshal_map ''{}'' = Some (Some fmempty)"
    by code_simp+
  then show ?thesis
    by (intro tool_error_text_is_lost[where b = risk_tool and args = "Some fmempty"
          and is_error = True and cs = "[TextContent ''fraud database is down'']"])
      (auto simp: sample_handler_def sample_call_def sample_services_def)
qed

text \<open>The text handed to the LLM for a tool it named but the node does not have is meant as a
  JSON object and is none: the quotes around the name end the string. The text for a call that
  failed is one.\<close>
theorem unavailable_text_is_no_json:
  "parse (fst (callToolForAgent svc (h\<lparr>tools := fmempty\<rparr>) sample_call tr)) = None
   \<and> unmarshal_map (failed_call_result ''connection refused'')
       = Some (Some (fmupd ''error'' (JStr ''connection refused'') fmempty))"
proof -
  have "parse (unavailable_result ''calculate_risk_score'') = None"
    "unmarshal_map (failed_call_result ''connection refused'')
       = Some (Some (fmupd ''error'' (JStr ''connection refused'') fmempty))"
    by code_simp+
  then show ?thesis by (simp add: callToolForAgent_def sample_call_def Let_def)
qed


end
