(* ===== verification/HandlerProps.thy ===== *)
theory HandlerProps
  imports HandlerLaws AgentProps
begin

section \<open>Properties of the message handler\<close>

text \<open>
  When outputs are published and messages marked, what survives a crash at any moment, when a
  join is complete, and what recovery does at the start. The concrete runs use two contributions
  to the join of a node that depends on \<open>fraud\<close> and \<open>coverage\<close>.
\<close>

subsection \<open>Publishing\<close>

text \<open>Publishing sends one and the same envelope, keyed with the correlation ID, to every
  output topic in order, and reports success exactly when Kafka acknowledged all of them; at the
  first topic it refused, publishing stops and names that topic in the error.\<close>
theorem publish_outcome:
  "let (r, tr') = publish svc h cid out tr in
     (r = None \<and> tr' = tr @ map (\<lambda>t. Sent (output_message h cid out t) Acked) (outputTopics (cfg h)))
     \<or> (\<exists>done t rest e kept. outputTopics (cfg h) = done @ t # rest \<and> r = Some (PublishingTo t e)
          \<and> tr' = tr @ map (\<lambda>t. Sent (output_message h cid out t) Acked) done
                     @ [Sent (output_message h cid out t) (Rejected e kept)])"
  using publish_trace[of svc h cid out tr]
  by (cases "publish svc h cid out tr") (auto simp: published_def published_partly_def)

subsection \<open>Nodes with at most one dependency\<close>

text \<open>C9: A node without a join works at least once: it marks a message only as the very last
  thing, after the agent loop gave a result and every output topic acknowledged it; in every
  other case the process ends without marking the message, so Kafka delivers it again.\<close>
theorem straight_through_at_least_once:
  assumes "\<not> isFanIn h" "consume_message svc h msg tr = (r, tr')"
  shows "(\<exists>es out b. r = Ret (completed_joins h (correlationID (message_envelope svc msg tr)))
      \<and> list_all asked es \<and> buried h (correlationID (message_envelope svc msg tr)) b
      \<and> tr' = tr @ es @ published h (correlationID (message_envelope svc msg tr)) out @ b @ [Marked msg])
    \<or> (\<exists>f es. r = Fatal f \<and> tr' = tr @ es \<and> list_all not_marked es)"
proof -
  let ?cid = "correlationID (message_envelope svc msg tr)"
  obtain r1 tr1 where c: "completeCorrelation svc h ?cid (data (message_envelope svc msg tr)) tr = (r1, tr1)"
    by fastforce
  from c show ?thesis
  proof (cases rule: complete_cases)
    case (failed es f)
    then show ?thesis
      using assms(2) c by (auto simp: consume_straight[OF assms(1)] intro: not_marked_asked)
  next
    case (unpublished es out err ps)
    then have "r = Fatal (ResultNotPublished ?cid err)" "tr' = tr @ (es @ ps)"
      using assms(2) c by (simp_all add: consume_straight[OF assms(1)])
    moreover have "list_all not_marked (es @ ps)"
      using not_marked_asked[OF unpublished(3)] not_marked_partly[OF unpublished(4)] by simp
    ultimately show ?thesis by blast
  next
    case (completed es out b)
    then have "r = Ret (completed_joins h ?cid)" "tr' = tr @ es @ published h ?cid out @ b @ [Marked msg]"
      using assms(2) c by (simp_all add: consume_straight[OF assms(1)])
    with completed(2,4) show ?thesis by blast
  qed
qed

subsection \<open>Joins and crashes\<close>

text \<open>The recorded contribution of an envelope, in the changelog of a trace.\<close>

definition remembers :: "agentHandler \<Rightarrow> envelope \<Rightarrow> trace \<Rightarrow> bool" where
  "remembers h env tr \<longleftrightarrow>
     (\<exists>st. fmlookup (changelog h tr) (correlationID env) = Some st
        \<and> fmlookup (entries (received st)) (source env) = Some (data env))"

lemma remembers_recorded:
  assumes "wf_joinState (with_contribution env rcv)" "quiet (joinStateTopic (cfg h)) es"
  shows "remembers h env (tr @ recorded_events h env rcv msg @ es)"
proof -
  have "changelog h (tr @ recorded_events h env rcv msg @ es)
      = changelog h (tr @ [Sent (changelog_message h (correlationID env) (with_contribution env rcv)) Acked])"
    using quiet_records[OF assms(2)] by (simp add: changelog_def recorded_events_def)
  then have "fmlookup (changelog h (tr @ recorded_events h env rcv msg @ es)) (correlationID env)
      = Some (with_contribution env rcv)"
    by (simp add: changelog_written[OF assms(1)])
  then show ?thesis by (simp add: remembers_def with_contribution_def)
qed

lemma split_at_mark:
  assumes "es @ later = [Sent m a, Marked msg] @ rest" "Marked msg \<in> set es"
  obtains es' where "es = [Sent m a, Marked msg] @ es'" "rest = es' @ later"
proof (cases es)
  case (Cons x es1)
  show ?thesis
  proof (cases es1)
    case Nil
    with Cons assms show ?thesis by simp
  next
    case (Cons y es2)
    with \<open>es = x # es1\<close> assms that show ?thesis by simp
  qed
qed (use assms in simp)

text \<open>What can have happened at any moment of the completion of a correlation: nothing was written
  to the changelog, or everything was published.\<close>

lemma completion_moments:
  assumes "completeCorrelation svc h cid d tr = (r, tr')" "tr' = tr @ es @ later"
    and "t \<notin> set (outputTopics (cfg h))"
  shows "quiet t es \<or> (\<exists>out. set (published h cid out) \<subseteq> set es)"
  using assms(1)
proof (cases rule: complete_cases)
  case (failed as f)
  then have "quiet t (es @ later)" using assms(2) quiet_asked by simp
  then show ?thesis by simp
next
  case (unpublished as out err ps)
  then have "quiet t (es @ later)" using assms(2) quiet_asked quiet_published(2)[OF assms(3)] by auto
  then show ?thesis by simp
next
  case (completed as out b)
  then have eq: "es @ later = (as @ published h cid out) @ b" using assms(2) by simp
  have q: "quiet t (as @ published h cid out)"
    using quiet_asked[OF completed(2)] quiet_published(1)[OF assms(3)] by simp
  from eq obtain us where "(es = (as @ published h cid out) @ us) \<or> (es @ us = as @ published h cid out)"
    using append_eq_append_conv2[of es later "as @ published h cid out" b] by blast
  then show ?thesis
  proof
    assume "es @ us = as @ published h cid out"
    with q have "quiet t es" by (metis quiet_append)
    then show ?thesis ..
  next
    assume "es = (as @ published h cid out) @ us"
    then show ?thesis by auto
  qed
qed

text \<open>No contribution to a join is lost in a crash. When a fan-in node whose memory agrees with
  its changelog has handled a message, then at every moment at which the message is marked (so
  that Kafka will not deliver it again) either the contribution is in the changelog, where a
  restarted runner finds it, or every output topic has acknowledged the result of the join.\<close>
theorem fan_in_crash_safe:
  assumes "isFanIn h" "fan_in_node (cfg h)" "synced h tr" "valid_utf8 (cm_value msg)"
    and "consume_message svc h msg tr = (r, tr')" "env = message_envelope svc msg tr"
    and "tr' = tr @ es @ later" "Marked msg \<in> set es"
  shows "remembers h env (tr @ es)
    \<or> (\<exists>out. \<forall>t \<in> set (outputTopics (cfg h)). Sent (output_message h (correlationID env) out t) Acked \<in> set es)"
  using assms(1,5,6)
proof (cases rule: consume_cases)
  case (waiting rcv)
  then have "es @ later = recorded_events h env rcv msg" using assms(7) by simp
  then obtain es' where e: "es = recorded_events h env rcv msg @ es'" "[] = es' @ later"
    using split_at_mark[of es later _ _ msg "[]"] assms(8) by (auto simp: recorded_events_def)
  have "wf_joinState (with_contribution env rcv)"
    using wf_contribution[OF synced_known[OF assms(3)] waiting(1)] message_wf[OF assms(4)] assms(6) by blast
  from remembers_recorded[OF this, of h "[]" tr msg] e show ?thesis by (simp add: quiet_def)
next
  case (ready rcv m)
  let ?h = "taken h env rcv" and ?t = "joinStateTopic (cfg h)"
  have w: "wf_joinState (with_contribution env rcv)"
    using wf_contribution[OF synced_known[OF assms(3)] ready(1)] message_wf[OF assms(4)] assms(6) by blast
  have nt: "?t \<notin> set (outputTopics (cfg ?h))" using assms(2) by (simp add: fan_in_node_def)
  obtain rest where rest: "tr' = (tr @ recorded_events h env rcv msg) @ rest"
    using ready(3) by (cases rule: complete_cases) auto
  then have "es @ later = recorded_events h env rcv msg @ rest" using assms(7) by simp
  then obtain es' where e: "es = recorded_events h env rcv msg @ es'" "rest = es' @ later"
    using split_at_mark[of es later _ _ msg rest] assms(8) by (auto simp: recorded_events_def)
  have rem: ?thesis if "quiet ?t es'"
    using remembers_recorded[OF w that, of tr msg] e(1) by simp
  from completion_moments[OF ready(3) rest[unfolded e(2)] nt]
  show ?thesis
  proof
    assume "\<exists>out. set (published ?h (correlationID env) out) \<subseteq> set es'"
    then obtain out where o: "set (published ?h (correlationID env) out) \<subseteq> set es'" by blast
    have "output_message ?h = output_message h" by (intro ext) (simp add: output_message_def)
    with o have "\<forall>t \<in> set (outputTopics (cfg h)). Sent (output_message h (correlationID env) out t) Acked \<in> set es"
      using e(1) by (auto simp: published_def)
    then show ?thesis by blast
  qed (rule rem)
qed (use assms(7,8) in \<open>auto simp: append_eq_Cons_conv Cons_eq_append_conv\<close>)

subsection \<open>A node with two dependencies\<close>

definition decision_config :: config where
  "decision_config = loadConfig (\<lambda>name.
     if name = ''NODE_NAME'' then ''decision''
     else if name = ''DEPENDS_ON'' then ''fraud,coverage''
     else if name = ''OUTPUT_TOPICS'' then ''payout-input''
     else if name = ''JOIN_STATE_TOPIC'' then ''decision-joinstate''
     else if name = ''LLM_BASE_URL'' then ''http://llm/v1'' else [])"

definition decision_handler :: agentHandler where
  "decision_handler =
     \<lparr>cfg = decision_config, tools = fmempty, llm = Some (newLLMClient decision_config), joins = fmempty\<rparr>"

definition contribution :: "string \<Rightarrow> int \<Rightarrow> consumer_message" where
  "contribution node offset =
     \<lparr>cm_topic = ''decision-input'', cm_partition = 0, cm_offset = offset,
      cm_value = marshal_envelope \<lparr>correlationID = ''CLM-1'', source = node,
        data = Some (fmupd ''score'' (JNum ''1'') fmempty)\<rparr>\<rparr>"

definition from_outside :: consumer_message where
  "from_outside =
     \<lparr>cm_topic = ''decision-input'', cm_partition = 0, cm_offset = 1,
      cm_value = marshal (JObj (fmupd ''id'' (JStr ''CLM-1'') fmempty))\<rparr>"

definition good_services :: services where
  "good_services = sample_services sample_answer []"

lemma decision_facts:
  "isFanIn decision_handler" "fan_in_node (cfg decision_handler)" "synced decision_handler []"
  "valid_utf8 (cm_value (contribution ''fraud'' 0))"
  by code_simp+

theorem straight_through_at_least_once_witness:
  "\<exists>h' tr'. consume_message good_services sample_handler (contribution ''fraud'' 0) [] = (Ret h', tr')
     \<and> last tr' = Marked (contribution ''fraud'' 0)"
proof -
  let ?c = "consume_message good_services sample_handler (contribution ''fraud'' 0) []"
  have n: "\<not> isFanIn sample_handler" by code_simp
  have ok: "case fst ?c of Ret h' \<Rightarrow> True | _ \<Rightarrow> False" by code_simp
  have c: "?c = (fst ?c, snd ?c)" by simp
  from straight_through_at_least_once[OF n c] ok show ?thesis
    by (auto split: outcome.splits) (metis append_assoc last_snoc prod.collapse)
qed

theorem fan_in_crash_safe_witness:
  "remembers decision_handler (message_envelope good_services (contribution ''fraud'' 0) [])
     (snd (consume_message good_services decision_handler (contribution ''fraud'' 0) []))"
proof -
  let ?tr = "snd (consume_message good_services decision_handler (contribution ''fraud'' 0) [])"
  have c: "consume_message good_services decision_handler (contribution ''fraud'' 0) []
      = (fst (consume_message good_services decision_handler (contribution ''fraud'' 0) []), ?tr)" by simp
  have m: "Marked (contribution ''fraud'' 0) \<in> set ?tr" by code_simp
  have "list_all (\<lambda>e. case e of Sent pm a \<Rightarrow> pm_topic pm \<noteq> ''payout-input'' | _ \<Rightarrow> True) ?tr" by code_simp
  then have "\<forall>e \<in> set ?tr. case e of Sent pm a \<Rightarrow> pm_topic pm \<noteq> ''payout-input'' | _ \<Rightarrow> True"
    by (simp add: list_all_iff)
  then have n: "Sent (output_message decision_handler cid out ''payout-input'') Acked \<notin> set ?tr" for cid out
    by (fastforce simp: output_message_def)
  have o: "outputTopics (cfg decision_handler) = [''payout-input'']" by code_simp
  show ?thesis
    using fan_in_crash_safe[OF decision_facts c refl, of ?tr "[]"] m n by (simp add: o)
qed

subsection \<open>Memory and changelog\<close>


definition two_messages :: "consumer_message list" where
  "two_messages = [contribution ''fraud'' 0, contribution ''coverage'' 1]"


subsection \<open>When a join is complete\<close>

text \<open>C15: A join counts sources: it is complete when as many different sources have contributed as
  the node has entries in dependsOn. When the entries differ and only dependencies contribute,
  that is the case exactly when every dependency has; and when an entry is repeated and only
  dependencies contribute, it never is.\<close>
theorem join_completion:
  assumes "isFanIn h" "join svc h env tr = (Ret (Inr (m, complete)), h', tr')"
    and "received (known h (correlationID env)) = Some rcv"
  shows "(complete \<longleftrightarrow> length (dependsOn (cfg h)) \<le> card (insert (source env) (fset (fmdom rcv))))
    \<and> (insert (source env) (fset (fmdom rcv)) \<subseteq> set (dependsOn (cfg h)) \<longrightarrow>
         (complete \<longleftrightarrow> distinct (dependsOn (cfg h))
            \<and> insert (source env) (fset (fmdom rcv)) = set (dependsOn (cfg h))))"
proof -
  let ?deps = "dependsOn (cfg h)" and ?S = "insert (source env) (fset (fmdom rcv))"
  have c: "complete \<longleftrightarrow> length ?deps \<le> card ?S"
    using assms(1,2)
  proof (cases rule: join_cases)
    case (recorded rcv' st)
    then have "rcv' = rcv" using assms(3) by simp
    with recorded(3) show ?thesis by (auto split: if_splits)
  qed simp_all
  have "length ?deps \<le> card ?S \<longleftrightarrow> distinct ?deps \<and> ?S = set ?deps" if "?S \<subseteq> set ?deps"
  proof -
    have le: "card ?S \<le> card (set ?deps)" "card (set ?deps) \<le> length ?deps"
      using that by (simp_all add: card_mono card_length)
    show ?thesis
    proof
      assume "length ?deps \<le> card ?S"
      with le have "card (set ?deps) = length ?deps" "card ?S = card (set ?deps)" by linarith+
      with that show "distinct ?deps \<and> ?S = set ?deps"
        by (simp add: card_distinct card_subset_eq)
    next
      assume "distinct ?deps \<and> ?S = set ?deps"
      then show "length ?deps \<le> card ?S" by (simp add: distinct_card)
    qed
  qed
  with c show ?thesis by blast
qed

theorem join_completion_witness:
  "\<exists>m h' tr'. join good_services decision_handler
       (message_envelope good_services (contribution ''fraud'' 0) []) [] = (Ret (Inr (m, False)), h', tr')"
proof -
  let ?env = "message_envelope good_services (contribution ''fraud'' 0) []"
  let ?j = "join good_services decision_handler ?env []"
  have "case fst ?j of Ret (Inr x) \<Rightarrow> True | _ \<Rightarrow> False" by code_simp
  then obtain m complete h' tr' where j: "?j = (Ret (Inr (m, complete)), h', tr')"
    by (cases ?j) (auto split: outcome.splits sum.splits)
  have k: "received (known decision_handler (correlationID ?env)) = Some fmempty"
    by (simp add: known_def decision_handler_def)
  have d: "length (dependsOn (cfg decision_handler)) = 2" by code_simp
  from join_completion[OF decision_facts(1) j k] d j show ?thesis by auto
qed

text \<open>A message that no dependency sent can complete a join: after the contribution of
  \<open>fraud\<close>, a message from outside the swarm with the same ID (which has no source) makes the
  node that waits for \<open>fraud\<close> and \<open>coverage\<close> run its agent and publish a result,
  although \<open>coverage\<close> has reported nothing.\<close>
theorem stray_source_completes_join:
  "let tr = snd (consumeClaim good_services decision_handler [contribution ''fraud'' 0, from_outside] [])
   in list_ex (\<lambda>e. case e of Sent m Acked \<Rightarrow> pm_topic m = ''payout-input'' \<and> pm_key m = ''CLM-1'' | _ \<Rightarrow> False) tr
      \<and> Marked from_outside \<in> set tr"
  by code_simp


subsection \<open>Recovery\<close>

text \<open>Recovery at the start completes exactly the joins that were complete: when it returns, each
  of the visited joins with enough sources was completed and is gone, and every other join is as
  it was.\<close>
theorem recovery_completes_joins:
  assumes "recover_joins svc h cids tr = (Ret h', tr')" "joinStateTopic (cfg h) \<noteq> []"
  shows "fmlookup (joins h') cid =
    (case fmlookup (joins h) cid of
       None \<Rightarrow> None
     | Some st \<Rightarrow> if cid \<in> set cids \<and> length (dependsOn (cfg h)) \<le> gomap_len (received st)
                  then None else Some st)"
  using assms
proof (induction svc h cids tr rule: recover_joins.induct)
  case (2 svc h c cids tr)
  show ?case
  proof (cases "\<exists>st. fmlookup (joins h) c = Some st \<and> gomap_len (received st) \<ge> length (dependsOn (cfg h))")
    case False
    with 2 show ?thesis by (auto split: option.splits)
  next
    case True
    then obtain st where st: "fmlookup (joins h) c = Some st"
      "gomap_len (received st) \<ge> length (dependsOn (cfg h))" by blast
    obtain r1 tr1 where k: "completeCorrelation svc h c (Some (mergeJoinedData (visit svc tr) st)) tr = (r1, tr1)"
      by fastforce
    with 2(4) st obtain h1 where h1: "r1 = Ret h1" "recover_joins svc h1 cids tr1 = (Ret h', tr')"
      by (cases r1) auto
    have j: "h1 = h\<lparr>joins := fmdrop c (joins h)\<rparr>"
      using k[unfolded h1(1)] by (cases rule: complete_cases) (auto simp: completed_joins_def 2(5))
    show ?thesis
      using 2(2)[OF st(1) st(2) k[unfolded h1(1), symmetric] refl h1(2)] 2(5) st
      by (auto simp: j split: option.splits)
  qed
qed (simp split: option.splits)

definition hydrated_handler :: agentHandler where
  "hydrated_handler = decision_handler\<lparr>joins :=
     fmap_of_list
       [(''CLM-1'', \<lparr>received = Some (fmap_of_list [(''fraud'', None), (''coverage'', None)])\<rparr>),
        (''CLM-2'', \<lparr>received = Some (fmap_of_list [(''fraud'', None)])\<rparr>)]\<rparr>"

theorem recovery_completes_joins_witness:
  "\<exists>h' tr'. recover_joins good_services hydrated_handler [''CLM-1'', ''CLM-2''] [] = (Ret h', tr')
     \<and> fmlookup (joins h') ''CLM-1'' = None
     \<and> fmlookup (joins h') ''CLM-2'' = Some \<lparr>received = Some (fmap_of_list [(''fraud'', None)])\<rparr>"
proof -
  let ?c = "recover_joins good_services hydrated_handler [''CLM-1'', ''CLM-2''] []"
  have "case fst ?c of Ret h' \<Rightarrow> True | _ \<Rightarrow> False" by code_simp
  then obtain h' tr' where c: "?c = (Ret h', tr')" by (cases ?c) (auto split: outcome.splits)
  have t: "joinStateTopic (cfg hydrated_handler) \<noteq> []" "length (dependsOn (cfg hydrated_handler)) = 2"
    by code_simp+
  show ?thesis
    using recovery_completes_joins[OF c t(1), of "''CLM-1''"] recovery_completes_joins[OF c t(1), of "''CLM-2''"] c t(2)
    by (simp add: hydrated_handler_def)
qed

end
