(* ===== verification/Deployed.thy ===== *)
theory Deployed
  imports OperatorProps MessageProps JoinProps HandlerProps
begin

section \<open>From the resource to the running node\<close>

text \<open>
  The operator writes a node's wiring into the environment of its pods, and the runner reads it
  back. \<open>provides\<close> is what Kubernetes promises of that environment; \<open>node_config\<close> is the
  configuration the node should run with, and \<open>loadConfig_deployed\<close> says it does.
\<close>

subsection \<open>The environment of a pod\<close>

text \<open>
  Every variable of the container has its value (Kubernetes leaves a value without a dollar sign
  as it is and expands references in the others), or the value of the secret it refers to; a
  variable that is not listed is not set.
\<close>

definition provides :: "(secretKeySelector \<Rightarrow> string) \<Rightarrow> env_var list \<Rightarrow> (string \<Rightarrow> string) \<Rightarrow> bool" where
  "provides secrets env getenv \<longleftrightarrow>
     (\<forall>v \<in> set env.
        case env_from v of
          EnvValue x \<Rightarrow> CHR ''$'' \<notin> set x \<longrightarrow> getenv (env_name v) = x
        | EnvSecret ref \<Rightarrow> getenv (env_name v) = secrets ref)
     \<and> (\<forall>n. n \<notin> env_name ` set env \<longrightarrow> getenv n = [])"

text \<open>Names as Kubernetes, Kafka and MCP servers have them, and more: visible characters at both
  ends, no comma and no dollar sign.\<close>

definition plain :: "string \<Rightarrow> bool" where
  "plain s \<longleftrightarrow> s \<noteq> [] \<and> graphic_byte (hd s) \<and> graphic_byte (last s)
     \<and> CHR '','' \<notin> set s \<and> CHR ''$'' \<notin> set s"

lemma plain_csv_item: "plain s \<Longrightarrow> csv_item s"
  by (simp add: plain_def csv_item_graphic)

lemma plain_append: "plain a \<Longrightarrow> plain c \<Longrightarrow> CHR '','' \<notin> set b \<Longrightarrow> CHR ''$'' \<notin> set b \<Longrightarrow> plain (a @ b @ c)"
  by (auto simp: plain_def)

definition plain_node :: "AgentNode \<Rightarrow> bool" where
  "plain_node n \<longleftrightarrow>
     plain (node_Name n) \<and> list_all plain (node_DependsOn n) \<and> list_all plain (node_AllowedTools n)
     \<and> list_all (\<lambda>ep. plain (ep_Name ep) \<and> CHR ''='' \<notin> set (ep_Name ep) \<and> plain (ep_URL ep)) (node_MCPServices n)
     \<and> CHR ''$'' \<notin> set (node_Instructions n) \<and> CHR ''$'' \<notin> set (llm_BaseURL (node_LLM n))
     \<and> CHR ''$'' \<notin> set (llm_Model (node_LLM n))"

definition plain_swarm :: "AgentSwarm \<Rightarrow> bool" where
  "plain_swarm s \<longleftrightarrow>
     plain (swarm_Name s) \<and> list_all plain (kafka_Brokers (spec_Kafka (swarm_Spec s)))
     \<and> list_all plain_node (spec_Nodes (swarm_Spec s))"

subsection \<open>The configuration of a node\<close>

definition node_config :: "(secretKeySelector \<Rightarrow> string) \<Rightarrow> AgentSwarm \<Rightarrow> AgentNode \<Rightarrow> config" where
  "node_config secrets swarm node =
     \<lparr>brokers = kafka_Brokers (spec_Kafka (swarm_Spec swarm)),
      nodeName = node_Name node,
      inputTopic = input_topic_name (swarm_Name swarm) (node_Name node),
      outputTopics = node_outputs swarm node,
      dependsOn = node_DependsOn node,
      joinStateTopic = join_topic_of swarm node,
      allowedTools = node_AllowedTools node,
      instructions = node_Instructions node,
      mcpEndpoints = fmap_of_list (rev (map (\<lambda>ep. (ep_Name ep, ep_URL ep)) (node_MCPServices node))),
      llmBaseURL = llm_BaseURL (node_LLM node),
      llmModel = llm_Model (node_LLM node),
      llmAPIKey = (case llm_APIKeySecretRef (node_LLM node) of None \<Rightarrow> [] | Some ref \<Rightarrow> secrets ref)\<rparr>"

definition node_env :: "AgentSwarm \<Rightarrow> AgentNode \<Rightarrow> env_var list" where
  "node_env swarm node =
     deployment_env swarm node (input_topic_name (swarm_Name swarm) (node_Name node))
       (node_outputs swarm node) (join_topic_of swarm node)"

lemma desired_template_env:
  "template_containers (desired_template swarm node (input_topic_name (swarm_Name swarm) (node_Name node))
     (node_outputs swarm node) (join_topic_of swarm node))
   = [\<lparr>container_name = ''agent-runner'', container_image = node_Image node, container_env = node_env swarm node\<rparr>]"
  by (simp add: desired_template_def buildDeployment_def node_env_def Let_def)

lemma plain_input_topic: "plain s \<Longrightarrow> plain n \<Longrightarrow> plain (input_topic_name s n)"
proof -
  assume a: "plain s" "plain n"
  have "plain (n @ [] @ ''-input'')"
    by (rule plain_append[OF a(2)])
      (simp_all add: plain_def graphic_byte_def printable_byte_def ascii_byte_def control_byte_def)
  from plain_append[OF a(1) this, of "''-''"] show ?thesis by (simp add: input_topic_name_def)
qed

lemma no_dollar_join: "list_all plain xs \<Longrightarrow> CHR ''$'' \<notin> set (join_sep '','' xs)"
  by (induction xs rule: induct_list012) (auto simp: plain_def)

lemma plain_outputs: "plain_swarm swarm \<Longrightarrow> list_all plain (node_outputs swarm node)"
  by (auto simp: list_all_iff node_outputs_def in_downstream plain_swarm_def plain_node_def
      intro!: plain_input_topic)

lemma split_plain: "list_all plain xs \<Longrightarrow> splitCSV (join_sep '','' xs) = xs"
  by (rule splitCSV_join) (auto simp: list_all_iff plain_csv_item)

lemma plain_pair:
  "plain (ep_Name ep) \<Longrightarrow> plain (ep_URL ep) \<Longrightarrow> plain (ep_Name ep @ CHR ''='' # ep_URL ep)"
  using plain_append[of "ep_Name ep" "ep_URL ep" "''=''"] by simp

lemma endpoints_deployed:
  assumes "plain_node n"
  shows "read_endpoints fmempty (splitCSV (encodeMCPEndpoints (node_MCPServices n)))
    = fmap_of_list (rev (map (\<lambda>ep. (ep_Name ep, ep_URL ep)) (node_MCPServices n)))"
proof -
  let ?pairs = "map (\<lambda>ep. (ep_Name ep, ep_URL ep)) (node_MCPServices n)"
  have "list_all plain (map (\<lambda>ep. ep_Name ep @ ''='' @ ep_URL ep) (node_MCPServices n))"
    using assms plain_pair by (auto simp: plain_node_def list_all_iff)
  then have "splitCSV (encodeMCPEndpoints (node_MCPServices n)) = map (\<lambda>(name, url). name @ ''='' @ url) ?pairs"
    by (simp add: encodeMCPEndpoints_def split_plain comp_def)
  moreover have "\<forall>(name, url) \<in> set ?pairs. CHR ''='' \<notin> set name"
    using assms by (auto simp: plain_node_def list_all_iff)
  ultimately show ?thesis by (simp only: read_endpoints_pairs fmadd_empty)
qed

lemma no_dollar_endpoints: "plain_node n \<Longrightarrow> CHR ''$'' \<notin> set (encodeMCPEndpoints (node_MCPServices n))"
  unfolding encodeMCPEndpoints_def
  by (rule no_dollar_join) (auto simp: plain_node_def list_all_iff intro: plain_pair)

lemma no_dollar_topics:
  assumes "plain s" "plain n"
  shows "CHR ''$'' \<notin> set (input_topic_name s n)" "CHR ''$'' \<notin> set (join_topic_name s n)"
  using assms by (auto simp: plain_def input_topic_name_def join_topic_name_def)

lemma providesD:
  assumes "provides secrets env getenv" "\<lparr>env_name = n, env_from = EnvValue x\<rparr> \<in> set env" "CHR ''$'' \<notin> set x"
  shows "getenv n = x"
  using assms unfolding provides_def by fastforce

theorem loadConfig_deployed:
  assumes "plain_swarm swarm" "node \<in> set (spec_Nodes (swarm_Spec swarm))"
    and "provides secrets (node_env swarm node) getenv"
  shows "loadConfig getenv = node_config secrets swarm node"
proof -
  have p: "plain_node node" "plain (swarm_Name swarm)" "plain (node_Name node)"
    "list_all plain (kafka_Brokers (spec_Kafka (swarm_Spec swarm)))"
    "list_all plain (node_DependsOn node)" "list_all plain (node_AllowedTools node)"
    "CHR ''$'' \<notin> set (node_Instructions node)" "CHR ''$'' \<notin> set (llm_BaseURL (node_LLM node))"
    "CHR ''$'' \<notin> set (llm_Model (node_LLM node))"
    using assms(1,2) by (auto simp: plain_swarm_def plain_node_def list_all_iff)
  have j: "CHR ''$'' \<notin> set (join_topic_of swarm node)"
    using no_dollar_topics[OF p(2,3)] by (simp add: join_topic_of_def)
  have nn: "CHR ''$'' \<notin> set (node_Name node)" using p(3) by (simp add: plain_def)
  note d = providesD[OF assms(3)] and m = node_env_def deployment_env_def
  have e: "getenv ''KAFKA_BROKERS'' = join_sep '','' (kafka_Brokers (spec_Kafka (swarm_Spec swarm)))"
    by (rule d[OF _ no_dollar_join[OF p(4)]]) (simp add: m)
  moreover have "getenv ''NODE_NAME'' = node_Name node"
    by (rule d[OF _ nn]) (simp add: m)
  moreover have "getenv ''INPUT_TOPIC'' = input_topic_name (swarm_Name swarm) (node_Name node)"
    by (rule d[OF _ no_dollar_topics(1)[OF p(2,3)]]) (simp add: m)
  moreover have "getenv ''OUTPUT_TOPICS'' = join_sep '','' (node_outputs swarm node)"
    by (rule d[OF _ no_dollar_join[OF plain_outputs[OF assms(1)]]]) (simp add: m)
  moreover have "getenv ''DEPENDS_ON'' = join_sep '','' (node_DependsOn node)"
    by (rule d[OF _ no_dollar_join[OF p(5)]]) (simp add: m)
  moreover have "getenv ''JOIN_STATE_TOPIC'' = join_topic_of swarm node"
    by (rule d[OF _ j]) (simp add: m)
  moreover have "getenv ''ALLOWED_TOOLS'' = join_sep '','' (node_AllowedTools node)"
    by (rule d[OF _ no_dollar_join[OF p(6)]]) (simp add: m)
  moreover have "getenv ''MCP_ENDPOINTS'' = encodeMCPEndpoints (node_MCPServices node)"
    by (rule d[OF _ no_dollar_endpoints[OF p(1)]]) (simp add: m)
  moreover have "getenv ''INSTRUCTIONS'' = node_Instructions node"
    by (rule d[OF _ p(7)]) (simp add: m)
  moreover have "getenv ''LLM_BASE_URL'' = llm_BaseURL (node_LLM node)"
    by (rule d[OF _ p(8)]) (simp add: m)
  moreover have "getenv ''LLM_MODEL'' = llm_Model (node_LLM node)"
    by (rule d[OF _ p(9)]) (simp add: m)
  moreover have "getenv ''LLM_API_KEY'' = (case llm_APIKeySecretRef (node_LLM node) of None \<Rightarrow> [] | Some ref \<Rightarrow> secrets ref)"
  proof (cases "llm_APIKeySecretRef (node_LLM node)")
    case None
    then have "''LLM_API_KEY'' \<notin> env_name ` set (node_env swarm node)" by (simp add: m)
    with assms(3) None show ?thesis by (simp add: provides_def)
  next
    case (Some ref)
    let ?v = "\<lparr>env_name = ''LLM_API_KEY'', env_from = EnvSecret ref\<rparr>"
    have "?v \<in> set (node_env swarm node)" by (simp add: m Some)
    with assms(3)[unfolded provides_def, THEN conjunct1, rule_format, of ?v] Some show ?thesis by simp
  qed
  ultimately show ?thesis
    by (simp add: loadConfig_def node_config_def split_plain[OF p(4)] split_plain[OF p(5)]
        split_plain[OF p(6)] split_plain[OF plain_outputs[OF assms(1)]] endpoints_deployed[OF p(1)])
qed

lemma join_topic_not_output: "join_topic_of swarm node \<notin> set (node_outputs swarm node)"
proof
  assume "join_topic_of swarm node \<in> set (node_outputs swarm node)"
  then obtain n where n: "join_topic_of swarm node = input_topic_name (swarm_Name swarm) n"
    by (auto simp: node_outputs_def)
  show False
  proof (cases "is_fan_in node")
    case True
    with n have "input_topic_name (swarm_Name swarm) n = join_topic_name (swarm_Name swarm) (node_Name node)"
      by (simp add: join_topic_of_def)
    then show False using topic_kinds_disjoint by blast
  next
    case False
    with n show False by (simp add: join_topic_of_def input_topic_name_def)
  qed
qed

subsection \<open>The environment of a container\<close>

definition container_getenv :: "(secretKeySelector \<Rightarrow> string) \<Rightarrow> env_var list \<Rightarrow> string \<Rightarrow> string" where
  "container_getenv secrets env name =
     (case find (\<lambda>v. env_name v = name) env of
        None \<Rightarrow> []
      | Some v \<Rightarrow> (case env_from v of EnvValue x \<Rightarrow> x | EnvSecret ref \<Rightarrow> secrets ref))"

lemma find_distinct:
  "distinct (map env_name env) \<Longrightarrow> v \<in> set env \<Longrightarrow> find (\<lambda>u. env_name u = env_name v) env = Some v"
  by (induction env) (auto simp: image_iff)

lemma container_provides:
  assumes "distinct (map env_name env)"
  shows "provides secrets env (container_getenv secrets env)"
proof -
  have "find (\<lambda>u. env_name u = n) env = None" if "n \<notin> env_name ` set env" for n
    using that by (auto simp: find_None_iff)
  then show ?thesis
    using find_distinct[OF assms]
    by (auto simp: provides_def container_getenv_def split: env_source.split)
qed

text \<open>The node of the sample swarm that waits for two others, and its environment.\<close>

definition decision_node :: AgentNode where
  "decision_node = claims_nodes ! 3"

definition sample_secrets :: "secretKeySelector \<Rightarrow> string" where
  "sample_secrets ref = ''key of '' @ secret_Name ref"

definition decision_env :: "string \<Rightarrow> string" where
  "decision_env = container_getenv sample_secrets (node_env claims_swarm decision_node)"

lemma decision_node_facts:
  "decision_node \<in> set (spec_Nodes (swarm_Spec claims_swarm))" "is_fan_in decision_node"
  by (simp_all add: decision_node_def claims_swarm_def sample_swarm_def claims_nodes_def
      is_fan_in_def sample_node_def)

lemma claims_plain: "plain_swarm claims_swarm"
  by code_simp

lemma decision_provides: "provides sample_secrets (node_env claims_swarm decision_node) decision_env"
proof -
  have "distinct (map env_name (node_env claims_swarm decision_node))" by code_simp
  then show ?thesis unfolding decision_env_def by (rule container_provides)
qed

end
