(* ===== verification/ClaimsProps.thy ===== *)
theory ClaimsProps
  imports ClaimsServer Deployed AgentProps
begin

section \<open>Properties of the example's tools\<close>

text \<open>
  What the runner's agent gets from the example server, through \<open>callToolForAgent\<close> and
  \<open>parseToolResult\<close>, and that the tools the example swarm allows are those the server has.
\<close>

subsection \<open>Results\<close>

definition canned_result :: "string \<Rightarrow> object" where
  "canned_result name =
     (if name = ''parse_claim_json'' then
        fmap_of_list [(''status'', JStr ''parsed''), (''claim_id'', JStr ''CLM-9901''),
          (''policy_id'', JStr ''POL-441'')]
      else if name = ''query_fraud_database'' then
        fmap_of_list [(''previous_claims'', JNum ''0''), (''flagged'', JBool False)]
      else if name = ''calculate_risk_score'' then
        fmap_of_list [(''risk_score'', JNum ''0.12''), (''rating'', JStr ''LOW''), (''fraud_status'', JStr ''LOW'')]
      else if name = ''get_policy_coverage'' then
        fmap_of_list [(''active'', JBool True), (''max_coverage'', JNum ''50000''),
          (''coverage_status'', JStr ''ACTIVE'')]
      else fmap_of_list [(''deductible_remaining'', JNum ''500'')])"

lemma canned_texts:
  "unmarshal_map (st_handler parse_claim_json args) = Some (Some (canned_result ''parse_claim_json''))"
  "unmarshal_map (st_handler query_fraud_database args) = Some (Some (canned_result ''query_fraud_database''))"
  "unmarshal_map (st_handler calculate_risk_score args) = Some (Some (canned_result ''calculate_risk_score''))"
  "unmarshal_map (st_handler get_policy_coverage args) = Some (Some (canned_result ''get_policy_coverage''))"
  "unmarshal_map (st_handler get_deductible_balance args) = Some (Some (canned_result ''get_deductible_balance''))"
  by code_simp+

lemmas tool_defs = parse_claim_json_def query_fraud_database_def calculate_risk_score_def
  get_policy_coverage_def get_deductible_balance_def synthesize_claim_summary_def

lemma tool_names:
  "st_name parse_claim_json = ''parse_claim_json''" "st_name query_fraud_database = ''query_fraud_database''"
  "st_name calculate_risk_score = ''calculate_risk_score''"
  "st_name get_policy_coverage = ''get_policy_coverage''"
  "st_name get_deductible_balance = ''get_deductible_balance''"
  "st_name (synthesize_claim_summary num) = ''synthesize_claim_summary''"
  by (simp_all add: tool_defs)

lemma canned_handler:
  assumes "t \<in> set (claims_tools num)" "st_name t \<noteq> ''synthesize_claim_summary''"
  shows "unmarshal_map (st_handler t args) = Some (Some (canned_result (st_name t)))"
  using assms by (auto simp: claims_tools_def tool_names canned_texts)

lemma called_tool:
  assumes "serves num svc client" "t \<in> set (claims_tools num)"
    and "fmlookup (tools h) (st_name t) = Some b" "binding_client b = client"
    and "fn_name (tc_function tc) = st_name t" "unmarshal_map (fn_arguments (tc_function tc)) = Some args"
    and "unmarshal_map (st_handler t args) = Some (Some out)"
  shows "fst (callToolForAgent svc h tc tr) = marshal (JObj out)"
proof -
  have "answer_tool svc tr client (st_name t) args = ToolResult False [TextContent (st_handler t args)]"
    using assms(1,2) by (simp add: serves_def)
  then show ?thesis
    using assms(3-7)
    by (simp add: callToolForAgent_def call_tool_def Let_def parseToolResult_def marshal_map_def any_of_map_def)
qed

text \<open>The tools of the example answer what their handlers say: when the agent calls one of the five
  tools with a fixed answer, with any arguments that parse, what the LLM gets back is the JSON of
  the tool's object, no matter the arguments.\<close>
theorem claims_tools_answer:
  assumes "serves num svc client" "t \<in> set (claims_tools num)" "st_name t \<noteq> ''synthesize_claim_summary''"
    and "fmlookup (tools h) (st_name t) = Some b" "binding_client b = client"
    and "fn_name (tc_function tc) = st_name t" "unmarshal_map (fn_arguments (tc_function tc)) = Some args"
  shows "fst (callToolForAgent svc h tc tr) = marshal (JObj (canned_result (st_name t)))"
  by (rule called_tool[OF assms(1,2,4-7) canned_handler[OF assms(2,3)]])

text \<open>A tool service that answers for the example server.\<close>

definition claims_services :: services where
  "claims_services = (sample_services [] [])\<lparr>answer_tool := (\<lambda>tr c name args.
     case find (\<lambda>t. st_name t = name) (claims_tools id) of
       Some t \<Rightarrow> ToolResult False [TextContent (st_handler t args)]
     | None \<Rightarrow> ToolFailed ''unknown tool'')\<rparr>"

lemma claims_served: "serves id claims_services client"
  by (simp add: serves_def claims_services_def claims_tools_def tool_names)

definition risk_call :: toolCall where
  "risk_call =
     \<lparr>tc_id = ''c1'', tc_type = ''function'',
      tc_function = \<lparr>fn_name = ''calculate_risk_score'', fn_arguments = ''{}''\<rparr>\<rparr>"

theorem claims_tools_answer_witness:
  "fst (callToolForAgent claims_services sample_handler risk_call [])
     = marshal (JObj (canned_result ''calculate_risk_score''))"
proof -
  have b: "fmlookup (tools sample_handler) (st_name calculate_risk_score) = Some risk_tool"
    "fn_name (tc_function risk_call) = st_name calculate_risk_score"
    by (simp_all add: sample_handler_def tool_names risk_call_def)
  have t: "calculate_risk_score \<in> set (claims_tools id)" "st_name calculate_risk_score \<noteq> ''synthesize_claim_summary''"
    by (simp_all add: claims_tools_def tool_names)
  have a: "unmarshal_map (fn_arguments (tc_function risk_call)) = Some (Some fmempty)" by code_simp
  from claims_tools_answer[OF claims_served t b(1) refl b(2) a] show ?thesis by (simp add: tool_names)
qed

subsection \<open>The summary\<close>

definition summary_result :: "string \<Rightarrow> string \<Rightarrow> object" where
  "summary_result fraud coverage =
     fmap_of_list [(''decision'', JStr ''APPROVED''), (''fraud_status'', JStr fraud),
       (''coverage_status'', JStr coverage)]"

lemma summary_read:
  assumes "plain_text s" "plain_text t" "valid_utf8 s" "valid_utf8 t"
  shows "unmarshal_map (summary_text s t) = Some (Some (summary_result s t))"
proof -
  have "fmap_of_list (rev [(''decision'', JStr ''APPROVED''), (''fraud_status'', JStr s), (''coverage_status'', JStr t)])
      = summary_result s t"
    by (rule fmap_ext) (auto simp: fmlookup_of_list summary_result_def)
  then show ?thesis
    using parse_summary[OF assms(1,2)] assms(3,4)
    by (simp add: unmarshal_map_def read_map_def to_valid_valid)
qed

text \<open>The summary reads back: for two statuses that are text without quotes, backslashes and control
  characters, what the LLM gets from the summary tool is an object with the decision and exactly
  these two statuses.\<close>
theorem summary_reads_back:
  assumes "serves num svc client" "fmlookup (tools h) ''synthesize_claim_summary'' = Some b"
    and "binding_client b = client" "fn_name (tc_function tc) = ''synthesize_claim_summary''"
    and "unmarshal_map (fn_arguments (tc_function tc)) = Some args"
    and "argument args ''fraud_status'' = JStr s" "argument args ''coverage_status'' = JStr t"
    and "plain_text s" "plain_text t" "valid_utf8 s" "valid_utf8 t"
  shows "fst (callToolForAgent svc h tc tr) = marshal (JObj (summary_result s t))"
proof (rule called_tool[where t = "synthesize_claim_summary num", OF assms(1)])
  show "unmarshal_map (st_handler (synthesize_claim_summary num) args) = Some (Some (summary_result s t))"
    using summary_read[OF assms(8-11)] assms(6,7) by (simp add: synthesize_claim_summary_def)
qed (use assms in \<open>simp_all add: claims_tools_def tool_names\<close>)

definition summary_call :: "string \<Rightarrow> toolCall" where
  "summary_call fraud =
     \<lparr>tc_id = ''c2'', tc_type = ''function'',
      tc_function = \<lparr>fn_name = ''synthesize_claim_summary'', fn_arguments =
        marshal (JObj (fmap_of_list [(''fraud_status'', JStr fraud), (''coverage_status'', JStr ''ACTIVE'')]))\<rparr>\<rparr>"

definition summary_handler :: agentHandler where
  "summary_handler = sample_handler\<lparr>tools := fmap_of_list [(''synthesize_claim_summary'',
     \<lparr>binding_client = ''claims-tools'', binding_tool = \<lparr>tool_name = ''synthesize_claim_summary'',
       tool_description = [], schema_properties = None, schema_required = None\<rparr>\<rparr>)]\<rparr>"

theorem summary_reads_back_witness:
  "fst (callToolForAgent claims_services summary_handler (summary_call ''LOW'') [])
     = marshal (JObj (summary_result ''LOW'' ''ACTIVE''))"
proof -
  let ?args = "Some (fmap_of_list [(''fraud_status'', JStr ''LOW''), (''coverage_status'', JStr ''ACTIVE'')])"
  have b: "\<exists>b. fmlookup (tools summary_handler) ''synthesize_claim_summary'' = Some b"
    by (simp add: summary_handler_def)
  have n: "fn_name (tc_function (summary_call ''LOW'')) = ''synthesize_claim_summary''"
    by (simp add: summary_call_def)
  have a: "unmarshal_map (fn_arguments (tc_function (summary_call ''LOW''))) = Some ?args" by code_simp
  have g: "argument ?args ''fraud_status'' = JStr ''LOW''" "argument ?args ''coverage_status'' = JStr ''ACTIVE''"
    "plain_text ''LOW''" "plain_text ''ACTIVE''" "valid_utf8 ''LOW''" "valid_utf8 ''ACTIVE''"
    by code_simp+
  from b obtain b where b: "fmlookup (tools summary_handler) ''synthesize_claim_summary'' = Some b" ..
  from summary_reads_back[OF claims_served b refl n a g] show ?thesis .
qed

text \<open>The summary can be forged: the two statuses are pasted into the JSON unescaped, so a status that
  contains quotes adds members, and of two with one name the last wins: this fraud status, a string
  the LLM is free to pass on, turns the decision of the summary into DENIED, and one with a single
  quote makes a text that is no JSON, of which the agent sees an empty object.\<close>
theorem summary_can_be_forged:
  "let forged = ''LOW'' @ quote_char @ '', '' @ quoted ''decision'' @ '': '' @ quoted ''DENIED'' @ '', ''
       @ quoted ''note'' @ '': '' @ quote_char;
       out = fst (callToolForAgent claims_services summary_handler (summary_call forged) [])
   in map_option (\<lambda>m. fmlookup (entries m) ''decision'') (unmarshal_map out) = Some (Some (JStr ''DENIED''))
     \<and> fst (callToolForAgent claims_services summary_handler (summary_call (''5'' @ quote_char)) []) = ''{}''"
  by code_simp

subsection \<open>The example swarm\<close>

lemma bind_tools_known:
  "fmlookup (bind_tools c ts m) name \<noteq> None \<longleftrightarrow> name \<in> tool_name ` set ts \<or> fmlookup m name \<noteq> None"
  by (induction c ts m rule: bind_tools.induct) auto

text \<open>C37: The example swarm and the example server fit together: in each pod of the claims swarm, once
  the runner has found the example's tools at the SSE endpoint of the URL the server announces, the
  LLM is offered exactly
  the tools the swarm allows the node, in their order.\<close>
theorem swarm_tools_are_served:
  assumes "node \<in> set (spec_Nodes (swarm_Spec claims_swarm))"
    and "provides secrets (node_env claims_swarm node) getenv" "cfg h = loadConfig getenv"
    and "tools h = found_tools (connectMCPTools ord view (cfg h))" "good_order ord"
    and "lists_tools num (view ''claims-tools'' (base_url (claims_server num) @ ''/sse''))"
  shows "map (\<lambda>t. tf_name (ts_function t)) (toolSpecs h) = node_AllowedTools node"
proof -
  have plain: "plain_swarm claims_swarm" by code_simp
  have c: "loadConfig getenv = node_config secrets claims_swarm node"
    by (rule loadConfig_deployed[OF plain assms(1,2)])
  have n: "node \<in> set claims_nodes" using assms(1) by (simp add: claims_swarm_def sample_swarm_def)
  then have ep: "mcpEndpoints (cfg h) = fmap_of_list [(''claims-tools'', ''http://mcp-claims-server:8000/sse'')]"
    by (auto simp: assms(3) c node_config_def claims_nodes_def sample_node_def)
  have "ord (fmdom (mcpEndpoints (cfg h))) = [''claims-tools'']"
  proof -
    have "iterates (ord (fmdom (mcpEndpoints (cfg h)))) (mcpEndpoints (cfg h))"
      by (rule good_order_iterates[OF assms(5)])
    from iterates_length[OF this] iterates_set[OF this, of "''claims-tools''"] show ?thesis
      unfolding ep by (cases "ord (fmdom (fmap_of_list [(''claims-tools'', ''http://mcp-claims-server:8000/sse'')]))") auto
  qed
  moreover from assms(6) obtain ts where ts: "listed_tools (view ''claims-tools'' ''http://mcp-claims-server:8000/sse'') = Inr ts"
    "map tool_name ts = map st_name (claims_tools num)"
    by (auto simp: lists_tools_def)
  ultimately have "tools h = bind_tools ''claims-tools'' ts fmempty"
    using assms(4,6) by (simp add: connectMCPTools_def ep connect_endpoint_def lists_tools_def)
  moreover have "tool_name ` set ts = set (map st_name (claims_tools num))"
    using ts(2) by (metis set_map)
  ultimately have known: "fmlookup (tools h) name \<noteq> None \<longleftrightarrow> name \<in> set (map st_name (claims_tools num))" for name
    using bind_tools_known[of "''claims-tools''" ts fmempty name] by simp
  have "allowedTools (cfg h) = node_AllowedTools node" by (simp add: assms(3) c node_config_def)
  moreover have "set (node_AllowedTools node) \<subseteq> set (map st_name (claims_tools num))"
    using n by (auto simp: claims_nodes_def sample_node_def claims_tools_def tool_names)
  ultimately have "filter (\<lambda>name. fmlookup (tools h) name \<noteq> None) (allowedTools (cfg h)) = node_AllowedTools node"
    unfolding known by (auto intro!: filter_True)
  then show ?thesis using offered_names[OF assms(4)] by simp
qed

definition listing_view :: "string \<Rightarrow> string \<Rightarrow> endpoint_view" where
  "listing_view name url =
     \<lparr>create_error = None, start_error = None, initialize_error = None,
      listed_tools = Inr (map (\<lambda>t. \<lparr>tool_name = st_name t, tool_description = st_description t,
        schema_properties = None, schema_required = None\<rparr>) (claims_tools id))\<rparr>"

definition decision_tools :: agentHandler where
  "decision_tools = sample_handler\<lparr>cfg := loadConfig decision_env,
     tools := found_tools (connectMCPTools sorted_list_of_fset listing_view (loadConfig decision_env))\<rparr>"

theorem swarm_tools_are_served_witness:
  "map (\<lambda>t. tf_name (ts_function t)) (toolSpecs decision_tools) = [''synthesize_claim_summary'']"
proof -
  have c: "cfg decision_tools = loadConfig decision_env"
    "tools decision_tools = found_tools (connectMCPTools sorted_list_of_fset listing_view (cfg decision_tools))"
    by (simp_all add: decision_tools_def)
  have l: "lists_tools id (listing_view ''claims-tools'' (base_url (claims_server id) @ ''/sse''))"
    by (simp add: lists_tools_def listing_view_def comp_def)
  have "node_AllowedTools decision_node = [''synthesize_claim_summary'']"
    by (simp add: decision_node_def claims_nodes_def sample_node_def)
  with swarm_tools_are_served[OF decision_node_facts(1) decision_provides c sorted_good l] show ?thesis by simp
qed

end
