(* ===== verification/Pod.thy ===== *)
theory Pod
  imports Handler
begin

section \<open>One pod: claims that run at the same time (cmd/runner/handler.go)\<close>

text \<open>
  Sarama calls \<open>ConsumeClaim\<close> in one goroutine per partition the pod was given, so several
  claims work on one handler. \<open>claim_step\<close> cuts the body of the loop of \<open>ConsumeClaim\<close>,
  with \<open>join\<close>, \<open>completeCorrelation\<close>, \<open>agentLoop\<close> and \<open>publish\<close>, into steps of at
  most one external action or one access to the shared map \<open>joins\<close>. What runs under the mutex
  is one step: the whole of \<open>join\<close>, and the delete in \<open>completeCorrelation\<close>; the tombstone
  that follows the delete is sent after the mutex is released and is a step of its own.
  \<open>pod_step\<close> interleaves the claims of a pod. A claim that is \<open>Failing\<close> is about to end
  the process and does nothing more; the others may still act before it does.
\<close>

subsection \<open>Where a claim stands\<close>

text \<open>The message a claim works on, its correlation ID, and the data it gives the agent.\<close>

record work =
  work_msg :: consumer_message
  work_cid :: string
  work_data :: goobject

text \<open>\<open>Asking\<close> has the number of turns left and the conversation; \<open>Calling\<close> also the tool
  calls that are left of the last reply; \<open>Publishing\<close> the topics that are left and the
  payload. \<open>None\<close> in \<open>Failing\<close> is the panic of a write to a nil map.\<close>

datatype claim =
    Idle
  | Taken consumer_message
  | Joining consumer_message envelope
  | Joined work bool
  | Completing work
  | Asking work nat "chatMessage list"
  | Calling work nat "chatMessage list" "toolCall list"
  | Publishing work "string list" string
  | Published work
  | Forgotten work
  | Completed work
  | Failing "fatal option"

definition first_messages :: "agentHandler \<Rightarrow> goobject \<Rightarrow> chatMessage list" where
  "first_messages h d =
     [\<lparr>role = ''system'', content = systemPrompt h, toolCalls = [], toolCallID = []\<rparr>,
      \<lparr>role = ''user'', content = marshal_map d, toolCalls = [], toolCallID = []\<rparr>]"

definition result_payload :: "agentHandler \<Rightarrow> work \<Rightarrow> object \<Rightarrow> string" where
  "result_payload h w out =
     marshal_envelope \<lparr>correlationID = work_cid w, source = nodeName (cfg h), data = Some out\<rparr>"

definition incomplete :: "work \<Rightarrow> claim" where
  "incomplete w = Failing (Some (AgentLoopIncomplete (work_cid w)))"

subsection \<open>One step of one claim\<close>

fun claim_step :: "services \<Rightarrow> agentHandler \<Rightarrow> claim \<Rightarrow> trace \<Rightarrow> claim \<times> agentHandler \<times> trace" where
  "claim_step svc h Idle tr = (Idle, h, tr)"
| "claim_step svc h (Taken msg) tr = (Joining msg (message_envelope svc msg tr), h, tr)"
| "claim_step svc h (Joining msg env) tr =
     (case join svc h env tr of
        (Panic, h', tr') \<Rightarrow> (Failing None, h', tr')
      | (Fatal f, h', tr') \<Rightarrow> (Failing (Some f), h', tr')
      | (Ret (Inl e), h', tr') \<Rightarrow>
          (Failing (Some (ContributionNotRecorded (correlationID env) e)), h', tr')
      | (Ret (Inr (merged, ready)), h', tr') \<Rightarrow>
          (Joined \<lparr>work_msg = msg, work_cid = correlationID env, work_data = merged\<rparr> ready, h', tr'))"
| "claim_step svc h (Joined w ready) tr =
     (if ready then Completing w else Idle, h,
      if isFanIn h then mark_message (work_msg w) tr else tr)"
| "claim_step svc h (Completing w) tr =
     (case llm h of
        None \<Rightarrow> (incomplete w, h, tr)
      | Some c \<Rightarrow> (Asking w maxAgentTurns (first_messages h (work_data w)), h, tr))"
| "claim_step svc h (Asking w 0 messages) tr = (incomplete w, h, tr)"
| "claim_step svc h (Asking w (Suc n) messages) tr =
     (case llm h of
        None \<Rightarrow> (incomplete w, h, tr)
      | Some c \<Rightarrow>
          (case chat svc c messages (toolSpecs h) tr of
             (Inl e, tr') \<Rightarrow> (incomplete w, h, tr')
           | (Inr reply, tr') \<Rightarrow>
               if toolCalls reply = []
               then (Publishing w (outputTopics (cfg h))
                       (result_payload h w (mergeFinalAnswer (work_data w) (content reply))), h, tr')
               else (Calling w n (messages @ [reply]) (toolCalls reply), h, tr')))"
| "claim_step svc h (Calling w n messages []) tr = (Asking w n messages, h, tr)"
| "claim_step svc h (Calling w n messages (tc # tcs)) tr =
     (case callToolForAgent svc h tc tr of
        (out, tr') \<Rightarrow>
          (Calling w n
             (messages @ [\<lparr>role = ''tool'', content = out, toolCalls = [], toolCallID = tc_id tc\<rparr>]) tcs,
           h, tr'))"
| "claim_step svc h (Publishing w [] payload) tr = (Published w, h, tr)"
| "claim_step svc h (Publishing w (topic # topics) payload) tr =
     (case send_message svc \<lparr>pm_topic = topic, pm_key = work_cid w, pm_value = Some payload\<rparr> tr of
        (Rejected e kept, tr') \<Rightarrow>
          (Failing (Some (ResultNotPublished (work_cid w) (PublishingTo topic e))), h, tr')
      | (Acked, tr') \<Rightarrow> (Publishing w topics payload, h, tr'))"
| "claim_step svc h (Published w) tr =
     (if joinStateTopic (cfg h) = [] then (Completed w, h, tr)
      else (Forgotten w, h\<lparr>joins := fmdrop (work_cid w) (joins h)\<rparr>, tr))"
| "claim_step svc h (Forgotten w) tr =
     (Completed w, h, snd (tombstoneJoinState svc (joinStateTopic (cfg h)) (work_cid w) tr))"
| "claim_step svc h (Completed w) tr =
     (Idle, h, if isFanIn h then tr else mark_message (work_msg w) tr)"
| "claim_step svc h (Failing f) tr = (Failing f, h, tr)"

text \<open>A number of steps of one claim that runs alone.\<close>

fun claim_steps ::
    "nat \<Rightarrow> services \<Rightarrow> agentHandler \<Rightarrow> claim \<Rightarrow> trace \<Rightarrow> claim \<times> agentHandler \<times> trace" where
  "claim_steps 0 svc h cl tr = (cl, h, tr)"
| "claim_steps (Suc n) svc h cl tr =
     (case claim_step svc h cl tr of (cl', h', tr') \<Rightarrow> claim_steps n svc h' cl' tr')"

subsection \<open>All claims of the pod\<close>

text \<open>The claims are numbered; those the pod does not have stay idle.\<close>

record pod =
  handler :: agentHandler
  claims :: "nat \<Rightarrow> claim"

definition new_pod :: "agentHandler \<Rightarrow> pod" where
  "new_pod h = \<lparr>handler = h, claims = (\<lambda>i. Idle)\<rparr>"

inductive pod_step :: "services \<Rightarrow> pod \<times> trace \<Rightarrow> pod \<times> trace \<Rightarrow> bool" for svc where
  take_message: "claims p i = Idle \<Longrightarrow> valid_utf8 (cm_value msg)
    \<Longrightarrow> pod_step svc (p, tr) (p\<lparr>claims := (claims p)(i := Taken msg)\<rparr>, tr)"
| work_on: "claim_step svc (handler p) (claims p i) tr = (cl, h', tr')
    \<Longrightarrow> pod_step svc (p, tr) (\<lparr>handler = h', claims = (claims p)(i := cl)\<rparr>, tr')"

abbreviation pod_steps :: "services \<Rightarrow> pod \<times> trace \<Rightarrow> pod \<times> trace \<Rightarrow> bool" where
  "pod_steps svc \<equiv> (pod_step svc)\<^sup>*\<^sup>*"

text \<open>A schedule, as a list of actions, to run one interleaving.\<close>

datatype pod_action = Take nat consumer_message | Work nat

fun act :: "services \<Rightarrow> pod_action \<Rightarrow> pod \<times> trace \<Rightarrow> pod \<times> trace" where
  "act svc (Take i msg) (p, tr) =
     (if claims p i = Idle \<and> valid_utf8 (cm_value msg)
      then (p\<lparr>claims := (claims p)(i := Taken msg)\<rparr>, tr) else (p, tr))"
| "act svc (Work i) (p, tr) =
     (case claim_step svc (handler p) (claims p i) tr of
        (cl, h', tr') \<Rightarrow> (\<lparr>handler = h', claims = (claims p)(i := cl)\<rparr>, tr'))"

definition scheduled :: "services \<Rightarrow> pod_action list \<Rightarrow> pod \<times> trace \<Rightarrow> pod \<times> trace" where
  "scheduled svc as s = fold (act svc) as s"

lemma act_steps: "pod_steps svc s (act svc a s)"
proof (cases s)
  case (Pair p tr)
  show ?thesis
  proof (cases a)
    case (Take i msg)
    with Pair show ?thesis by (auto intro: take_message)
  next
    case (Work i)
    obtain cl h' tr' where "claim_step svc (handler p) (claims p i) tr = (cl, h', tr')"
      by (cases "claim_step svc (handler p) (claims p i) tr")
    with Pair Work show ?thesis using work_on by auto
  qed
qed

lemma scheduled_steps: "pod_steps svc s (scheduled svc as s)"
  unfolding scheduled_def
proof (induction as arbitrary: s)
  case (Cons a as)
  have "pod_steps svc (act svc a s) (fold (act svc) as (act svc a s))" by (rule Cons.IH)
  with act_steps[of svc s a] show ?case by simp
qed simp

subsection \<open>A claim alone is the handler's function\<close>

lemma claim_steps_add:
  "claim_steps (m + n) svc h cl tr =
     (case claim_steps m svc h cl tr of (cl', h', tr') \<Rightarrow> claim_steps n svc h' cl' tr')"
  by (induction m arbitrary: h cl tr) (simp_all split: prod.splits)

text \<open>\<open>a\<close> gets to \<open>b\<close> in some number of steps.\<close>

definition gets_to ::
    "services \<Rightarrow> claim \<times> agentHandler \<times> trace \<Rightarrow> claim \<times> agentHandler \<times> trace \<Rightarrow> bool" where
  "gets_to svc a b \<longleftrightarrow> (\<exists>n. case a of (cl, h, tr) \<Rightarrow> claim_steps n svc h cl tr = b)"

lemma gets_to_refl: "gets_to svc a a"
  unfolding gets_to_def by (intro exI[of _ 0]) (simp split: prod.splits)

lemma gets_to_trans: "gets_to svc a b \<Longrightarrow> gets_to svc b d \<Longrightarrow> gets_to svc a d"
proof -
  assume "gets_to svc a b" "gets_to svc b d"
  then obtain m n where "(case a of (cl, h, tr) \<Rightarrow> claim_steps m svc h cl tr) = b"
    "(case b of (cl, h, tr) \<Rightarrow> claim_steps n svc h cl tr) = d"
    by (auto simp: gets_to_def)
  then show ?thesis
    unfolding gets_to_def by (intro exI[of _ "m + n"]) (auto simp: claim_steps_add split: prod.splits)
qed

lemma gets_to_step: "gets_to svc (claim_step svc h cl tr) b \<Longrightarrow> gets_to svc (cl, h, tr) b"
proof -
  assume "gets_to svc (claim_step svc h cl tr) b"
  then obtain n where "(case claim_step svc h cl tr of (cl', h', tr') \<Rightarrow> claim_steps n svc h' cl' tr') = b"
    by (auto simp: gets_to_def)
  then show ?thesis unfolding gets_to_def by (intro exI[of _ "Suc n"]) simp
qed

lemma solo_calls:
  "call_tools svc h tcs tr = (res, tr') \<Longrightarrow>
     gets_to svc (Calling w n ms tcs, h, tr) (Asking w n (ms @ res), h, tr')"
proof (induction tcs arbitrary: ms tr res)
  case Nil
  then show ?case by (intro gets_to_step) (simp add: gets_to_refl)
next
  case (Cons tc tcs)
  obtain out tr1 where o: "callToolForAgent svc h tc tr = (out, tr1)" by fastforce
  obtain res2 where r: "call_tools svc h tcs tr1 = (res2, tr')"
    using Cons.prems o by (auto split: prod.splits)
  show ?case
    using Cons.prems Cons.IH[OF r, of "ms @ [\<lparr>role = ''tool'', content = out, toolCalls = [], toolCallID = tc_id tc\<rparr>]"]
    by (intro gets_to_step) (auto simp: o r)
qed

lemma solo_turns:
  assumes "llm h = Some c"
  shows "agent_turns n svc h c (work_data w) ms tr = (r, tr') \<Longrightarrow>
     gets_to svc (Asking w n ms, h, tr)
       (case r of None \<Rightarrow> incomplete w
          | Some out \<Rightarrow> Publishing w (outputTopics (cfg h)) (result_payload h w out), h, tr')"
proof (induction n arbitrary: ms tr)
  case 0
  then show ?case by (intro gets_to_step) (simp add: gets_to_refl)
next
  case (Suc n)
  obtain x tr1 where x: "chat svc c ms (toolSpecs h) tr = (x, tr1)" by fastforce
  show ?case
  proof (cases "\<exists>reply. x = Inr reply \<and> toolCalls reply \<noteq> []")
    case False
    then show ?thesis
      using Suc.prems assms x
      by (intro gets_to_step) (auto simp: gets_to_refl split: sum.splits if_splits)
  next
    case True
    then obtain reply where reply: "x = Inr reply" "toolCalls reply \<noteq> []" by blast
    obtain res tr2 where t: "call_tools svc h (toolCalls reply) tr1 = (res, tr2)" by fastforce
    have "agent_turns n svc h c (work_data w) ((ms @ [reply]) @ res) tr2 = (r, tr')"
      using Suc.prems x reply t by simp
    from gets_to_trans[OF solo_calls[OF t] Suc.IH[OF this]]
    show ?thesis
      using x reply assms by (intro gets_to_step) simp
  qed
qed

lemma solo_publish:
  "publish_all svc ts (work_cid w) payload tr = (r, tr') \<Longrightarrow>
     gets_to svc (Publishing w ts payload, h, tr)
       (case r of None \<Rightarrow> Published w | Some e \<Rightarrow> Failing (Some (ResultNotPublished (work_cid w) e)), h, tr')"
proof (induction ts arbitrary: tr)
  case Nil
  then show ?case by (intro gets_to_step) (simp add: gets_to_refl)
next
  case (Cons t ts)
  then show ?case
    by (intro gets_to_step) (auto simp: gets_to_refl split: prod.splits send_result.splits)
qed

text \<open>The end of a claim's work, from what the function returned.\<close>

definition claim_end :: "claim \<Rightarrow> agentHandler outcome \<Rightarrow> claim" where
  "claim_end fin r = (case r of Ret h' \<Rightarrow> fin | Fatal f \<Rightarrow> Failing (Some f) | Panic \<Rightarrow> Failing None)"

definition handler_end :: "agentHandler \<Rightarrow> agentHandler outcome \<Rightarrow> agentHandler" where
  "handler_end h r = (case r of Ret h' \<Rightarrow> h' | _ \<Rightarrow> h)"

lemma ends [simp]:
  "claim_end fin (Ret h') = fin" "claim_end fin (Fatal f) = Failing (Some f)"
  "claim_end fin Panic = Failing None" "handler_end h (Ret h') = h'"
  "handler_end h (Fatal f) = h" "handler_end h Panic = h"
  by (simp_all add: claim_end_def handler_end_def)

lemma publish_is_all:
  "publish svc h cid out tr = publish_all svc (outputTopics (cfg h)) cid
     (marshal_envelope \<lparr>correlationID = cid, source = nodeName (cfg h), data = Some out\<rparr>) tr"
  by (simp add: publish_def)

lemma solo_complete:
  assumes "completeCorrelation svc h (work_cid w) (work_data w) tr = (r, tr')"
  shows "gets_to svc (Completing w, h, tr) (claim_end (Completed w) r, handler_end h r, tr')"
proof (cases "llm h")
  case None
  with assms show ?thesis
    by (intro gets_to_step) (auto simp: completeCorrelation_def agentLoop_def incomplete_def gets_to_refl)
next
  case (Some c)
  obtain o1 tr1 where a: "agent_turns maxAgentTurns svc h c (work_data w)
      (first_messages h (work_data w)) tr = (o1, tr1)" by fastforce
  then have l: "agentLoop svc h (work_data w) tr = (o1, tr1)"
    using Some by (simp add: agentLoop_def first_messages_def)
  have asking: "gets_to svc (Completing w, h, tr)
      (case o1 of None \<Rightarrow> incomplete w
        | Some out \<Rightarrow> Publishing w (outputTopics (cfg h)) (result_payload h w out), h, tr1)"
    by (rule gets_to_step) (use solo_turns[OF Some a] Some in simp)
  show ?thesis
  proof (cases o1)
    case None
    with asking assms l show ?thesis by (auto simp: completeCorrelation_def incomplete_def)
  next
    case (Some out)
    obtain p tr2 where p: "publish svc h (work_cid w) out tr1 = (p, tr2)" by fastforce
    from solo_publish[OF p[unfolded publish_is_all]]
    have pub: "gets_to svc (Completing w, h, tr)
        (case p of None \<Rightarrow> Published w | Some e \<Rightarrow> Failing (Some (ResultNotPublished (work_cid w) e)), h, tr2)"
      using gets_to_trans[OF asking] Some by (simp add: result_payload_def)
    have last: "gets_to svc (Published w, h, tr2) (claim_end (Completed w) r, handler_end h r, tr')"
      if "p = None"
    proof (cases "joinStateTopic (cfg h) = []")
      case True
      with assms l Some p that show ?thesis
        by (intro gets_to_step) (auto simp: completeCorrelation_def gets_to_refl)
    next
      case False
      let ?h = "h\<lparr>joins := fmdrop (work_cid w) (joins h)\<rparr>"
      have "gets_to svc (Forgotten w, ?h, tr2) (Completed w, ?h, tr')"
        using assms l Some p that False
        by (intro gets_to_step) (auto simp: completeCorrelation_def gets_to_refl)
      moreover have "r = Ret ?h" using assms l Some p that False by (auto simp: completeCorrelation_def)
      ultimately show ?thesis using False by (intro gets_to_step) simp
    qed
    show ?thesis
    proof (cases p)
      case None
      with gets_to_trans[OF pub] last show ?thesis by simp
    next
      case (Some e)
      with pub assms l \<open>o1 = Some out\<close> p show ?thesis by (auto simp: completeCorrelation_def)
    qed
  qed
qed

lemma solo_consume:
  assumes "consume_message svc h msg tr = (r, tr')"
  shows "\<exists>h'. gets_to svc (Taken msg, h, tr) (claim_end Idle r, handler_end h' r, tr')"
proof -
  let ?env = "message_envelope svc msg tr"
  obtain j h1 tr1 where j: "join svc h ?env tr = (j, h1, tr1)" by (cases "join svc h ?env tr")
  note c = assms[unfolded consume_message_def Let_def j prod.case]
  have start: "gets_to svc (Taken msg, h, tr) b" if "gets_to svc (claim_step svc h (Joining msg ?env) tr) b" for b
    using that by (intro gets_to_step) (simp add: gets_to_step)
  have fan: "isFanIn h1 = isFanIn h"
    using j by (auto simp: join_def isFanIn_def Let_def split: if_splits option.splits prod.splits send_result.splits)
  show ?thesis
  proof (cases "\<exists>merged ready. j = Ret (Inr (merged, ready))")
    case False
    with c have "claim_step svc h (Joining msg ?env) tr = (claim_end Idle r, handler_end h1 r, tr')"
      by (auto simp: j split: outcome.splits sum.splits)
    with start[of "(claim_end Idle r, handler_end h1 r, tr')"] gets_to_refl show ?thesis by metis
  next
    case True
    then obtain merged ready where m: "j = Ret (Inr (merged, ready))" by blast
    let ?w = "\<lparr>work_msg = msg, work_cid = correlationID ?env, work_data = merged\<rparr>"
    let ?tr2 = "if isFanIn h then mark_message msg tr1 else tr1"
    have joined: "gets_to svc (Taken msg, h, tr) b"
      if "gets_to svc (if ready then Completing ?w else Idle, h1, ?tr2) b" for b
      using that by (intro start) (simp add: j m, intro gets_to_step, simp add: fan split: if_splits)
    show ?thesis
    proof (cases ready)
      case False
      with c m have "r = Ret h1" "tr' = ?tr2" by (auto split: if_splits)
      with joined[of "(Idle, h1, ?tr2)"] False gets_to_refl show ?thesis by auto
    next
      case True
      obtain r2 tr3 where k: "completeCorrelation svc h1 (work_cid ?w) (work_data ?w) ?tr2 = (r2, tr3)"
        by fastforce
      have worked: "gets_to svc (Taken msg, h, tr) (claim_end (Completed ?w) r2, handler_end h1 r2, tr3)"
        using joined solo_complete[OF k] True by simp
      show ?thesis
      proof (cases r2)
        case (Ret h2)
        have "isFanIn h2 = isFanIn h"
          using k Ret fan by (auto simp: completeCorrelation_def isFanIn_def split: prod.splits option.splits if_splits)
        then have "gets_to svc (Completed ?w, h2, tr3) (Idle, h2, if isFanIn h then tr3 else mark_message msg tr3)"
          by (intro gets_to_step) (simp add: gets_to_refl)
        with gets_to_trans[OF worked] Ret c m True k show ?thesis by auto
      qed (use worked c m True k in auto)
    qed
  qed
qed

lemma stays: "claim_steps n svc h (claim_end Idle r) tr = (claim_end Idle r, h, tr)"
  by (induction n) (auto simp: claim_end_def split: outcome.splits)

text \<open>Enough steps of a claim that runs alone do what \<open>consume_message\<close> does.\<close>

lemma alone_consumes:
  assumes "consume_message svc h msg tr = (r, tr')"
  obtains N h' where "\<And>n. N \<le> n \<Longrightarrow>
    claim_steps n svc h (Taken msg) tr = (claim_end Idle r, handler_end h' r, tr')"
proof -
  from solo_consume[OF assms] obtain h' N
    where N: "claim_steps N svc h (Taken msg) tr = (claim_end Idle r, handler_end h' r, tr')"
    by (auto simp: gets_to_def)
  have "claim_steps n svc h (Taken msg) tr = (claim_end Idle r, handler_end h' r, tr')" if "N \<le> n" for n
    using claim_steps_add[of N "n - N" svc h "Taken msg" tr] that N by (simp add: stays)
  with that show ?thesis by blast
qed

subsection \<open>A claim that gets one message after the other\<close>

lemma scheduled_append: "scheduled svc (as @ bs) s = scheduled svc bs (scheduled svc as s)"
  by (simp add: scheduled_def)

lemma same_pod: "claims p i = cl \<Longrightarrow> \<lparr>handler = handler p, claims = (claims p)(i := cl)\<rparr> = p"
  by (cases p) (simp add: fun_upd_idem)

lemma scheduled_work:
  "claim_steps n svc (handler p) (claims p i) tr = (cl, h', tr') \<Longrightarrow>
     scheduled svc (replicate n (Work i)) (p, tr) = (\<lparr>handler = h', claims = (claims p)(i := cl)\<rparr>, tr')"
proof (induction n arbitrary: p tr)
  case 0
  then have "cl = claims p i" "h' = handler p" "tr' = tr" by simp_all
  then show ?case by (simp only: same_pod[OF refl] replicate_0 scheduled_def fold_simps id_apply)
next
  case (Suc n)
  obtain cl1 h1 tr1 where s: "claim_step svc (handler p) (claims p i) tr = (cl1, h1, tr1)"
    by (cases "claim_step svc (handler p) (claims p i) tr")
  let ?p = "\<lparr>handler = h1, claims = (claims p)(i := cl1)\<rparr>"
  have "claim_steps n svc (handler ?p) (claims ?p i) tr1 = (cl, h', tr')" using Suc.prems s by simp
  note Suc.IH[OF this, simplified pod.simps fun_upd_upd]
  moreover have "act svc (Work i) (p, tr) = (?p, tr1)" using s by simp
  ultimately show ?case
    by (simp only: scheduled_def replicate_Suc fold_simps)
qed

definition turn :: "nat \<Rightarrow> nat \<Rightarrow> consumer_message \<Rightarrow> pod_action list" where
  "turn n i msg = Take i msg # replicate n (Work i)"

lemma turn_consumes:
  assumes "claims p i = Idle" "valid_utf8 (cm_value msg)" "consume_message svc (handler p) msg tr = (r, tr')"
  obtains N h' where "\<And>n. N \<le> n \<Longrightarrow> scheduled svc (turn n i msg) (p, tr)
    = (\<lparr>handler = handler_end h' r, claims = (claims p)(i := claim_end Idle r)\<rparr>, tr')"
proof -
  obtain N h' where N: "\<And>n. N \<le> n \<Longrightarrow>
      claim_steps n svc (handler p) (Taken msg) tr = (claim_end Idle r, handler_end h' r, tr')"
    using alone_consumes[OF assms(3)] by blast
  let ?p = "p\<lparr>claims := (claims p)(i := Taken msg)\<rparr>"
  have "scheduled svc (turn n i msg) (p, tr)
    = (\<lparr>handler = handler_end h' r, claims = (claims p)(i := claim_end Idle r)\<rparr>, tr')" if "N \<le> n" for n
    using scheduled_work[of n svc ?p i tr] N[OF that] assms(1,2) by (simp add: turn_def scheduled_def)
  with that show ?thesis by blast
qed

lemma turn_stuck:
  assumes "claims p i = claim_end Idle r" "\<And>h. r \<noteq> Ret h"
  shows "scheduled svc (turn n i msg) (p, tr) = (p, tr)"
proof -
  have "claims p i \<noteq> Idle" using assms by (cases r) auto
  moreover have "claim_steps n svc (handler p) (claims p i) tr = (claims p i, handler p, tr)"
    by (simp add: assms(1) stays)
  ultimately show ?thesis
    using scheduled_work[of n svc p i tr] by (simp add: turn_def scheduled_def)
qed

lemma turns_stuck:
  "claims p i = claim_end Idle r \<Longrightarrow> (\<And>h. r \<noteq> Ret h) \<Longrightarrow>
     scheduled svc (concat (map (turn n i) msgs)) (p, tr) = (p, tr)"
  by (induction msgs) (simp_all add: scheduled_append turn_stuck, simp add: scheduled_def)

lemma turns_consume:
  assumes "claims p i = Idle" "\<forall>msg \<in> set msgs. valid_utf8 (cm_value msg)"
    and "consumeClaim svc (handler p) msgs tr = (r, tr')"
  shows "\<exists>N h'. \<forall>n \<ge> N. scheduled svc (concat (map (turn n i) msgs)) (p, tr)
    = (\<lparr>handler = handler_end h' r, claims = (claims p)(i := claim_end Idle r)\<rparr>, tr')"
  using assms
proof (induction msgs arbitrary: p tr)
  case Nil
  then have "r = Ret (handler p)" "tr' = tr" by simp_all
  with same_pod[OF Nil(1)]
  have "scheduled svc (concat (map (turn n i) [])) (p, tr)
      = (\<lparr>handler = handler_end h' r, claims = (claims p)(i := claim_end Idle r)\<rparr>, tr')" for n h'
    by (simp only: ends scheduled_def list.map concat.simps fold_simps id_apply)
  then show ?case by blast
next
  case (Cons msg msgs)
  obtain r1 tr1 where k: "consume_message svc (handler p) msg tr = (r1, tr1)" by fastforce
  from turn_consumes[OF Cons.prems(1) _ k] Cons.prems(2) obtain N h1 where N: "\<And>n. N \<le> n \<Longrightarrow>
      scheduled svc (turn n i msg) (p, tr)
        = (\<lparr>handler = handler_end h1 r1, claims = (claims p)(i := claim_end Idle r1)\<rparr>, tr1)"
    by (metis list.set_intros(1))
  let ?p = "\<lparr>handler = handler_end h1 r1, claims = (claims p)(i := claim_end Idle r1)\<rparr>"
  show ?case
  proof (cases "\<exists>h2. r1 = Ret h2")
    case True
    then obtain h2 where h2: "r1 = Ret h2" by blast
    have "consumeClaim svc (handler ?p) msgs tr1 = (r, tr')" using Cons.prems(3) k h2 by simp
    moreover have "claims ?p i = Idle" "\<forall>msg \<in> set msgs. valid_utf8 (cm_value msg)"
      using h2 Cons.prems(2) by simp_all
    ultimately obtain M h' where M: "\<And>n. M \<le> n \<Longrightarrow> scheduled svc (concat (map (turn n i) msgs)) (?p, tr1)
        = (\<lparr>handler = handler_end h' r, claims = (claims ?p)(i := claim_end Idle r)\<rparr>, tr')"
      using Cons.IH[of ?p tr1] by blast
    note M' = M[simplified pod.simps fun_upd_upd]
    show ?thesis
      by (intro exI[of _ "max N M"] exI[of _ h'] allI impI, unfold list.map concat.simps scheduled_append)
        (simp only: max.bounded_iff N M')
  next
    case False
    then have "r = r1" "tr' = tr1" using Cons.prems(3) k by (cases r1; simp)+
    moreover have "scheduled svc (concat (map (turn n i) msgs)) (?p, tr1) = (?p, tr1)" for n
      by (rule turns_stuck[of ?p i r1]) (use False in simp_all)
    ultimately show ?thesis
      by (intro exI[of _ N] exI[of _ h1] allI impI, unfold list.map concat.simps scheduled_append)
        (simp only: N)
  qed
qed

end
