(* ===== verification/Lives.thy ===== *)
theory Lives
  imports HandlerLaws
begin

section \<open>The lives of a fan-in node\<close>

text \<open>
  A pod of a fan-in node lives from its start to a crash, which can come between any two of its
  actions, and Kubernetes starts the next one. \<open>reachable\<close> are the traces of any number of
  such lives, each of which hydrates from what its predecessors left in the changelog. The
  invariant \<open>kept\<close> holds in all of them: the contribution of a marked message is in the
  changelog, or a result for its correlation ID was published. One life carries with it, beside
  \<open>kept\<close>, that its memory agrees with the changelog (\<open>agrees\<close>).
\<close>

subsection \<open>The invariant\<close>

definition log_of :: "config \<Rightarrow> trace \<Rightarrow> joins" where
  "log_of c tr = replay fmempty (topic_records (joinStateTopic c) tr)"

text \<open>Every output topic of the node acknowledged one result for the correlation ID.\<close>

definition resolved :: "config \<Rightarrow> string \<Rightarrow> trace \<Rightarrow> bool" where
  "resolved c cid tr \<longleftrightarrow>
     (\<exists>out. \<forall>t \<in> set (outputTopics c).
        Sent \<lparr>pm_topic = t, pm_key = cid,
              pm_value = Some (marshal_envelope \<lparr>correlationID = cid, source = nodeName c, data = Some out\<rparr>)\<rparr>
          Acked \<in> set tr)"

definition has_source :: "config \<Rightarrow> string \<Rightarrow> string \<Rightarrow> trace \<Rightarrow> bool" where
  "has_source c cid s tr \<longleftrightarrow>
     (\<exists>st. fmlookup (log_of c tr) cid = Some st \<and> fmlookup (entries (received st)) s \<noteq> None)"

definition enveloped :: "consumer_message \<Rightarrow> envelope \<Rightarrow> bool" where
  "enveloped msg e \<longleftrightarrow> cm_value msg = marshal_envelope e \<and> wf_envelope e
     \<and> correlationID e \<noteq> [] \<and> data e \<noteq> None"

text \<open>An envelope a runner can read a message as. A message that holds an envelope is read as that
  envelope only (\<open>read_as_enveloped\<close>); of a raw payload the correlation ID can vary.\<close>

definition read_as :: "consumer_message \<Rightarrow> envelope \<Rightarrow> bool" where
  "read_as msg e \<longleftrightarrow> (\<exists>svc tr. e = message_envelope svc msg tr)"

definition kept :: "config \<Rightarrow> trace \<Rightarrow> bool" where
  "kept c tr \<longleftrightarrow>
     (\<forall>msg. Marked msg \<in> set tr \<longrightarrow> (\<exists>e. read_as msg e \<and>
        (has_source c (correlationID e) (source e) tr \<or> resolved c (correlationID e) tr)))"

lemma kept_empty [simp]: "kept c []"
  by (simp add: kept_def)

lemma resolved_mono: "resolved c cid tr \<Longrightarrow> resolved c cid (tr @ es)"
  unfolding resolved_def by (metis Un_iff set_append)

lemma enveloped_envelope: "enveloped msg e \<Longrightarrow> message_envelope svc msg tr = e"
  by (simp add: enveloped_def message_envelope_def parseOrWrapEnvelope_def unmarshal_marshal_envelope)

lemma read_as_envelope [intro, simp]: "read_as msg (message_envelope svc msg tr)"
  by (auto simp: read_as_def)

lemma read_as_enveloped: "enveloped msg e \<Longrightarrow> read_as msg e' \<longleftrightarrow> e' = e"
  by (auto simp: read_as_def enveloped_envelope)

text \<open>An action that is no mark, and after which the changelog has lost nothing that is not
  resolved, keeps the invariant.\<close>

lemma kept_step:
  assumes "kept c tr" "not_marked e"
    and "\<And>cid s. has_source c cid s tr \<Longrightarrow> has_source c cid s (tr @ [e]) \<or> resolved c cid (tr @ [e])"
  shows "kept c (tr @ [e])"
  using assms resolved_mono unfolding kept_def by fastforce

lemma kept_other:
  "kept c tr \<Longrightarrow> not_marked e \<Longrightarrow> event_records (joinStateTopic c) e = [] \<Longrightarrow> kept c (tr @ [e])"
  by (rule kept_step) (simp_all add: has_source_def log_of_def)

lemma kept_mark:
  assumes "kept c tr" "read_as msg e" "has_source c (correlationID e) (source e) tr"
  shows "kept c (tr @ [Marked msg])"
proof -
  have hs: "has_source c cid s (tr @ [Marked msg]) = has_source c cid s tr" for cid s
    by (simp add: has_source_def log_of_def)
  show ?thesis
    using assms resolved_mono[of c _ tr "[Marked msg]"] unfolding kept_def hs by auto
qed

subsection \<open>All moments of an operation\<close>

definition always :: "(trace \<Rightarrow> bool) \<Rightarrow> trace \<Rightarrow> trace \<Rightarrow> bool" where
  "always P tr tr' \<longleftrightarrow> (\<exists>es. tr' = tr @ es \<and> (\<forall>xs ys. es = xs @ ys \<longrightarrow> P (tr @ xs)))"

lemma always_refl: "P tr \<Longrightarrow> always P tr tr"
  by (simp add: always_def)

lemma always_last: "always P a b \<Longrightarrow> P b"
  by (auto simp: always_def)

lemma always_trans:
  assumes "always P a b" "always P b c"
  shows "always P a c"
proof -
  obtain es fs where e: "b = a @ es" "\<forall>xs ys. es = xs @ ys \<longrightarrow> P (a @ xs)"
    and f: "c = b @ fs" "\<forall>xs ys. fs = xs @ ys \<longrightarrow> P (b @ xs)"
    using assms unfolding always_def by blast
  have "P (a @ xs)" if "es @ fs = xs @ ys" for xs ys
  proof -
    from that obtain us where "es = xs @ us \<or> xs = es @ us \<and> fs = us @ ys"
      by (auto simp: append_eq_append_conv2)
    then show ?thesis using e f by auto
  qed
  then show ?thesis using e f unfolding always_def by auto
qed

lemma always_snoc: "always P a b \<Longrightarrow> P (b @ [e]) \<Longrightarrow> always P a (b @ [e])"
proof (rule always_trans)
  assume "always P a b" "P (b @ [e])"
  then show "always P b (b @ [e])"
    using always_last[of P a b] by (auto simp: always_def append_eq_Cons_conv Cons_eq_append_conv)
qed

lemma always_events:
  assumes "P tr" "\<And>tr e. e \<in> set es \<Longrightarrow> P tr \<Longrightarrow> P (tr @ [e])"
  shows "always P tr (tr @ es)"
  using assms(2)
proof (induction es rule: rev_induct)
  case Nil
  then show ?case using assms(1) by (simp add: always_refl)
next
  case (snoc e es)
  then have a: "always P tr (tr @ es)" by simp
  have "P ((tr @ es) @ [e])" by (rule snoc.prems) (use always_last[OF a] in simp_all)
  from always_snoc[OF a this] show ?case by simp
qed

lemma always_prefix: "always P a c \<Longrightarrow> c = a @ xs @ ys \<Longrightarrow> P (a @ xs)"
  by (auto simp: always_def)

subsection \<open>One life\<close>

definition agrees :: "config \<Rightarrow> agentHandler \<Rightarrow> trace \<Rightarrow> bool" where
  "agrees c h tr \<longleftrightarrow> cfg h = c \<and> synced h tr
     \<and> (\<forall>cid. fmlookup (joins h) cid = None \<longrightarrow> fmlookup (log_of c tr) cid = None \<or> resolved c cid tr)"

lemma agreesD:
  "agrees c h tr \<Longrightarrow> fmlookup (joins h) cid = None \<Longrightarrow> fmlookup (log_of c tr) cid = None \<or> resolved c cid tr"
  by (simp add: agrees_def)

lemma log_of_cfg: "log_of (cfg h) tr = changelog h tr"
  by (simp add: log_of_def changelog_def)

lemma log_of_quiet: "quiet (joinStateTopic c) es \<Longrightarrow> log_of c (tr @ es) = log_of c tr"
  by (simp add: log_of_def quiet_records)

lemma kept_quiet:
  assumes "kept c tr" "list_all not_marked es" "quiet (joinStateTopic c) es"
  shows "always (kept c) tr (tr @ es)"
  using assms by (intro always_events kept_other) (auto simp: quiet_def list_all_iff)

lemma agrees_quiet:
  assumes "agrees c h tr" "quiet (joinStateTopic c) es"
  shows "agrees c h (tr @ es)"
proof -
  have l: "changelog h (tr @ es) = changelog h tr" "log_of c (tr @ es) = log_of c tr"
    using log_of_quiet[OF assms(2)] assms(1) log_of_cfg[of h] by (auto simp: agrees_def)
  show ?thesis
    using assms(1) resolved_mono[of c _ tr es] by (auto simp: agrees_def synced_iff l)
qed

lemma not_marked_published: "list_all not_marked (published h cid out)"
  by (simp add: published_def list_all_iff)

lemma resolved_published: "cfg h = c \<Longrightarrow> resolved c cid (tr @ published h cid out)"
  unfolding resolved_def published_def output_message_def by (intro exI[of _ out]) auto

lemma log_of_buried:
  "k \<noteq> cid \<Longrightarrow> cfg h = c \<Longrightarrow>
     fmlookup (log_of c (tr @ [Sent \<lparr>pm_topic = joinStateTopic c, pm_key = cid, pm_value = None\<rparr> a])) k
       = fmlookup (log_of c tr) k"
  by (simp add: log_of_def)

lemma kept_buried:
  assumes "kept c tr" "cfg h = c" "resolved c cid tr"
  shows "kept c (tr @ [Sent \<lparr>pm_topic = joinStateTopic c, pm_key = cid, pm_value = None\<rparr> a])"
proof (rule kept_step[OF assms(1)])
  fix k s
  assume h: "has_source c k s tr"
  show "has_source c k s (tr @ [Sent \<lparr>pm_topic = joinStateTopic c, pm_key = cid, pm_value = None\<rparr> a])
    \<or> resolved c k (tr @ [Sent \<lparr>pm_topic = joinStateTopic c, pm_key = cid, pm_value = None\<rparr> a])"
  proof (cases "k = cid")
    case True
    then show ?thesis using resolved_mono[OF assms(3)] by simp
  next
    case False
    then show ?thesis using h log_of_buried[OF False assms(2)] by (simp add: has_source_def)
  qed
qed simp

lemma life_complete:
  assumes "agrees c h tr" "kept c tr" "fan_in_node c"
    and "completeCorrelation svc h cid d tr = (r, tr')"
  shows "always (kept c) tr tr' \<and> (\<forall>h'. r = Ret h' \<longrightarrow> agrees c h' tr')"
  using assms(4)
proof (cases rule: complete_cases)
  case (failed es f)
  then show ?thesis
    using kept_quiet[OF assms(2) not_marked_asked quiet_asked] by simp
next
  case (unpublished es out err ps)
  have "quiet (joinStateTopic c) ps"
    using assms(1,3) quiet_published(2)[OF _ unpublished(4)] by (simp add: agrees_def fan_in_node_def)
  then have "always (kept c) tr (tr @ (es @ ps))"
    using kept_quiet[OF assms(2), of "es @ ps"] unpublished not_marked_asked not_marked_partly quiet_asked
    by auto
  with unpublished show ?thesis by simp
next
  case (completed es out b)
  let ?es = "es @ published h cid out" and ?bury = "\<lparr>pm_topic = joinStateTopic c, pm_key = cid, pm_value = None\<rparr>"
  have c: "cfg h = c" using assms(1) by (simp add: agrees_def)
  have q: "quiet (joinStateTopic c) ?es"
    using quiet_asked[OF completed(2)] quiet_published(1)[of "joinStateTopic c" h] assms(3) c
    by (simp add: fan_in_node_def)
  have k: "always (kept c) tr (tr @ ?es)"
    using kept_quiet[OF assms(2) _ q] not_marked_asked[OF completed(2)] not_marked_published by simp
  obtain a where b: "b = [Sent ?bury a]"
    using completed(4) assms(3) c by (auto simp: buried_def fan_in_node_def)
  have res: "resolved c cid (tr @ ?es)" using resolved_published[OF c, of cid "tr @ es" out] by simp
  have k2: "always (kept c) tr ((tr @ ?es) @ [Sent ?bury a])"
    by (rule always_snoc[OF k kept_buried[OF always_last[OF k] c res]])
  have h': "completed_joins h cid = h\<lparr>joins := fmdrop cid (joins h)\<rparr>"
    using assms(3) c by (simp add: completed_joins_def fan_in_node_def)
  have ag: "agrees c h (tr @ ?es)" by (rule agrees_quiet[OF assms(1) q])
  have syn: "synced (completed_joins h cid) tr'"
    using synced_completed[of h tr svc cid d "completed_joins h cid" tr'] assms(1,3,4) c completed(1)
    by (simp add: agrees_def)
  have "agrees c (completed_joins h cid) tr'"
    unfolding agrees_def
  proof (intro conjI allI impI syn)
    show "cfg (completed_joins h cid) = c" by (simp add: h' c)
    fix k
    assume n: "fmlookup (joins (completed_joins h cid)) k = None"
    have t: "tr' = (tr @ ?es) @ [Sent ?bury a]" using completed(3) b by simp
    show "fmlookup (log_of c tr') k = None \<or> resolved c k tr'"
    proof (cases "k = cid")
      case True
      then show ?thesis using resolved_mono[OF res] t by simp
    next
      case False
      with n have "fmlookup (joins h) k = None" by (simp add: h')
      from agreesD[OF ag this]
      have "fmlookup (log_of c (tr @ ?es)) k = None \<or> resolved c k (tr @ ?es)" .
      then show ?thesis
        unfolding t log_of_buried[OF False c] using resolved_mono[of c k "tr @ ?es"] by (elim disjE) simp_all
    qed
  qed
  with k2 completed(1,3) b show ?thesis by simp
qed

lemma log_of_written:
  "wf_joinState st \<Longrightarrow> cfg h = c \<Longrightarrow>
     log_of c (tr @ [Sent (changelog_message h cid st) a])
       = (if stored a then fmupd cid st (log_of c tr) else log_of c tr)"
  by (auto simp: log_of_def changelog_message_def apply_written)

lemma kept_written:
  assumes "agrees c h tr" "kept c tr" "received (known h cid) = Some rcv"
    and "st = \<lparr>received = Some (fmupd src d rcv)\<rparr>" "wf_joinState st"
  shows "kept c (tr @ [Sent (changelog_message h cid st) a])"
proof (rule kept_step[OF assms(2)])
  fix k s
  assume h: "has_source c k s tr"
  have c: "cfg h = c" using assms(1) by (simp add: agrees_def)
  note l = log_of_written[OF assms(5) c, of tr cid a]
  show "has_source c k s (tr @ [Sent (changelog_message h cid st) a])
    \<or> resolved c k (tr @ [Sent (changelog_message h cid st) a])"
  proof (cases "k = cid \<and> stored a")
    case False
    then show ?thesis using h by (auto simp: has_source_def l)
  next
    case True
    show ?thesis
    proof (cases "fmlookup (joins h) cid")
      case None
      then have "fmlookup (log_of c tr) cid = None \<or> resolved c cid tr"
        by (rule agreesD[OF assms(1)])
      then have "resolved c cid tr" using h True by (auto simp: has_source_def)
      from resolved_mono[OF this] show ?thesis using True by simp
    next
      case (Some st0)
      then have "fmlookup (log_of c tr) cid = Some st0"
        using assms(1) log_of_cfg[of h] by (auto simp: agrees_def synced_iff)
      then have "fmlookup (entries (received st0)) s \<noteq> None" using h True by (auto simp: has_source_def)
      moreover have "received st0 = Some rcv" using assms(3) Some by (simp add: known_def)
      moreover have "fmlookup (log_of c (tr @ [Sent (changelog_message h cid st) a])) cid = Some st"
        using True by (simp add: l)
      ultimately show ?thesis using True by (auto simp: has_source_def assms(4))
    qed
  qed
qed simp

lemma life_consume:
  assumes "agrees c h tr" "kept c tr" "fan_in_node c" "isFanIn h" "valid_utf8 (cm_value msg)"
    and "consume_message svc h msg tr = (r, tr')"
  shows "always (kept c) tr tr' \<and> (\<forall>h'. r = Ret h' \<longrightarrow> agrees c h' tr')"
proof -
  let ?env = "message_envelope svc msg tr"
  let ?cid = "correlationID ?env"
  have c: "cfg h = c" and sy: "synced h tr" using assms(1) by (simp_all add: agrees_def)
  have wf: "wf_joinState (with_contribution ?env rcv)" if "received (known h ?cid) = Some rcv" for rcv
    using wf_contribution[OF synced_known[OF sy] that] message_wf[OF assms(5)] by blast
  have written: "always (kept c) tr (tr @ [Sent (changelog_message h ?cid (with_contribution ?env rcv)) a])"
    if "received (known h ?cid) = Some rcv" for rcv a
    by (rule always_snoc[OF always_refl[of "kept c", OF assms(2)]
          kept_written[OF assms(1,2) that _ wf[OF that]]]) (simp add: with_contribution_def)
  have recorded: "always (kept c) tr (tr @ recorded_events h ?env rcv msg)"
    and taken: "agrees c (taken h ?env rcv) (tr @ recorded_events h ?env rcv msg)"
    if rcv: "received (known h ?cid) = Some rcv" for rcv
  proof -
    let ?w = "[Sent (changelog_message h ?cid (with_contribution ?env rcv)) Acked]"
    have log: "log_of c (tr @ ?w) = fmupd ?cid (with_contribution ?env rcv) (log_of c tr)"
      using log_of_written[OF wf[OF rcv] c, of tr ?cid Acked] by simp
    have "has_source c ?cid (source ?env) (tr @ ?w)"
      using log by (simp add: has_source_def with_contribution_def)
    from always_snoc[OF written[OF rcv] kept_mark[OF always_last[OF written[OF rcv]] read_as_envelope this]]
    show "always (kept c) tr (tr @ recorded_events h ?env rcv msg)"
      by (simp add: recorded_events_def)
    have log2: "log_of c (tr @ recorded_events h ?env rcv msg)
        = fmupd ?cid (with_contribution ?env rcv) (log_of c tr)"
      using log by (simp add: recorded_events_def log_of_def)
    show "agrees c (taken h ?env rcv) (tr @ recorded_events h ?env rcv msg)"
      unfolding agrees_def
    proof (intro conjI allI impI)
      show "cfg (taken h ?env rcv) = c" using c by simp
      show "synced (taken h ?env rcv) (tr @ recorded_events h ?env rcv msg)"
        using synced_taken[OF sy rcv] message_wf[OF assms(5)] by blast
      fix k
      assume "fmlookup (joins (taken h ?env rcv)) k = None"
      then have k: "k \<noteq> ?cid" "fmlookup (joins h) k = None" by (auto simp: taken_def split: if_splits)
      from agreesD[OF assms(1) k(2)] resolved_mono
      show "fmlookup (log_of c (tr @ recorded_events h ?env rcv msg)) k = None
          \<or> resolved c k (tr @ recorded_events h ?env rcv msg)"
        using k(1) by (auto simp: log2)
    qed
  qed
  from assms(4,6) refl[of ?env] show ?thesis
  proof (cases rule: consume_cases)
    case panic
    then show ?thesis using always_refl[of "kept c", OF assms(2)] by simp
  next
    case (unrecorded rcv st e k)
    then show ?thesis using written[OF unrecorded(2)] by simp
  next
    case (waiting rcv)
    then show ?thesis using recorded[OF waiting(1)] taken[OF waiting(1)] by simp
  next
    case (ready rcv m)
    note k = always_last[OF recorded[OF ready(1)]]
    from life_complete[OF taken[OF ready(1)] k assms(3) ready(3)]
    show ?thesis using always_trans[OF recorded[OF ready(1)]] by blast
  qed
qed

lemma life_claim:
  assumes "consumeClaim svc h msgs tr = (r, tr')" "agrees c h tr" "kept c tr" "fan_in_node c" "isFanIn h"
    and "\<forall>msg \<in> set msgs. valid_utf8 (cm_value msg)"
  shows "always (kept c) tr tr' \<and> (\<forall>h'. r = Ret h' \<longrightarrow> agrees c h' tr')"
  using assms
proof (induction msgs arbitrary: h tr)
  case Nil
  then show ?case using always_refl[of "kept c" tr] by auto
next
  case (Cons msg msgs)
  obtain r1 tr1 where k: "consume_message svc h msg tr = (r1, tr1)" by fastforce
  have v: "valid_utf8 (cm_value msg)" using Cons.prems(6) by simp
  note one = life_consume[OF Cons.prems(2-5) v k]
  show ?case
  proof (cases r1)
    case (Ret h1)
    with one have a: "always (kept c) tr tr1" "agrees c h1 tr1" by simp_all
    have "isFanIn h1"
      using a(2) Cons.prems(2,5) by (simp add: agrees_def isFanIn_def)
    moreover have "consumeClaim svc h1 msgs tr1 = (r, tr')" using Cons.prems(1) k Ret by simp
    moreover have "\<forall>msg \<in> set msgs. valid_utf8 (cm_value msg)" using Cons.prems(6) by simp
    ultimately have "always (kept c) tr1 tr' \<and> (\<forall>h'. r = Ret h' \<longrightarrow> agrees c h' tr')"
      using Cons.IH[of h1 tr1] a(2) always_last[OF a(1)] Cons.prems(4) by blast
    with always_trans[OF a(1)] show ?thesis by blast
  qed (use Cons.prems(1) k one in auto)
qed

lemma life_recover:
  assumes "recover_joins svc h cids tr = (r, tr')" "agrees c h tr" "kept c tr" "fan_in_node c"
  shows "always (kept c) tr tr' \<and> (\<forall>h'. r = Ret h' \<longrightarrow> agrees c h' tr')"
  using assms
proof (induction svc h cids tr rule: recover_joins.induct)
  case (1 svc h tr)
  then show ?case using always_refl[of "kept c" tr] by auto
next
  case (2 svc h cid cids tr)
  show ?case
  proof (cases "\<exists>st. fmlookup (joins h) cid = Some st \<and> gomap_len (received st) \<ge> length (dependsOn (cfg h))")
    case False
    with 2 show ?thesis by (auto split: option.splits)
  next
    case True
    then obtain st where st: "fmlookup (joins h) cid = Some st"
      "gomap_len (received st) \<ge> length (dependsOn (cfg h))" by blast
    obtain r1 tr1 where k: "completeCorrelation svc h cid (Some (mergeJoinedData (visit svc tr) st)) tr = (r1, tr1)"
      by fastforce
    note one = life_complete[OF 2(5-7) k]
    show ?thesis
    proof (cases r1)
      case (Ret h1)
      with one have a: "always (kept c) tr tr1" "agrees c h1 tr1" by simp_all
      have "recover_joins svc h1 cids tr1 = (r, tr')" using 2(4) k Ret st by simp
      from 2(2)[OF st(1) st(2) k[unfolded Ret, symmetric] refl this a(2) always_last[OF a(1)] 2(7)]
      show ?thesis using always_trans[OF a(1)] by blast
    qed (use 2(4) k st one in auto)
  qed
qed

subsection \<open>Any number of lives\<close>

text \<open>What the next pod finds: its hydration, if it ends well, read the changelog as it is. (That
  Kafka's partitions and their compaction give this is shown with the changelog.)\<close>

definition faithful :: "startup \<Rightarrow> config \<Rightarrow> trace \<Rightarrow> bool" where
  "faithful su c tr \<longleftrightarrow>
     (case hydrateJoinState (kafka su) (joinStateTopic c) of
        Hydrated js \<Rightarrow> js = log_of c tr | _ \<Rightarrow> True)"

text \<open>A life runs \<open>main\<close> on what the earlier lives left, and can end after any of its actions.
  The services and the messages differ from life to life.\<close>

inductive reachable :: "(string \<Rightarrow> string) \<Rightarrow> trace \<Rightarrow> bool" for getenv where
  birth: "reachable getenv []"
| life: "reachable getenv tr \<Longrightarrow> faithful su (loadConfig getenv) tr
    \<Longrightarrow> \<forall>msg \<in> set msgs. valid_utf8 (cm_value msg)
    \<Longrightarrow> runner_main svc su getenv msgs tr = Some (r, tr @ es @ lost)
    \<Longrightarrow> reachable getenv (tr @ es)"

lemma life_main:
  assumes "runner_main svc su getenv msgs tr = Some (r, tr')" "faithful su (loadConfig getenv) tr"
    and "kept (loadConfig getenv) tr" "fan_in_node (loadConfig getenv)"
    and "1 < length (dependsOn (loadConfig getenv))" "\<forall>msg \<in> set msgs. valid_utf8 (cm_value msg)"
  shows "always (kept (loadConfig getenv)) tr tr'"
proof -
  let ?c = "loadConfig getenv"
  have refl: "always (kept ?c) tr tr" by (rule always_refl[of "kept ?c", OF assms(3)])
  show ?thesis
  proof (cases "producer_error su")
    case (Some e)
    with assms(1) refl show ?thesis by (simp add: runner_main_def Let_def)
  next
    case None
    show ?thesis
    proof (cases "hydrateJoinState (kafka su) (joinStateTopic ?c)")
      case (Hydrated js)
      let ?h = "new_handler svc su ?c js tr"
      have js: "js = log_of ?c tr" using assms(2) Hydrated by (simp add: faithful_def)
      have ag: "agrees ?c ?h tr"
        using synced_hydrated[of ?h tr] js log_of_cfg[of ?h tr] by (simp add: agrees_def new_handler_def)
      obtain r1 tr1 where rec: "recover_joins svc ?h (visit svc tr (fmdom js)) tr = (r1, tr1)" by fastforce
      note a = life_recover[OF rec ag assms(3,4)]
      have m: "runner_main svc su getenv msgs tr =
          (case r1 of
             Ret h1 \<Rightarrow> (case group_error su of
                 Some e \<Rightarrow> Some (Fatal (NoConsumerGroup e), tr1)
               | None \<Rightarrow> Some (consumeClaim svc h1 msgs tr1))
           | other \<Rightarrow> Some (other, tr1))"
        using None Hydrated rec by (simp add: runner_main_def Let_def split: outcome.splits)
      show ?thesis
      proof (cases "\<exists>h1. r1 = Ret h1 \<and> group_error su = None")
        case False
        with m assms(1) have "tr' = tr1" by (auto split: outcome.splits option.splits)
        with a show ?thesis by simp
      next
        case True
        then obtain h1 where h1: "r1 = Ret h1" "group_error su = None" by blast
        then have k: "consumeClaim svc h1 msgs tr1 = (r, tr')" using m assms(1) by simp
        have ag1: "agrees ?c h1 tr1" and k1: "kept ?c tr1"
          using a h1 always_last by blast+
        have "isFanIn h1" using ag1 assms(5) by (simp add: agrees_def isFanIn_def)
        from life_claim[OF k ag1 k1 assms(4) this assms(6)] a
        show ?thesis using always_trans by blast
      qed
    next
      case (HydrationFailed e)
      with assms(1) None refl show ?thesis by (simp add: runner_main_def Let_def)
    next
      case Waiting
      with assms(1) None show ?thesis by (simp add: runner_main_def Let_def)
    qed
  qed
qed

theorem reachable_kept:
  assumes "reachable getenv tr" "fan_in_node (loadConfig getenv)"
    and "1 < length (dependsOn (loadConfig getenv))"
  shows "kept (loadConfig getenv) tr"
  using assms(1)
proof (induction rule: reachable.induct)
  case birth
  then show ?case by simp
next
  case (life tr su msgs svc r es lost)
  have "always (kept (loadConfig getenv)) tr (tr @ es @ lost)"
    by (rule life_main[OF life(4,2) life.IH assms(2,3) life(3)])
  then show ?case by (rule always_prefix) (rule refl)
qed

end
