(* ===== verification/PodLaws.thy ===== *)
theory PodLaws
  imports Pod Lives
begin

section \<open>What holds while the claims of a pod interleave\<close>

text \<open>
  The invariant of a pod that is given the messages of the correlation IDs \<open>own\<close>: whatever the
  changelog holds of one of these that is not resolved is also in memory (\<open>ahead\<close>), every marked
  task is taken care of (\<open>safe\<close>), and each claim has what the place it stands at needs
  (\<open>claim_ok\<close>). A pod that is alone owns all. Memory may be ahead of the changelog: a
  contribution whose write failed stays in it until the process ends, and another claim may act
  in between. \<open>invariant_step\<close> is one step of one claim, \<open>pod_invariant\<close> any interleaving,
  \<open>alive_safe\<close> any number of lives of the pod.
\<close>

subsection \<open>What a task has been given\<close>

definition joining :: "config \<Rightarrow> bool" where
  "joining c \<longleftrightarrow> 1 < length (dependsOn c)"

lemma isFanIn_joining: "isFanIn h = joining (cfg h)"
  by (simp add: isFanIn_def joining_def)

text \<open>The node's result for the task is published, or the node joins and has the contribution of
  this source in its changelog.\<close>

definition secured :: "config \<Rightarrow> string \<Rightarrow> string \<Rightarrow> trace \<Rightarrow> bool" where
  "secured c cid s tr \<longleftrightarrow> resolved c cid tr \<or> joining c \<and> has_source c cid s tr"

definition safe :: "config \<Rightarrow> trace \<Rightarrow> bool" where
  "safe c tr \<longleftrightarrow>
     (\<forall>msg. Marked msg \<in> set tr \<longrightarrow> (\<exists>e. read_as msg e \<and> secured c (correlationID e) (source e) tr))"

lemma safe_empty [simp]: "safe c []"
  by (simp add: safe_def)

text \<open>What the operator gives a node: a join has a changelog, a node without a join has none,
  and no node publishes into its changelog.\<close>

definition wired :: "config \<Rightarrow> bool" where
  "wired c \<longleftrightarrow> (joining c \<longleftrightarrow> joinStateTopic c \<noteq> []) \<and> joinStateTopic c \<notin> set (outputTopics c)"

text \<open>A later trace in which nothing that was secured is lost.\<close>

definition grows :: "config \<Rightarrow> trace \<Rightarrow> trace \<Rightarrow> bool" where
  "grows c tr tr' \<longleftrightarrow>
     (\<exists>es. tr' = tr @ es) \<and> (\<forall>cid s. secured c cid s tr \<longrightarrow> secured c cid s tr')"

lemma grows_refl [simp]: "grows c tr tr"
  by (simp add: grows_def)

lemma grows_resolved: "grows c tr tr' \<Longrightarrow> resolved c cid tr \<Longrightarrow> resolved c cid tr'"
  by (auto simp: grows_def intro: resolved_mono)

lemma grows_trans: "grows c tr tr1 \<Longrightarrow> grows c tr1 tr2 \<Longrightarrow> grows c tr tr2"
  by (auto simp: grows_def)

lemma grows_event: "grows c tr tr' \<Longrightarrow> x \<in> set tr \<Longrightarrow> x \<in> set tr'"
  by (auto simp: grows_def)

lemma has_source_quiet:
  "quiet (joinStateTopic c) es \<Longrightarrow> has_source c cid s (tr @ es) = has_source c cid s tr"
  by (simp add: has_source_def log_of_quiet)

lemma grows_quiet: "quiet (joinStateTopic c) es \<Longrightarrow> grows c tr (tr @ es)"
  using resolved_mono by (auto simp: grows_def secured_def has_source_quiet)

lemma safe_grows: "safe c tr \<Longrightarrow> grows c tr (tr @ es) \<Longrightarrow> list_all not_marked es \<Longrightarrow> safe c (tr @ es)"
  by (fastforce simp: safe_def grows_def list_all_iff)

lemma safe_mark:
  assumes "safe c tr" "read_as msg e" "secured c (correlationID e) (source e) tr"
  shows "safe c (tr @ [Marked msg])" "grows c tr (tr @ [Marked msg])"
proof -
  show g: "grows c tr (tr @ [Marked msg])" by (rule grows_quiet) (simp add: quiet_def)
  show "safe c (tr @ [Marked msg])"
    unfolding safe_def
  proof (intro allI impI)
    fix m
    assume m: "Marked m \<in> set (tr @ [Marked msg])"
    have "\<exists>e. read_as m e \<and> secured c (correlationID e) (source e) tr"
      using m assms by (auto simp: safe_def)
    with g show "\<exists>e. read_as m e \<and> secured c (correlationID e) (source e) (tr @ [Marked msg])"
      unfolding grows_def by blast
  qed
qed

subsection \<open>Memory and claims\<close>

definition ahead :: "string set \<Rightarrow> config \<Rightarrow> agentHandler \<Rightarrow> trace \<Rightarrow> bool" where
  "ahead own c h tr \<longleftrightarrow>
     (joining c \<longrightarrow> (\<forall>cid \<in> own. \<forall>s. has_source c cid s tr \<longrightarrow> resolved c cid tr
        \<or> (\<exists>st. fmlookup (joins h) cid = Some st \<and> fmlookup (entries (received st)) s \<noteq> None)))"

text \<open>Whatever ID a message is given, the pod owns it.\<close>

definition given :: "string set \<Rightarrow> config \<Rightarrow> consumer_message \<Rightarrow> bool" where
  "given own c msg \<longleftrightarrow> (joining c \<longrightarrow> (\<forall>svc tr. correlationID (message_envelope svc msg tr) \<in> own))"

lemma given_all [simp]: "given UNIV c msg"
  by (simp add: given_def)

text \<open>What others may rely on: nothing new in the changelog about the IDs \<open>others\<close>, unless they are
  resolved.\<close>

definition spares :: "string set \<Rightarrow> config \<Rightarrow> trace \<Rightarrow> trace \<Rightarrow> bool" where
  "spares others c tr tr' \<longleftrightarrow>
     (joining c \<longrightarrow> (\<forall>cid \<in> others. \<forall>s. has_source c cid s tr' \<longrightarrow> has_source c cid s tr \<or> resolved c cid tr'))"

lemma spares_refl [simp]: "spares others c tr tr"
  by (simp add: spares_def)

definition wf_joins :: "agentHandler \<Rightarrow> bool" where
  "wf_joins h \<longleftrightarrow> (\<forall>cid st. fmlookup (joins h) cid = Some st \<longrightarrow> wf_joinState st)"

text \<open>A claim's work is about the message it will mark (a join is marked before its work starts).\<close>

definition about :: "config \<Rightarrow> work \<Rightarrow> bool" where
  "about c w \<longleftrightarrow> joining c \<or> (\<exists>e. read_as (work_msg w) e \<and> correlationID e = work_cid w)"

definition covered :: "config \<Rightarrow> trace \<Rightarrow> work \<Rightarrow> bool" where
  "covered c tr w \<longleftrightarrow>
     (\<exists>e. read_as (work_msg w) e \<and> secured c (correlationID e) (source e) tr)"

text \<open>One result for the task is acknowledged by every output topic that is not left.\<close>

definition publishing :: "config \<Rightarrow> trace \<Rightarrow> work \<Rightarrow> string list \<Rightarrow> string \<Rightarrow> bool" where
  "publishing c tr w ts payload \<longleftrightarrow>
     (\<exists>out. payload = marshal_envelope \<lparr>correlationID = work_cid w, source = nodeName c, data = Some out\<rparr>)
     \<and> set ts \<subseteq> set (outputTopics c)
     \<and> (\<forall>t \<in> set (outputTopics c). t \<in> set ts
          \<or> Sent \<lparr>pm_topic = t, pm_key = work_cid w, pm_value = Some payload\<rparr> Acked \<in> set tr)"

fun claim_ok :: "string set \<Rightarrow> config \<Rightarrow> trace \<Rightarrow> claim \<Rightarrow> bool" where
  "claim_ok own c tr Idle = True"
| "claim_ok own c tr (Taken msg) = (valid_utf8 (cm_value msg) \<and> given own c msg)"
| "claim_ok own c tr (Joining msg env) =
     (valid_utf8 (source env) \<and> wf_map (data env) \<and> read_as msg env
      \<and> (joining c \<longrightarrow> correlationID env \<in> own))"
| "claim_ok own c tr (Joined w ready) =
     (about c w \<and> (if joining c then covered c tr w else ready))"
| "claim_ok own c tr (Completing w) = about c w"
| "claim_ok own c tr (Asking w n ms) = about c w"
| "claim_ok own c tr (Calling w n ms tcs) = about c w"
| "claim_ok own c tr (Publishing w ts payload) = (about c w \<and> publishing c tr w ts payload)"
| "claim_ok own c tr (Published w) = (about c w \<and> resolved c (work_cid w) tr)"
| "claim_ok own c tr (Forgotten w) = (about c w \<and> resolved c (work_cid w) tr)"
| "claim_ok own c tr (Completed w) = (about c w \<and> resolved c (work_cid w) tr)"
| "claim_ok own c tr (Failing f) = True"

lemma claim_ok_grows: "claim_ok own c tr cl \<Longrightarrow> grows c tr tr' \<Longrightarrow> claim_ok own c tr' cl"
  by (cases cl) (auto simp: covered_def publishing_def grows_resolved grows_event split: if_splits,
      auto simp: grows_def)

definition pod_ok :: "string set \<Rightarrow> config \<Rightarrow> agentHandler \<Rightarrow> trace \<Rightarrow> bool" where
  "pod_ok own c h tr \<longleftrightarrow> cfg h = c \<and> ahead own c h tr \<and> wf_joins h \<and> safe c tr
     \<and> (joining c \<or> joins h = fmempty)"

lemma ahead_grows:
  assumes "ahead own c h tr" "quiet (joinStateTopic c) es"
  shows "ahead own c h (tr @ es)"
  using assms(1) resolved_mono unfolding ahead_def has_source_quiet[OF assms(2)] by blast

lemma spares_quiet: "quiet (joinStateTopic c) es \<Longrightarrow> spares others c tr (tr @ es)"
  by (simp add: spares_def has_source_quiet)

lemma spares_trans:
  "spares others c tr tr1 \<Longrightarrow> spares others c tr1 tr2 \<Longrightarrow> grows c tr1 tr2 \<Longrightarrow> spares others c tr tr2"
  unfolding spares_def using grows_resolved by blast

text \<open>Events that write nothing to the changelog and mark nothing.\<close>

lemma pod_ok_quiet:
  assumes "pod_ok own c h tr" "quiet (joinStateTopic c) es" "list_all not_marked es"
  shows "pod_ok own c h (tr @ es)" "grows c tr (tr @ es)" "spares (- own) c tr (tr @ es)"
proof -
  show "spares (- own) c tr (tr @ es)" by (rule spares_quiet[OF assms(2)])
  show "grows c tr (tr @ es)" by (rule grows_quiet[OF assms(2)])
  with assms safe_grows ahead_grows show "pod_ok own c h (tr @ es)" by (auto simp: pod_ok_def)
qed

lemma pod_ok_mark:
  assumes "pod_ok own c h tr" "read_as msg e" "secured c (correlationID e) (source e) tr"
  shows "pod_ok own c h (tr @ [Marked msg])" "grows c tr (tr @ [Marked msg])"
    "spares (- own) c tr (tr @ [Marked msg])"
  using assms safe_mark[of c tr msg e] ahead_grows[of own c h tr "[Marked msg]"] spares_quiet[of c "[Marked msg]"]
  by (auto simp: pod_ok_def quiet_def)

subsection \<open>The steps\<close>

lemma join_written:
  assumes "isFanIn h" "join svc h env tr = (r, h', tr')"
  obtains (panic) "r = Panic" "h' = h" "tr' = tr"
    | (written) rcv a where "received (known h (correlationID env)) = Some rcv" "h' = taken h env rcv"
        "tr' = tr @ [Sent (changelog_message h (correlationID env) (with_contribution env rcv)) a]"
        "(\<exists>e. r = Ret (Inl e)) \<or> (\<exists>m ready. r = Ret (Inr (m, ready)) \<and> a = Acked)"
proof (cases "received (known h (correlationID env))")
  case None
  with assms panic show ?thesis
    by (simp add: join_def isFanIn_def known_def Let_def split: option.splits)
next
  case (Some rcv)
  let ?a = "answer_send svc tr (changelog_message h (correlationID env) (with_contribution env rcv))"
  have w: "writeJoinState svc (joinStateTopic (cfg h)) (correlationID env) (with_contribution env rcv) tr
      = (?a, tr @ [Sent (changelog_message h (correlationID env) (with_contribution env rcv)) ?a])"
    by (simp add: writeJoinState_def send_message_def changelog_message_def Let_def)
  have st: "(known h (correlationID env))\<lparr>received := Some (fmupd (source env) (data env) rcv)\<rparr>
      = with_contribution env rcv"
    by (simp add: with_contribution_def)
  have nf: "\<not> length (dependsOn (cfg h)) \<le> 1" using assms(1) by (simp add: isFanIn_def)
  have "h' = taken h env rcv"
    "tr' = tr @ [Sent (changelog_message h (correlationID env) (with_contribution env rcv)) ?a]"
    "(\<exists>e. r = Ret (Inl e)) \<or> (\<exists>m ready. r = Ret (Inr (m, ready)) \<and> ?a = Acked)"
    using assms(2)[unfolded join_def Let_def known_def[symmetric] Some option.case if_not_P[OF nf] st w prod.case]
    by (auto simp: taken_def split: send_result.splits if_splits)
  then show ?thesis by (rule written[OF Some])
qed

lemma wf_known: "wf_joins h \<Longrightarrow> wf_joinState (known h cid)"
  by (auto simp: wf_joins_def known_def wf_joinState_def wf_received_def split: option.splits)

lemma pod_ok_written:
  assumes "pod_ok own c h tr" "received (known h (correlationID env)) = Some rcv"
    and "valid_utf8 (source env)" "wf_map (data env)"
    and "tr' = tr @ [Sent (changelog_message h (correlationID env) (with_contribution env rcv)) a]"
    and "joining c" "correlationID env \<in> own"
  shows "pod_ok own c (taken h env rcv) tr'" "grows c tr tr'" "spares (- own) c tr tr'"
    "a = Acked \<Longrightarrow> has_source c (correlationID env) (source env) tr'"
proof -
  let ?cid = "correlationID env" and ?st = "with_contribution env rcv"
  have c: "cfg h = c" and ah: "ahead own c h tr" and wj: "wf_joins h" and sf: "safe c tr"
    using assms(1) by (simp_all add: pod_ok_def)
  have wf: "wf_joinState ?st" by (rule wf_contribution[OF wf_known[OF wj] assms(2-4)])
  have log: "log_of c tr' = (if stored a then fmupd ?cid ?st (log_of c tr) else log_of c tr)"
    unfolding assms(5) by (rule log_of_written[OF wf c])
  have mono: "resolved c k tr \<Longrightarrow> resolved c k tr'" for k unfolding assms(5) by (rule resolved_mono)
  note ah = ah[unfolded ahead_def, rule_format, OF assms(6)]
  have mem: "fmlookup (entries (received ?st)) s \<noteq> None"
    if "has_source c ?cid s tr" "\<not> resolved c ?cid tr" for s
  proof -
    from ah[OF assms(7) that(1)] that(2)
    obtain st where "fmlookup (joins h) ?cid = Some st" "fmlookup (entries (received st)) s \<noteq> None" by blast
    then show ?thesis using assms(2) by (auto simp: known_def with_contribution_def)
  qed
  have kept: "has_source c k s tr'" if "has_source c k s tr" "\<not> resolved c k tr" for k s
    using that mem[of s] by (auto simp: has_source_def log)
  show g: "grows c tr tr'"
    using kept mono assms(5) by (auto simp: grows_def secured_def)
  show "spares (- own) c tr tr'"
    using assms(7) by (auto simp: spares_def has_source_def log split: if_splits)
  show "a = Acked \<Longrightarrow> has_source c ?cid (source env) tr'"
    by (simp add: has_source_def log with_contribution_def)
  have "ahead own c (taken h env rcv) tr'"
    unfolding ahead_def
  proof (intro allI impI ballI)
    fix k s
    assume k: "k \<in> own" and n: "has_source c k s tr'"
    show "resolved c k tr' \<or> (\<exists>st. fmlookup (joins (taken h env rcv)) k = Some st
        \<and> fmlookup (entries (received st)) s \<noteq> None)"
    proof (cases "k = ?cid \<and> stored a")
      case True
      with n show ?thesis by (auto simp: has_source_def log taken_def)
    next
      case False
      then have h: "has_source c k s tr" using n by (auto simp: has_source_def log split: if_splits)
      show ?thesis
      proof (cases "k = ?cid")
        case True
        then show ?thesis using h mono mem[of s] by (auto simp: taken_def)
      next
        case False
        then show ?thesis using ah[OF k h] mono by (auto simp: taken_def)
      qed
    qed
  qed
  moreover have "wf_joins (taken h env rcv)" using wj wf by (auto simp: wf_joins_def taken_def)
  moreover have "safe c tr'" using safe_grows[OF sf, of "[Sent (changelog_message h ?cid ?st) a]"] g assms(5) by simp
  ultimately show "pod_ok own c (taken h env rcv) tr'" using c assms(6) by (simp add: pod_ok_def)
qed

lemma pod_ok_dropped:
  assumes "pod_ok own c h tr" "resolved c cid tr"
  shows "pod_ok own c (h\<lparr>joins := fmdrop cid (joins h)\<rparr>) tr"
  using assms by (fastforce simp: pod_ok_def ahead_def wf_joins_def)

lemma pod_ok_buried:
  assumes "pod_ok own c h tr" "resolved c cid tr"
    and "tr' = tr @ [Sent \<lparr>pm_topic = joinStateTopic c, pm_key = cid, pm_value = None\<rparr> a]"
  shows "pod_ok own c h tr'" "grows c tr tr'" "spares others c tr tr'"
proof -
  have c: "cfg h = c" using assms(1) by (simp add: pod_ok_def)
  have mono: "resolved c k tr \<Longrightarrow> resolved c k tr'" for k unfolding assms(3) by (rule resolved_mono)
  have same: "has_source c k s tr' = has_source c k s tr" if "k \<noteq> cid" for k s
    unfolding assms(3) has_source_def log_of_buried[OF that c] by (rule refl)
  show g: "grows c tr tr'"
    unfolding grows_def secured_def using mono same assms(2,3) by metis
  show "spares others c tr tr'"
    using assms(2) mono same unfolding spares_def by metis
  have "ahead own c h tr'"
    using assms(1,2) mono same unfolding pod_ok_def ahead_def by metis
  moreover have "safe c tr'"
    using safe_grows[of c tr "[Sent \<lparr>pm_topic = joinStateTopic c, pm_key = cid, pm_value = None\<rparr> a]"]
      g assms(1,3) by (simp add: pod_ok_def)
  ultimately show "pod_ok own c h tr'" using assms(1) by (simp add: pod_ok_def)
qed

lemma asked_called: "list_all is_called es \<Longrightarrow> list_all asked es"
  by (auto simp: list_all_iff asked_def)

lemma asked_steps:
  "chat svc c ms ts tr = (x, tr') \<Longrightarrow> \<exists>es. tr' = tr @ es \<and> list_all asked es"
  "callToolForAgent svc h tc tr = (out, tr') \<Longrightarrow> \<exists>es. tr' = tr @ es \<and> list_all asked es"
  by (auto simp: asked_def dest!: chat_trace)
    (auto dest!: callToolForAgent_adds asked_called simp: adds_def)

lemma pod_ok_asked:
  assumes "pod_ok own c h tr" "\<exists>es. tr' = tr @ es \<and> list_all asked es"
  shows "pod_ok own c h tr' \<and> grows c tr tr' \<and> spares (- own) c tr tr'"
  using assms pod_ok_quiet quiet_asked not_marked_asked by metis

lemma publishing_done: "publishing c tr w [] payload \<Longrightarrow> resolved c (work_cid w) tr"
  by (auto simp: publishing_def resolved_def)

lemma publishing_next:
  "publishing c tr w (t # ts) payload \<Longrightarrow>
     publishing c (tr @ [Sent \<lparr>pm_topic = t, pm_key = work_cid w, pm_value = Some payload\<rparr> Acked]) w ts payload"
  by (auto simp: publishing_def)

definition step_ok :: "string set \<Rightarrow> config \<Rightarrow> trace \<Rightarrow> claim \<times> agentHandler \<times> trace \<Rightarrow> bool" where
  "step_ok own c tr s \<longleftrightarrow>
     (case s of (cl', h', tr') \<Rightarrow> pod_ok own c h' tr' \<and> claim_ok own c tr' cl' \<and> grows c tr tr'
        \<and> spares (- own) c tr tr')"

lemma step_asked:
  assumes "pod_ok own c h tr" "\<exists>es. tr' = tr @ es \<and> list_all asked es" "claim_ok own c tr' cl"
  shows "step_ok own c tr (cl, h, tr')"
  using pod_ok_asked[OF assms(1,2)] assms(3) by (simp add: step_ok_def)

lemma step_still: "pod_ok own c h tr \<Longrightarrow> claim_ok own c tr cl \<Longrightarrow> step_ok own c tr (cl, h, tr)"
  by (simp add: step_ok_def)

lemma step_joining:
  assumes "pod_ok own c h tr" "wired c" "claim_ok own c tr (Joining msg env)"
  shows "step_ok own c tr (claim_step svc h (Joining msg env) tr)"
proof -
  have c: "cfg h = c" using assms(1) by (simp add: pod_ok_def)
  have env: "valid_utf8 (source env)" "wf_map (data env)" "read_as msg env"
    using assms(3) by simp_all
  have ab: "about c \<lparr>work_msg = msg, work_cid = correlationID env, work_data = m\<rparr>" for m
    using env(3) by (auto simp: about_def)
  show ?thesis
  proof (cases "joining c")
    case False
    then have "claim_step svc h (Joining msg env) tr
        = (Joined \<lparr>work_msg = msg, work_cid = correlationID env, work_data = data env\<rparr> True, h, tr)"
      by (simp add: join_straight isFanIn_joining c)
    with assms(1) ab False show ?thesis by (simp add: step_still)
  next
    case True
    obtain r h' tr' where j: "join svc h env tr = (r, h', tr')" by (cases "join svc h env tr")
    from True have "isFanIn h" by (simp add: isFanIn_joining c)
    from this j show ?thesis
    proof (cases rule: join_written)
      case panic
      with j assms(1) show ?thesis by (simp add: step_still)
    next
      case (written rcv a)
      from True assms(3) have "correlationID env \<in> own" by simp
      note w = pod_ok_written[OF assms(1) written(1) env(1,2) written(3) True this]
      have cov: "covered c tr' \<lparr>work_msg = msg, work_cid = correlationID env, work_data = m\<rparr>"
        if "a = Acked" for m
        using env(3) w(4)[OF that] True by (auto simp: covered_def secured_def)
      from written(4) show ?thesis
        using w(1-3) cov ab j True by (auto simp: step_ok_def written(2))
    qed
  qed
qed

lemma step_publishing:
  assumes "pod_ok own c h tr" "wired c" "claim_ok own c tr (Publishing w (t # ts) payload)"
  shows "step_ok own c tr (claim_step svc h (Publishing w (t # ts) payload) tr)"
proof -
  let ?m = "\<lparr>pm_topic = t, pm_key = work_cid w, pm_value = Some payload\<rparr>"
  have q: "quiet (joinStateTopic c) [Sent ?m a]" for a
    using assms(2,3) by (auto simp: quiet_def wired_def publishing_def)
  note s = pod_ok_quiet[OF assms(1) q]
  show ?thesis
    using assms(3) s publishing_next[of c tr w t ts payload]
    by (cases "answer_send svc tr ?m") (auto simp: send_message_def Let_def step_ok_def)
qed

lemma step_marks:
  assumes "pod_ok own c h tr" "claim_ok own c tr cl" "read_as msg e" "secured c (correlationID e) (source e) tr"
  shows "step_ok own c tr (cl, h, mark_message msg tr)"
  using pod_ok_mark[OF assms(1,3,4)] claim_ok_grows[OF assms(2)] by (simp add: step_ok_def mark_message_def)

text \<open>One step of one claim.\<close>

lemma invariant_step:
  assumes "pod_ok own c h tr" "wired c" "claim_ok own c tr cl"
  shows "step_ok own c tr (claim_step svc h cl tr)"
proof (cases "(svc, h, cl, tr)" rule: claim_step.cases)
  case (2 svc h msg tr)
  with assms message_wf[of msg] show ?thesis by (auto simp: step_still given_def)
next
  case (3 svc h msg env tr)
  with step_joining assms show ?thesis by auto
next
  case (4 svc h w ready tr)
  with assms have c: "cfg h = c" by (simp add: pod_ok_def)
  show ?thesis
  proof (cases "joining c")
    case True
    with assms 4 show ?thesis
      by (auto simp: isFanIn_joining c covered_def intro!: step_marks)
  next
    case False
    with assms 4 show ?thesis by (auto simp: isFanIn_joining c intro!: step_still)
  qed
next
  case (5 svc h w tr)
  with assms show ?thesis by (auto simp: incomplete_def intro!: step_still split: option.split)
next
  case (7 svc h w n ms tr)
  then have c: "cfg h = c" using assms by (simp add: pod_ok_def)
  show ?thesis
  proof (cases "llm h")
    case None
    with 7 assms show ?thesis by (auto simp: incomplete_def intro!: step_still)
  next
    case (Some k)
    obtain x tr' where x: "chat svc k ms (toolSpecs h) tr = (x, tr')" by fastforce
    note a = asked_steps(1)[OF x]
    from pod_ok_asked[OF _ a] 7 assms Some x c show ?thesis
      by (auto simp: step_ok_def incomplete_def publishing_def result_payload_def split: sum.split)
  qed
next
  case (9 svc h w n ms tc tcs tr)
  obtain out tr' where o: "callToolForAgent svc h tc tr = (out, tr')" by fastforce
  from step_asked[OF _ asked_steps(2)[OF o]] 9 assms o show ?thesis by auto
next
  case (10 svc h w payload tr)
  with assms publishing_done[of c tr w payload] show ?thesis by (auto intro!: step_still)
next
  case (11 svc h w t ts payload tr)
  with step_publishing assms show ?thesis by auto
next
  case (12 svc h w tr)
  with assms pod_ok_dropped[of own c h tr "work_cid w"] show ?thesis by (auto simp: step_ok_def)
next
  case (13 svc h w tr)
  with assms have c: "cfg h = c" by (simp add: pod_ok_def)
  let ?m = "\<lparr>pm_topic = joinStateTopic c, pm_key = work_cid w, pm_value = None\<rparr>"
  have r: "resolved c (work_cid w) tr" "about c w" using 13 assms by simp_all
  note b = pod_ok_buried[where own = own and h = h and a = "answer_send svc tr ?m",
      OF _ r(1) refl]
  from b grows_resolved[OF b(2) r(1)] assms 13 r show ?thesis
    by (simp add: step_ok_def tombstoneJoinState_def send_message_def Let_def c)
next
  case (14 svc h w tr)
  with assms have c: "cfg h = c" by (simp add: pod_ok_def)
  show ?thesis
  proof (cases "joining c")
    case False
    then obtain e where "read_as (work_msg w) e" "secured c (correlationID e) (source e) tr"
      using 14 assms by (fastforce simp: secured_def about_def)
    with False assms 14 show ?thesis by (auto simp: isFanIn_joining c intro!: step_marks)
  qed (use assms 14 in \<open>auto simp: isFanIn_joining c intro!: step_still\<close>)
qed (use assms in \<open>auto simp: incomplete_def intro!: step_still\<close>)

subsection \<open>Any interleaving\<close>

definition pod_inv :: "string set \<Rightarrow> config \<Rightarrow> pod \<times> trace \<Rightarrow> bool" where
  "pod_inv own c s \<longleftrightarrow>
     (case s of (p, tr) \<Rightarrow> pod_ok own c (handler p) tr \<and> (\<forall>i. claim_ok own c tr (claims p i)))"

lemma pod_inv_new: "pod_ok own c h tr \<Longrightarrow> pod_inv own c (new_pod h, tr)"
  by (simp add: pod_inv_def new_pod_def)

lemma pod_inv_take:
  "pod_inv own c (p, tr) \<Longrightarrow> valid_utf8 (cm_value msg) \<Longrightarrow> given own c msg
     \<Longrightarrow> pod_inv own c (p\<lparr>claims := (claims p)(i := Taken msg)\<rparr>, tr)"
  by (simp add: pod_inv_def)

lemma pod_inv_work:
  assumes "claim_step svc (handler p) (claims p i) tr = (cl, h', tr')" "wired c" "pod_inv own c (p, tr)"
  shows "pod_inv own c (\<lparr>handler = h', claims = (claims p)(i := cl)\<rparr>, tr') \<and> grows c tr tr'
    \<and> spares (- own) c tr tr'"
proof -
  have inv: "pod_ok own c (handler p) tr" "\<And>j. claim_ok own c tr (claims p j)"
    using assms(3) by (simp_all add: pod_inv_def)
  have "step_ok own c tr (cl, h', tr')"
    using invariant_step[OF inv(1) assms(2) inv(2)[of i], of svc] assms(1) by simp
  then have o: "pod_ok own c h' tr'" "claim_ok own c tr' cl" "grows c tr tr'" "spares (- own) c tr tr'"
    by (simp_all add: step_ok_def)
  with claim_ok_grows[OF inv(2) o(3)] show ?thesis by (simp add: pod_inv_def)
qed

lemma pod_inv_step:
  assumes "pod_step svc s s'" "wired c" "pod_inv UNIV c s"
  shows "pod_inv UNIV c s'"
  using assms(1)
proof cases
  case (take_message p i msg tr)
  with pod_inv_take assms(3) show ?thesis by simp
next
  case (work_on p i tr cl h' tr')
  with pod_inv_work assms(2,3) show ?thesis by simp
qed

lemma pod_invariant:
  assumes "pod_steps svc s s'" "wired c" "pod_inv UNIV c s"
  shows "pod_inv UNIV c s'"
  using assms(1)
proof (induction rule: rtranclp_induct)
  case base
  show ?case by (rule assms(3))
next
  case (step s1 s2)
  from pod_inv_step[OF step(2) assms(2) step(3)] show ?case .
qed

subsection \<open>Any number of lives\<close>

text \<open>
  A pod starts (\<open>runner_main\<close> up to its first claim: hydration and recovery, in one goroutine)
  and then runs its claims. It can end at any moment of either.
\<close>

inductive alive :: "(string \<Rightarrow> string) \<Rightarrow> trace \<Rightarrow> bool" for getenv where
  unborn: "alive getenv []"
| starting: "alive getenv tr \<Longrightarrow> faithful su (loadConfig getenv) tr
    \<Longrightarrow> runner_main svc su getenv [] tr = Some (r, tr @ es @ lost)
    \<Longrightarrow> alive getenv (tr @ es)"
| running: "alive getenv tr \<Longrightarrow> faithful su (loadConfig getenv) tr
    \<Longrightarrow> runner_main svc su getenv [] tr = Some (Ret h, tr1)
    \<Longrightarrow> pod_steps svc (new_pod h, tr1) (p, tr2)
    \<Longrightarrow> alive getenv tr2"

lemma main_cases:
  assumes "runner_main svc su getenv [] tr = Some (r, tr')" "c = loadConfig getenv"
  obtains (stopped) f where "r = Fatal f" "tr' = tr"
    | (recovered) js r1 h where "hydrateJoinState (kafka su) (joinStateTopic c) = Hydrated js"
        "h = new_handler svc su c js tr"
        "recover_joins svc h (visit svc tr (fmdom js)) tr = (r1, tr')"
        "\<And>h1. r = Ret h1 \<Longrightarrow> r1 = Ret h1"
proof (cases "producer_error su")
  case (Some e)
  with assms stopped show ?thesis by (auto simp: runner_main_def Let_def)
next
  case None
  show ?thesis
  proof (cases "hydrateJoinState (kafka su) (joinStateTopic c)")
    case (Hydrated js)
    obtain r1 tr1 where k: "recover_joins svc (new_handler svc su c js tr) (visit svc tr (fmdom js)) tr = (r1, tr1)"
      by fastforce
    have "tr1 = tr'" "\<And>h1. r = Ret h1 \<Longrightarrow> r1 = Ret h1"
      using assms None Hydrated k
      by (auto simp: runner_main_def Let_def split: outcome.splits option.splits)
    with recovered[OF Hydrated refl] k show ?thesis by blast
  qed (use assms None stopped in \<open>auto simp: runner_main_def Let_def\<close>)
qed

lemma safe_kept: "joining c \<Longrightarrow> safe c = kept c"
  by (intro ext) (auto simp: safe_def kept_def secured_def)

lemma agrees_pod_ok:
  assumes "agrees c h tr" "safe c tr" "joining c"
  shows "pod_ok own c h tr"
proof -
  have "ahead own c h tr"
    unfolding ahead_def
  proof (intro allI impI ballI)
    fix cid s
    assume h: "has_source c cid s tr"
    show "resolved c cid tr
        \<or> (\<exists>st. fmlookup (joins h) cid = Some st \<and> fmlookup (entries (received st)) s \<noteq> None)"
    proof (cases "fmlookup (joins h) cid")
      case None
      with agreesD[OF assms(1) None] h show ?thesis by (auto simp: has_source_def)
    next
      case (Some st)
      with assms(1) log_of_cfg[of h tr] have "fmlookup (log_of c tr) cid = Some st"
        by (auto simp: agrees_def synced_iff)
      with h Some show ?thesis by (auto simp: has_source_def)
    qed
  qed
  with assms show ?thesis by (auto simp: pod_ok_def agrees_def wf_joins_def synced_iff)
qed

lemma recover_nothing: "joins h = fmempty \<Longrightarrow> recover_joins svc h cids tr = (Ret h, tr)"
  by (induction cids) auto

lemma life_start:
  assumes "runner_main svc su getenv [] tr = Some (r, tr')" "c = loadConfig getenv"
    and "faithful su c tr" "safe c tr" "wired c"
  shows "always (safe c) tr tr' \<and> (\<forall>h. r = Ret h \<longrightarrow> pod_ok own c h tr')"
  using assms(1,2)
proof (cases rule: main_cases)
  case (stopped f)
  with always_refl[of "safe c", OF assms(4)] show ?thesis by simp
next
  case (recovered js r1 h)
  have js: "js = log_of c tr" using assms(3) recovered(1) by (simp add: faithful_def)
  show ?thesis
  proof (cases "joining c")
    case True
    have ag: "agrees c h tr"
      using synced_hydrated[of h tr] js log_of_cfg[of h tr] by (simp add: agrees_def new_handler_def recovered(2))
    have fi: "fan_in_node c" using assms(5) True by (simp add: fan_in_node_def wired_def)
    have k: "kept c tr" using assms(4) by (simp add: safe_kept[OF True])
    from life_recover[OF recovered(3) ag k fi] recovered(4)
    have a: "always (safe c) tr tr'" "\<And>h1. r = Ret h1 \<Longrightarrow> agrees c h1 tr'"
      by (auto simp: safe_kept[OF True])
    have "pod_ok own c h1 tr'" if "r = Ret h1" for h1
      by (rule agrees_pod_ok[OF a(2)[OF that] always_last[OF a(1)] True])
    with a(1) show ?thesis by simp
  next
    case False
    then have "joinStateTopic c = []" using assms(5) by (simp add: wired_def)
    then have e: "js = fmempty" using recovered(1) by (simp add: hydrateJoinState_def)
    have "joins h = fmempty" by (simp add: recovered(2) new_handler_def e)
    from recover_nothing[OF this] recovered(3) have r: "r1 = Ret h" "tr' = tr" by auto
    have "pod_ok own c h tr"
      using assms(4) js e
      by (simp add: pod_ok_def recovered(2) new_handler_def wf_joins_def ahead_def has_source_def)
    with r recovered(4) always_refl[of "safe c", OF assms(4)] show ?thesis by auto
  qed
qed

theorem alive_safe:
  assumes "alive getenv tr" "c = loadConfig getenv" "wired c"
  shows "safe c tr"
  using assms(1)
proof (induction rule: alive.induct)
  case unborn
  then show ?case by simp
next
  case (starting tr su svc r es lost)
  have "always (safe c) tr (tr @ es @ lost)"
    using life_start[OF starting(3) assms(2) _ starting.IH assms(3)] starting(2) assms(2) by blast
  then show ?case by (rule always_prefix) (rule refl)
next
  case (running tr su svc h tr1 p tr2)
  have "pod_ok UNIV c h tr1"
    using life_start[OF running(3) assms(2) _ running.IH assms(3)] running(2) assms(2) by blast
  from pod_invariant[OF running(4) assms(3) pod_inv_new[OF this]]
  show ?case by (simp add: pod_inv_def pod_ok_def)
qed

end
