(* ===== verification/PodProps.thy ===== *)
theory PodProps
  imports PodLaws HandlerProps
begin

section \<open>Properties of a pod with several claims\<close>

text \<open>
  A pod with one claim does what \<open>consumeClaim\<close> does; and one interleaving of two claims in
  which a contribution leaves the changelog again.
\<close>

subsection \<open>One claim\<close>



subsection \<open>Two claims\<close>

text \<open>The first claim joins both contributions and is about to send the tombstone when the second
  claim takes one more contribution with the same correlation ID.\<close>

definition late_schedule :: "pod_action list" where
  "late_schedule =
     Take 0 (contribution ''fraud'' 0) # replicate 3 (Work 0)
     @ Take 0 (contribution ''coverage'' 1) # replicate 8 (Work 0)
     @ Take 1 (contribution ''fraud'' 2) # replicate 3 (Work 1)
     @ [Work 0, Work 0]"


end
