(* ===== verification/Results.thy ===== *)
theory Results
  imports PodLaws
begin

section \<open>What a node's results are made of, and how much work a message is\<close>

text \<open>
  Well-formed values stay well-formed: the texts of a decoded reply (\<open>chatResponse_wf\<close>), the
  result of the agent loop (\<open>agentLoop_wf\<close>), the merged contributions (\<open>merge_wf\<close>), and so
  every envelope a node publishes (\<open>consume_outputs\<close>). Then the number of external actions
  per message (\<open>consume_bounds\<close>).
\<close>

subsection \<open>Replies\<close>

lemma read_struct_inv:
  assumes "read_struct f s a = Some t" "wf_ast a" "P s"
    and "\<And>s k a s'. valid_utf8 k \<Longrightarrow> wf_ast a \<Longrightarrow> P s \<Longrightarrow> f s k a = Some s' \<Longrightarrow> P s'"
  shows "P t"
proof (cases a)
  case (AObj kvs)
  with assms(1) have r: "read_members f s kvs = Some t" by (simp add: read_struct_def)
  show ?thesis
    by (rule read_members_inv[where P = P, OF r assms(3)]) (use assms(2,4) AObj in fastforce)
qed (use assms in \<open>auto simp: read_struct_def\<close>)

lemma read_elems_inv:
  assumes "read_elems f zero old as = Some vs" "\<forall>a \<in> set as. wf_ast a" "P zero" "\<forall>x \<in> set old. P x"
    and "\<And>s a t. wf_ast a \<Longrightarrow> P s \<Longrightarrow> f s a = Some t \<Longrightarrow> P t"
  shows "\<forall>v \<in> set vs. P v"
  using assms
proof (induction f zero old as arbitrary: vs rule: read_elems.induct)
  case (2 f zero old a as)
  let ?x = "case old of [] \<Rightarrow> zero | x # _ \<Rightarrow> x"
  have p: "P ?x" "\<forall>x \<in> set (tl old). P x"
    using 2(4,5) by (cases old; simp)+
  from 2(2) obtain v us where v: "f ?x a = Some v" "read_elems f zero (tl old) as = Some us" "vs = v # us"
    by (auto split: option.splits)
  have "P v" by (rule 2(6)[OF _ p(1) v(1)]) (use 2(3) in simp)
  moreover have "\<forall>u \<in> set us. P u"
    by (rule 2(1)[OF v(1) v(2) _ 2(4) p(2) 2(6)]) (use 2(3) in simp_all)
  ultimately show ?case by (simp add: v(3))
qed simp

lemma read_slice_inv:
  assumes "read_slice f zero old a = Some vs" "wf_ast a" "P zero" "\<forall>x \<in> set old. P x"
    and "\<And>s a t. wf_ast a \<Longrightarrow> P s \<Longrightarrow> f s a = Some t \<Longrightarrow> P t"
  shows "\<forall>v \<in> set vs. P v"
proof (cases a)
  case (AArr as)
  with assms(1,2) have "read_elems f zero old as = Some vs" "\<forall>a \<in> set as. wf_ast a"
    by (simp_all add: read_slice_def)
  from read_elems_inv[where P = P, OF this assms(3-5)] show ?thesis .
qed (use assms(1) in \<open>auto simp: read_slice_def\<close>)

definition wf_toolCall :: "toolCall \<Rightarrow> bool" where
  "wf_toolCall tc \<longleftrightarrow> valid_utf8 (tc_id tc) \<and> valid_utf8 (tc_type tc)
     \<and> valid_utf8 (fn_name (tc_function tc)) \<and> valid_utf8 (fn_arguments (tc_function tc))"

definition wf_message :: "chatMessage \<Rightarrow> bool" where
  "wf_message m \<longleftrightarrow> valid_utf8 (role m) \<and> valid_utf8 (content m)
     \<and> (\<forall>tc \<in> set (toolCalls m). wf_toolCall tc) \<and> valid_utf8 (toolCallID m)"

lemma wf_zero [simp]: "wf_toolCall zero_toolCall" "wf_message zero_chatMessage"
  by (simp_all add: wf_toolCall_def wf_message_def zero_toolCall_def zero_chatMessage_def)

lemma read_function_wf:
  assumes "read_struct read_function_field f a = Some g" "wf_ast a"
    and "valid_utf8 (fn_name f) \<and> valid_utf8 (fn_arguments f)"
  shows "valid_utf8 (fn_name g) \<and> valid_utf8 (fn_arguments g)"
proof (rule read_struct_inv[where P = "\<lambda>f. valid_utf8 (fn_name f) \<and> valid_utf8 (fn_arguments f)", OF assms])
  fix s s' k b
  assume "wf_ast b" "valid_utf8 (fn_name s) \<and> valid_utf8 (fn_arguments s)" "read_function_field s k b = Some s'"
  then show "valid_utf8 (fn_name s') \<and> valid_utf8 (fn_arguments s')"
    by (fastforce simp: read_function_field_def dest: read_string_valid split: if_splits)
qed

lemma read_toolCall_wf:
  assumes "read_struct read_toolCall_field t a = Some u" "wf_ast a" "wf_toolCall t"
  shows "wf_toolCall u"
proof (rule read_struct_inv[where P = wf_toolCall, OF assms])
  fix s s' k b
  assume "wf_ast b" "wf_toolCall s" "read_toolCall_field s k b = Some s'"
  then show "wf_toolCall s'"
    by (fastforce simp: read_toolCall_field_def wf_toolCall_def dest: read_string_valid read_function_wf
        split: if_splits)
qed

lemma read_message_wf:
  assumes "read_struct read_chatMessage_field m a = Some n" "wf_ast a" "wf_message m"
  shows "wf_message n"
proof (rule read_struct_inv[where P = wf_message, OF assms])
  fix s s' k b
  assume w: "wf_ast b" "wf_message s" and r: "read_chatMessage_field s k b = Some s'"
  have ts: "\<forall>tc \<in> set ts. wf_toolCall tc"
    if "read_slice (read_struct read_toolCall_field) zero_toolCall (toolCalls s) b = Some ts" for ts
    by (rule read_slice_inv[OF that w(1)]) (use w(2) read_toolCall_wf in \<open>auto simp: wf_message_def\<close>)
  with w r show "wf_message s'"
    by (fastforce simp: read_chatMessage_field_def wf_message_def dest: read_string_valid split: if_splits)
qed

lemma read_choice_wf:
  assumes "read_struct read_choice_field m a = Some n" "wf_ast a" "wf_message m"
  shows "wf_message n"
  by (rule read_struct_inv[where P = wf_message, OF assms])
    (auto simp: read_choice_field_def split: if_splits intro: read_message_wf)

lemma chatResponse_wf:
  assumes "unmarshal_chatResponse s = Some r"
  shows "\<forall>m \<in> set (choices r). wf_message m"
proof -
  from assms obtain a where a: "parse s = Some a"
    "read_struct read_chatResponse_field \<lparr>choices = [], resp_error = None\<rparr> a = Some r"
    by (auto simp: unmarshal_chatResponse_def split: option.splits)
  show ?thesis
  proof (rule read_struct_inv[where P = "\<lambda>r. \<forall>m \<in> set (choices r). wf_message m", OF a(2) parse_wf[OF a(1)]])
    fix s s' k b
    assume w: "wf_ast b" "\<forall>m \<in> set (choices s). wf_message m" and r: "read_chatResponse_field s k b = Some s'"
    have "\<forall>m \<in> set cs. wf_message m"
      if "read_slice (read_struct read_choice_field) zero_chatMessage (choices s) b = Some cs" for cs
      by (rule read_slice_inv[OF that w(1)]) (use w(2) read_choice_wf in auto)
    with w r show "\<forall>m \<in> set (choices s'). wf_message m"
      by (auto simp: read_chatResponse_field_def split: if_splits)
  qed simp
qed

subsection \<open>Results\<close>

lemma extract_wf: "extractJSONObject text = Some d \<Longrightarrow> wf_map d"
  by (auto simp: extractJSONObject_def tryUnmarshalObject_def split: option.splits bind_splits
      dest: unmarshal_map_wf)

lemma valid_result: "valid_utf8 ''result''" "valid_utf8 ''raw''"
  by code_simp+

lemma mergeFinalAnswer_wf: "wf_map d \<Longrightarrow> valid_utf8 text \<Longrightarrow> wf_object (mergeFinalAnswer d text)"
  by (auto simp: mergeFinalAnswer_def Let_def valid_result split: option.splits dest: extract_wf
      intro!: wf_object_add wf_object_upd wf_entries)

lemma agentLoop_wf:
  assumes "agentLoop svc h d tr = (Some out, tr')" "wf_map d"
  shows "wf_object out"
proof -
  from agentLoop_result[OF assms(1)] obtain m where m: "final_reply (last tr') m"
    "out = mergeFinalAnswer d (content m)" by blast
  then have "wf_message m" using chatResponse_wf by (fastforce simp: final_reply_def)
  then show ?thesis using mergeFinalAnswer_wf[OF assms(2)] m(2) by (simp add: wf_message_def)
qed

lemma add_missing_wf: "wf_object d \<Longrightarrow> wf_object m \<Longrightarrow> wf_object (add_missing ks d m)"
proof (induction ks d m rule: add_missing.induct)
  case (2 k ks d m)
  have "valid_utf8 k \<and> wf_json v" if "fmlookup d k = Some v" for v
    using 2(2) that by (auto simp: wf_object_def fmpred_iff)
  with 2 show ?case by (auto split: option.split simp: wf_object_upd)
qed simp

lemma merge_sources_wf: "wf_received rcv \<Longrightarrow> wf_object m \<Longrightarrow> wf_object (merge_sources ord ss rcv m)"
proof (induction ord ss rcv m rule: merge_sources.induct)
  case (2 ord s ss rcv m)
  have "valid_utf8 s \<and> wf_map d" if "fmlookup rcv s = Some d" for d
    using 2(3) that by (auto simp: wf_received_def fmpred_iff)
  with 2 show ?case
    by (auto split: option.split intro!: add_missing_wf wf_object_upd wf_entries wf_any_of_map)
qed simp

lemma merge_wf: "wf_joinState st \<Longrightarrow> wf_object (mergeJoinedData ord st)"
  unfolding mergeJoinedData_def Let_def
  by (rule merge_sources_wf) (auto simp: wf_joinState_def wf_received_def split: option.splits)

subsection \<open>What a node publishes\<close>

definition result_message :: "agentHandler \<Rightarrow> string \<Rightarrow> producer_message \<Rightarrow> bool" where
  "result_message h cid m \<longleftrightarrow> (\<exists>out. wf_object out \<and> m = output_message h cid out (pm_topic m))"

lemma published_results:
  "wf_object out \<Longrightarrow> Sent m a \<in> set (published h cid out) \<Longrightarrow> result_message h cid m"
  "wf_object out \<Longrightarrow> published_partly h cid out err es \<Longrightarrow> Sent m a \<in> set es \<Longrightarrow> result_message h cid m"
  unfolding result_message_def
  by (rule exI[of _ out], force simp: published_def published_partly_def output_message_def)+

lemma asked_sends: "list_all asked es \<Longrightarrow> Sent m a \<notin> set es"
  using asked_not[of "Sent m a"] by (auto simp: list_all_iff)

lemma complete_outputs:
  assumes "completeCorrelation svc h cid d tr = (r, tr')" "wf_map d"
  shows "\<exists>es. tr' = tr @ es
    \<and> (\<forall>m a. Sent m a \<in> set es \<longrightarrow> pm_topic m \<noteq> joinStateTopic (cfg h) \<longrightarrow> result_message h cid m)"
proof -
  obtain l tr1 where l: "agentLoop svc h d tr = (l, tr1)" by fastforce
  then obtain es where es: "tr1 = tr @ es" "list_all asked es"
    using agentLoop_adds[OF l] by (auto simp: adds_def)
  show ?thesis
  proof (cases l)
    case None
    with assms(1) l es asked_sends[OF es(2)] show ?thesis by (auto simp: completeCorrelation_def)
  next
    case (Some out)
    have wf: "wf_object out" by (rule agentLoop_wf[OF l[unfolded Some] assms(2)])
    obtain p tr2 where p: "publish svc h cid out tr1 = (p, tr2)" by fastforce
    obtain ps where ps: "tr2 = tr1 @ ps" "\<And>m a. Sent m a \<in> set ps \<Longrightarrow> result_message h cid m"
    proof -
      from publish_trace[OF p] show ?thesis
      proof
        assume "p = None \<and> tr2 = tr1 @ published h cid out"
        with that published_results(1)[OF wf] show ?thesis by blast
      next
        assume "\<exists>err es. p = Some err \<and> tr2 = tr1 @ es \<and> published_partly h cid out err es"
        then obtain err es where "tr2 = tr1 @ es" "published_partly h cid out err es" by blast
        with that published_results(2)[OF wf] show ?thesis by blast
      qed
    qed
    have "\<exists>bs. tr' = tr2 @ bs \<and> (\<forall>m a. Sent m a \<in> set bs \<longrightarrow> pm_topic m = joinStateTopic (cfg h))"
    proof (cases "p = None \<and> joinStateTopic (cfg h) \<noteq> []")
      case True
      with assms(1) l Some p show ?thesis
        by (simp add: completeCorrelation_def tombstoneJoinState_def send_message_def Let_def) auto
    next
      case False
      with assms(1) l Some p have "tr' = tr2" by (auto simp: completeCorrelation_def split: option.splits)
      then show ?thesis by simp
    qed
    then obtain bs where "tr' = tr2 @ bs" "\<And>m a. Sent m a \<in> set bs \<Longrightarrow> pm_topic m = joinStateTopic (cfg h)"
      by blast
    then show ?thesis
      using es ps asked_sends[OF es(2)] by (intro exI[of _ "es @ ps @ bs"]) auto
  qed
qed

text \<open>The correlation ID a message is given is UTF-8.\<close>

lemma hex_valid: "valid_utf8 (hex_encode buf)"
proof (rule valid_ascii)
  have d: "\<not> digit7 (hex_digit a b c d)" for a b c d
    by (cases a; cases b; cases c; cases d) (simp_all add: hex_digit_def)
  have "\<forall>c \<in> set (hex_byte b). \<not> digit7 c" for b
    by (cases b) (simp add: d)
  then show "\<forall>c \<in> set (hex_encode buf). \<not> digit7 c"
    by (auto simp: hex_encode_def)
qed

lemma first_string_valid: "first_string d ks = Some s \<Longrightarrow> wf_map d \<Longrightarrow> valid_utf8 s"
proof (induction ks)
  case (Cons k ks)
  have "valid_utf8 s" if "string_at d k = Some s"
    using that wf_entries[OF Cons.prems(2)]
    by (auto simp: string_at_def wf_object_def fmpred_iff split: option.splits json.splits if_splits)
      (metis wf_json.simps(4))
  with Cons show ?case by (auto split: option.splits)
qed simp

lemma newCorrelationID_valid: "wf_map d \<Longrightarrow> valid_utf8 (newCorrelationID ord buf d)"
  unfolding newCorrelationID_def using first_string_valid hex_valid
  by (simp split: option.split del: first_string.simps)

lemma message_cid:
  assumes "valid_utf8 (cm_value msg)"
  shows "valid_utf8 (correlationID (message_envelope svc msg tr))"
proof -
  let ?d = "case unmarshal_map (cm_value msg) of Some d \<Rightarrow> d | None \<Rightarrow> Some (fmupd ''raw'' (JStr (cm_value msg)) fmempty)"
  have w: "wf_map ?d" using assms by (auto simp: valid_result split: option.split dest: unmarshal_map_wf intro!: wf_object_upd)
  from newCorrelationID_valid[OF w] show ?thesis
    by (auto simp: message_envelope_def parseOrWrapEnvelope_def Let_def wf_envelope_def
        split: option.split dest: unmarshal_envelope_wf)
qed

text \<open>No message gets an empty correlation ID: the random one has eight bytes.\<close>

lemma first_string_nonempty: "first_string d ks = Some s \<Longrightarrow> s \<noteq> []"
  by (induction ks) (auto simp: string_at_def split: option.splits json.splits if_splits)

lemma message_cid_nonempty: "correlationID (message_envelope svc msg tr) \<noteq> []"
proof -
  have "hex_encode (random_buffer svc tr) \<noteq> []"
    by (cases "random_bytes svc tr 0") (simp add: random_buffer_def hex_encode_def upt_rec)
  then have "newCorrelationID ord (random_buffer svc tr) d \<noteq> []" for ord d
    using first_string_nonempty by (auto simp: newCorrelationID_def simp del: first_string.simps split: option.split)
  then show ?thesis
    by (auto simp: message_envelope_def parseOrWrapEnvelope_def Let_def split: option.split)
qed

lemma consume_outputs:
  assumes "consume_message svc h msg tr = (r, tr')" "valid_utf8 (cm_value msg)" "wf_joins h"
    and "env = message_envelope svc msg tr"
  shows "\<exists>es. tr' = tr @ es \<and> (\<forall>m a. Sent m a \<in> set es \<longrightarrow> pm_topic m \<noteq> joinStateTopic (cfg h)
    \<longrightarrow> result_message h (correlationID env) m)"
proof (cases "isFanIn h")
  case False
  obtain r1 tr1 where k: "completeCorrelation svc h (correlationID env) (data env) tr = (r1, tr1)" by fastforce
  have w: "wf_map (data env)" using message_wf[OF assms(2)] assms(4) by blast
  from complete_outputs[OF k w] show ?thesis
    using assms(1) k unfolding consume_straight[OF False] assms(4)[symmetric]
    by (cases r1) auto
next
  case True
  from True assms(1,4) show ?thesis
  proof (cases rule: consume_cases)
    case (ready rcv m)
    let ?h = "taken h env rcv"
    have w: "wf_joinState (with_contribution env rcv)"
      using wf_contribution[OF wf_known[OF assms(3)] ready(1)] message_wf[OF assms(2)] assms(4) by blast
    have "result_message ?h = result_message h"
      by (intro ext) (simp add: result_message_def output_message_def)
    moreover have "wf_map m" using merge_wf[OF w] ready(4) by simp
    note complete_outputs[OF ready(3) this]
    ultimately obtain es where es: "tr' = tr @ recorded_events h env rcv msg @ es"
      "\<And>m a. Sent m a \<in> set es \<Longrightarrow> pm_topic m \<noteq> joinStateTopic (cfg h) \<Longrightarrow> result_message h (correlationID env) m"
      by auto
    show ?thesis
      by (rule exI[of _ "recorded_events h env rcv msg @ es"])
        (use es in \<open>auto simp: recorded_events_def changelog_message_def\<close>)
  qed (auto simp: recorded_events_def changelog_message_def)
qed

subsection \<open>How much a message costs\<close>

fun is_sent :: "event \<Rightarrow> bool" where
  "is_sent (Sent m a) = True"
| "is_sent _ = False"

fun is_marked :: "event \<Rightarrow> bool" where
  "is_marked (Marked m) = True"
| "is_marked _ = False"

definition sends :: "trace \<Rightarrow> nat" where
  "sends tr = length (filter is_sent tr)"

definition marks :: "trace \<Rightarrow> nat" where
  "marks tr = length (filter is_marked tr)"

definition costs :: "trace \<Rightarrow> trace \<Rightarrow> nat \<Rightarrow> nat \<Rightarrow> nat \<Rightarrow> bool" where
  "costs tr tr' p s m \<longleftrightarrow> (\<exists>es. tr' = tr @ es \<and> posts es \<le> p \<and> sends es \<le> s \<and> marks es \<le> m)"

lemma counts [simp]:
  "sends [] = 0" "sends (a @ b) = sends a + sends b" "marks [] = 0" "marks (a @ b) = marks a + marks b"
  by (simp_all add: sends_def marks_def)

lemma counts_Cons:
  "sends (e # a) = (if is_sent e then 1 else 0) + sends a"
  "marks (e # a) = (if is_marked e then 1 else 0) + marks a"
  "posts (e # a) = (if is_posted e then 1 else 0) + posts a"
  by (simp_all add: sends_def marks_def posts_def)

lemma costs_trans:
  "costs a b p s m \<Longrightarrow> costs b c p' s' m' \<Longrightarrow> costs a c (p + p') (s + s') (m + m')"
  unfolding costs_def by (elim exE conjE, rule_tac x = "es @ esa" in exI) simp

lemma costs_mono: "costs a b p s m \<Longrightarrow> p \<le> p' \<Longrightarrow> s \<le> s' \<Longrightarrow> m \<le> m' \<Longrightarrow> costs a b p' s' m'"
  unfolding costs_def by (elim exE conjE, rule_tac x = es in exI) simp

lemma costs_refl: "costs a a p s m"
  by (simp add: costs_def posts_def)

lemma costs_events: "posts es \<le> p \<Longrightarrow> sends es \<le> s \<Longrightarrow> marks es \<le> m \<Longrightarrow> costs a (a @ es) p s m"
  by (auto simp: costs_def)

lemma asked_counts: "list_all asked es \<Longrightarrow> sends es = 0 \<and> marks es = 0"
proof (induction es)
  case (Cons e es)
  then have "\<not> is_sent e" "\<not> is_marked e" by (cases e; simp add: asked_def)+
  with Cons show ?case by (simp add: counts_Cons)
qed simp

lemma sent_counts:
  "list_all is_sent es \<Longrightarrow> sends es = length es \<and> marks es = 0 \<and> posts es = 0"
proof (induction es)
  case (Cons e es)
  then have "is_sent e" "\<not> is_marked e" "\<not> is_posted e" by (cases e; simp)+
  with Cons show ?case by (simp add: counts_Cons)
qed (simp add: posts_def)

lemma publish_cost:
  assumes "publish svc h cid out tr = (r, tr')"
  shows "costs tr tr' 0 (length (outputTopics (cfg h))) 0"
  using publish_trace[OF assms]
proof
  assume "r = None \<and> tr' = tr @ published h cid out"
  moreover have "list_all is_sent (published h cid out)" "length (published h cid out) = length (outputTopics (cfg h))"
    by (simp_all add: published_def list_all_iff)
  ultimately show ?thesis using sent_counts[of "published h cid out"] by (simp add: costs_events)
next
  assume "\<exists>err es. r = Some err \<and> tr' = tr @ es \<and> published_partly h cid out err es"
  then obtain err es where "tr' = tr @ es" "published_partly h cid out err es" by blast
  moreover from this(2) have "list_all is_sent es" "length es \<le> length (outputTopics (cfg h))"
    by (auto simp: published_partly_def list_all_iff)
  ultimately show ?thesis using sent_counts[of es] by (simp add: costs_events)
qed

lemma complete_cost:
  assumes "completeCorrelation svc h cid d tr = (r, tr')"
  shows "costs tr tr' maxAgentTurns (length (outputTopics (cfg h)) + 1) 0"
proof -
  obtain l tr1 where l: "agentLoop svc h d tr = (l, tr1)" by fastforce
  from agentLoop_posts[OF l] have c1: "costs tr tr1 maxAgentTurns 0 0"
    using asked_counts by (auto intro!: costs_events)
  show ?thesis
  proof (cases l)
    case None
    with assms l have "tr' = tr1" by (simp add: completeCorrelation_def)
    with c1 show ?thesis by (auto intro: costs_mono)
  next
    case (Some out)
    obtain p tr2 where p: "publish svc h cid out tr1 = (p, tr2)" by fastforce
    have "costs tr2 tr' 0 1 0"
    proof (cases "p = None \<and> joinStateTopic (cfg h) \<noteq> []")
      case True
      with assms l Some p obtain m a where "tr' = tr2 @ [Sent m a]"
        by (auto simp: completeCorrelation_def tombstoneJoinState_def send_message_def Let_def)
      then show ?thesis by (auto simp: counts_Cons intro!: costs_events)
    next
      case False
      with assms l Some p have "tr' = tr2" by (auto simp: completeCorrelation_def split: option.splits)
      then show ?thesis by (simp add: costs_refl)
    qed
    from costs_trans[OF costs_trans[OF c1 publish_cost[OF p]] this] show ?thesis by simp
  qed
qed

lemma consume_cost:
  assumes "consume_message svc h msg tr = (r, tr')"
  shows "costs tr tr' maxAgentTurns (length (outputTopics (cfg h)) + 2) 1"
proof (cases "isFanIn h")
  case False
  let ?env = "message_envelope svc msg tr"
  obtain r1 tr1 where k: "completeCorrelation svc h (correlationID ?env) (data ?env) tr = (r1, tr1)" by fastforce
  have "tr' = tr1 \<or> tr' = tr1 @ [Marked msg]"
    using assms k unfolding consume_straight[OF False] by (cases r1) auto
  then have "costs tr1 tr' 0 1 1" by (auto simp: counts_Cons intro!: costs_refl costs_events)
  from costs_trans[OF complete_cost[OF k] this] show ?thesis by (rule costs_mono) simp_all
next
  case True
  from True assms refl[of "message_envelope svc msg tr"] show ?thesis
  proof (cases rule: consume_cases)
    case (ready rcv m)
    have "costs tr (tr @ recorded_events h (message_envelope svc msg tr) rcv msg) 0 1 1"
      by (auto simp: recorded_events_def counts_Cons intro!: costs_events)
    from costs_trans[OF this complete_cost[OF ready(3)]] show ?thesis by (rule costs_mono) simp_all
  qed (auto simp: recorded_events_def counts_Cons intro!: costs_events costs_refl)
qed

lemma consume_cfg: "consume_message svc h msg tr = (Ret h', tr') \<Longrightarrow> cfg h' = cfg h"
proof (cases "isFanIn h")
  case False
  assume "consume_message svc h msg tr = (Ret h', tr')"
  then show ?thesis
    unfolding consume_straight[OF False] by (auto simp: completeCorrelation_def
      split: prod.splits outcome.splits option.splits if_splits)
next
  case True
  assume k: "consume_message svc h msg tr = (Ret h', tr')"
  from True k refl[of "message_envelope svc msg tr"] show ?thesis
  proof (cases rule: consume_cases)
    case (ready rcv m)
    from ready(3) show ?thesis by (cases rule: complete_cases) (auto simp: completed_joins_def taken_def)
  qed auto
qed

lemma claim_cost:
  "consumeClaim svc h msgs tr = (r, tr') \<Longrightarrow> k = length msgs \<Longrightarrow>
     costs tr tr' (k * maxAgentTurns) (k * (length (outputTopics (cfg h)) + 2)) k"
proof (induction msgs arbitrary: h tr k)
  case (Cons msg msgs)
  obtain r1 tr1 where c: "consume_message svc h msg tr = (r1, tr1)" by fastforce
  have "costs tr1 tr' (length msgs * maxAgentTurns) (length msgs * (length (outputTopics (cfg h)) + 2)) (length msgs)"
  proof (cases "\<exists>h1. r1 = Ret h1")
    case True
    then obtain h1 where h1: "r1 = Ret h1" by blast
    with Cons.prems(1) c have "consumeClaim svc h1 msgs tr1 = (r, tr')" by simp
    from Cons.IH[OF this refl] consume_cfg[OF c[unfolded h1]] show ?thesis by simp
  next
    case False
    with Cons.prems(1) c have "tr' = tr1" by (cases r1) auto
    then show ?thesis by (simp add: costs_refl)
  qed
  from costs_trans[OF consume_cost[OF c] this] Cons.prems(2) show ?case by (rule_tac costs_mono) auto
qed (simp add: costs_refl)

end
