(* ===== verification/Progress.thy ===== *)
theory Progress
  imports Results
begin

section \<open>Progress: what happens when the services cooperate\<close>

text \<open>
  \<open>cooperates\<close> is the environment in which work gets done: Kafka acknowledges what it is sent,
  and the agent gives a result for any data. Then a completion returns and resolves its
  correlation ID (\<open>complete_resolves\<close>), a claim returns and marks everything
  (\<open>claim_progress\<close>), a join is resolved once every dependency has contributed
  (\<open>claim_joins\<close>), and the start of a pod resolves every join that is complete in its
  changelog (\<open>recover_resolves\<close>).
\<close>

definition acknowledges :: "services \<Rightarrow> bool" where
  "acknowledges svc \<longleftrightarrow> (\<forall>tr m. answer_send svc tr m = Acked)"

definition answers :: "services \<Rightarrow> agentHandler \<Rightarrow> bool" where
  "answers svc h \<longleftrightarrow> (\<forall>d tr. fst (agentLoop svc h d tr) \<noteq> None)"

definition cooperates :: "services \<Rightarrow> agentHandler \<Rightarrow> bool" where
  "cooperates svc h \<longleftrightarrow> acknowledges svc \<and> answers svc h"

subsection \<open>The agent does not look at the joins\<close>

lemma call_tools_joins: "call_tools svc (h\<lparr>joins := js\<rparr>) tcs tr = call_tools svc h tcs tr"
  by (induction tcs arbitrary: tr) (simp_all add: callToolForAgent_def)

lemma agent_turns_joins:
  "agent_turns n svc (h\<lparr>joins := js\<rparr>) c d ms tr = agent_turns n svc h c d ms tr"
  by (induction n arbitrary: ms tr)
    (simp_all add: toolSpecs_def call_tools_joins split: prod.split sum.split)

lemma agentLoop_joins: "agentLoop svc (h\<lparr>joins := js\<rparr>) d tr = agentLoop svc h d tr"
  by (simp add: agentLoop_def agent_turns_joins systemPrompt_def split: option.split)

lemma cooperates_joins [simp]: "cooperates svc (h\<lparr>joins := js\<rparr>) = cooperates svc h"
  by (simp add: cooperates_def answers_def agentLoop_joins)

text \<open>A model that always answers at once is enough for the agent.\<close>

lemma answers_at_once:
  assumes "llm h = Some c" "bad_url svc (baseURL c @ ''/chat/completions'') = None"
    and "\<And>tr req. \<exists>m. chat_reply svc (answer_http svc tr req) = Inr m \<and> toolCalls m = []"
  shows "answers svc h"
proof -
  have "fst (agent_turns (Suc n) svc h c d ms tr) \<noteq> None" for n d ms tr
  proof -
    obtain m where m: "chat_reply svc (answer_http svc tr (chat_http c ms (toolSpecs h))) = Inr m" "toolCalls m = []"
      using assms(3) by blast
    then have "fst (chat svc c ms (toolSpecs h) tr) = Inr m"
      using assms(2) by (simp add: chat_def post_def Let_def chat_http_def)
    then show ?thesis using m(2) by (auto split: prod.splits)
  qed
  then show ?thesis
    unfolding answers_def agentLoop_def assms(1) maxAgentTurns_def
    by (simp del: agent_turns.simps add: numeral_eq_Suc)
qed

subsection \<open>Completing\<close>

lemma publish_acknowledged:
  assumes "acknowledges svc"
  shows "publish svc h cid out tr = (None, tr @ published h cid out)"
proof -
  obtain r tr' where p: "publish svc h cid out tr = (r, tr')" by fastforce
  have "publish_all svc ts cid payload tr = (None, tr @ map (\<lambda>t. Sent \<lparr>pm_topic = t, pm_key = cid,
      pm_value = Some payload\<rparr> Acked) ts)" for ts payload tr
    using assms by (induction ts arbitrary: tr) (simp_all add: send_message_def acknowledges_def)
  then have "r = None" using p by (simp add: publish_is_all)
  with publish_trace[OF p] p show ?thesis by auto
qed

lemma complete_resolves:
  assumes "cooperates svc h"
  shows "\<exists>tr'. completeCorrelation svc h cid d tr = (Ret (completed_joins h cid), tr')
    \<and> resolved (cfg h) cid tr' \<and> (\<exists>es. tr' = tr @ es)"
proof -
  obtain r tr' where k: "completeCorrelation svc h cid d tr = (r, tr')" by fastforce
  obtain out tr1 where l: "agentLoop svc h d tr = (Some out, tr1)"
    using assms by (cases "agentLoop svc h d tr") (auto simp: cooperates_def answers_def,
        metis fst_conv not_Some_eq)
  have p: "publish svc h cid out tr1 = (None, tr1 @ published h cid out)"
    using assms publish_acknowledged by (simp add: cooperates_def)
  from k l p have "\<exists>h'. r = Ret h'" by (auto simp: completeCorrelation_def split: if_splits)
  with k show ?thesis
  proof (cases rule: complete_cases)
    case (completed es out b)
    have "resolved (cfg h) cid (((tr @ es) @ published h cid out) @ b)"
      by (rule resolved_mono[OF resolved_published[OF refl]])
    with completed k show ?thesis by simp
  qed auto
qed

subsection \<open>Consuming\<close>

text \<open>No join in memory is without its map of contributions (a write to which would panic).\<close>

definition no_nil :: "agentHandler \<Rightarrow> bool" where
  "no_nil h \<longleftrightarrow> (\<forall>cid st. fmlookup (joins h) cid = Some st \<longrightarrow> received st \<noteq> None)"

lemma no_nil_known: "no_nil h \<Longrightarrow> \<exists>rcv. received (known h cid) = Some rcv"
  by (auto simp: no_nil_def known_def split: option.split)

lemma no_nil_taken: "no_nil h \<Longrightarrow> no_nil (taken h env rcv)"
  by (simp add: no_nil_def taken_def with_contribution_def)

lemma no_nil_completed: "no_nil h \<Longrightarrow> no_nil (completed_joins h cid)"
  by (simp add: no_nil_def completed_joins_def)

lemma completed_simps [simp]:
  "cfg (completed_joins h cid) = cfg h" "cooperates svc (completed_joins h cid) = cooperates svc h"
  "cooperates svc (taken h env rcv) = cooperates svc h"
  by (simp_all add: completed_joins_def taken_def)

lemma join_acknowledged:
  assumes "acknowledges svc" "isFanIn h" "received (known h (correlationID env)) = Some rcv"
    and "tr' = tr @ [Sent (changelog_message h (correlationID env) (with_contribution env rcv)) Acked]"
  shows "join svc h env tr =
    (Ret (Inr (if enough h env rcv
       then (Some (mergeJoinedData (visit svc tr') (with_contribution env rcv)), True) else (None, False))),
     taken h env rcv, tr')"
proof -
  have w: "writeJoinState svc (joinStateTopic (cfg h)) (correlationID env) (with_contribution env rcv) tr = (Acked, tr')"
    using assms(1) by (simp add: writeJoinState_def send_message_def changelog_message_def acknowledges_def assms(4))
  have st: "(known h (correlationID env))\<lparr>received := Some (fmupd (source env) (data env) rcv)\<rparr>
      = with_contribution env rcv"
    by (simp add: with_contribution_def)
  have nf: "\<not> length (dependsOn (cfg h)) \<le> 1" using assms(2) by (simp add: isFanIn_def)
  show ?thesis
    unfolding join_def Let_def known_def[symmetric] assms(3) option.case if_not_P[OF nf] st w prod.case
    by (simp add: with_contribution_def taken_def enough_def)
qed

lemma consume_acknowledged:
  assumes "acknowledges svc" "isFanIn h" "env = message_envelope svc msg tr"
    and "received (known h (correlationID env)) = Some rcv"
  shows "\<exists>m. consume_message svc h msg tr =
    (if enough h env rcv
     then completeCorrelation svc (taken h env rcv) (correlationID env) m (tr @ recorded_events h env rcv msg)
     else (Ret (taken h env rcv), tr @ recorded_events h env rcv msg))"
proof -
  note j = join_acknowledged[OF assms(1,2,4) refl, of tr]
  show ?thesis
    unfolding consume_message_def Let_def assms(3)[symmetric] j prod.case
    using assms(2)
    by (intro exI[of _ "Some (mergeJoinedData (visit svc (tr @ [hd (recorded_events h env rcv msg)]))
          (with_contribution env rcv))"])
      (auto simp: recorded_events_def mark_message_def split: outcome.splits prod.splits)
qed

text \<open>What a cooperative environment makes of one message: it returns, the message is marked, and
  the contribution is recorded in memory or its correlation ID is resolved.\<close>

lemma consume_progress:
  assumes "cooperates svc h" "no_nil h" "env = message_envelope svc msg tr"
  obtains (resolved) h' tr' where "consume_message svc h msg tr = (Ret h', tr')"
      "cfg h' = cfg h" "cooperates svc h'" "no_nil h'" "\<exists>es. tr' = tr @ es" "Marked msg \<in> set tr'"
      "resolved (cfg h) (correlationID env) tr'"
      "\<And>cid. cid \<noteq> correlationID env \<Longrightarrow> fmlookup (joins h') cid = fmlookup (joins h) cid"
    | (waiting) rcv tr' where "consume_message svc h msg tr = (Ret (taken h env rcv), tr')"
      "\<exists>es. tr' = tr @ es" "Marked msg \<in> set tr'" "isFanIn h"
      "received (known h (correlationID env)) = Some rcv" "\<not> enough h env rcv"
proof (cases "isFanIn h")
  case False
  obtain tr1 where k: "completeCorrelation svc h (correlationID env) (data env) tr
      = (Ret (completed_joins h (correlationID env)), tr1)"
    "resolved (cfg h) (correlationID env) tr1" "\<exists>es. tr1 = tr @ es"
    using complete_resolves[OF assms(1)] by blast
  have "consume_message svc h msg tr = (Ret (completed_joins h (correlationID env)), tr1 @ [Marked msg])"
    unfolding consume_straight[OF False] assms(3)[symmetric] k(1) by simp
  then show ?thesis
    by (rule resolved) (use assms k resolved_mono no_nil_completed in \<open>auto simp: completed_joins_def\<close>)
next
  case True
  obtain rcv where rcv: "received (known h (correlationID env)) = Some rcv"
    using no_nil_known[OF assms(2)] by blast
  let ?h = "taken h env rcv" and ?tr = "tr @ recorded_events h env rcv msg"
  have m: "Marked msg \<in> set ?tr" by (simp add: recorded_events_def)
  obtain d where c: "consume_message svc h msg tr =
    (if enough h env rcv then completeCorrelation svc ?h (correlationID env) d ?tr else (Ret ?h, ?tr))"
    using consume_acknowledged[OF _ True assms(3) rcv] assms(1) by (auto simp: cooperates_def)
  show ?thesis
  proof (cases "enough h env rcv")
    case False
    with c waiting[of rcv ?tr] m True rcv show ?thesis by simp
  next
    case True
    have co: "cooperates svc ?h" using assms(1) by simp
    from complete_resolves[OF co, of "correlationID env" d ?tr] obtain tr' where
      k: "completeCorrelation svc ?h (correlationID env) d ?tr = (Ret (completed_joins ?h (correlationID env)), tr')"
        "resolved (cfg h) (correlationID env) tr'" "\<exists>es. tr' = ?tr @ es" by auto
    show ?thesis
      by (rule resolved[of "completed_joins ?h (correlationID env)" tr'])
        (use c True k m assms no_nil_completed[OF no_nil_taken[OF assms(2)]] in
          \<open>auto simp: completed_joins_def taken_def\<close>)
  qed
qed

text \<open>The sources in \<open>S\<close> have contributed to the join, which is not complete; or it is resolved.\<close>

definition gathering :: "string \<Rightarrow> string set \<Rightarrow> agentHandler \<Rightarrow> trace \<Rightarrow> bool" where
  "gathering cid S h tr \<longleftrightarrow> resolved (cfg h) cid tr
     \<or> (\<exists>rcv. received (known h cid) = Some rcv \<and> S \<subseteq> fset (fmdom rcv)
          \<and> size (fmdom rcv) < length (dependsOn (cfg h)))"

definition contributors :: "string \<Rightarrow> consumer_message set \<Rightarrow> string set" where
  "contributors cid msgs =
     {s. \<exists>msg \<in> msgs. \<exists>e. enveloped msg e \<and> correlationID e = cid \<and> source e = s}"

lemma contributors_insert:
  "contributors cid (insert msg msgs) = contributors cid {msg} \<union> contributors cid msgs"
  by (auto simp: contributors_def)

lemma known_other: "fmlookup (joins h') cid = fmlookup (joins h) cid \<Longrightarrow> known h' cid = known h cid"
  by (simp add: known_def)

lemma consume_gathers:
  assumes "cooperates svc h" "no_nil h" "isFanIn h" "gathering cid S h tr"
  shows "\<exists>h' tr'. consume_message svc h msg tr = (Ret h', tr') \<and> cfg h' = cfg h \<and> cooperates svc h'
    \<and> no_nil h' \<and> (\<exists>es. tr' = tr @ es) \<and> Marked msg \<in> set tr'
    \<and> gathering cid (S \<union> contributors cid {msg}) h' tr'"
proof -
  let ?env = "message_envelope svc msg tr"
  have src: "contributors cid {msg} \<subseteq> (if correlationID ?env = cid then {source ?env} else {})"
    using enveloped_envelope[of msg _ svc tr] by (auto simp: contributors_def)
  from assms(1,2) refl[of ?env] show ?thesis
  proof (cases rule: consume_progress)
    case (resolved h' tr')
    have "gathering cid (S \<union> contributors cid {msg}) h' tr'"
    proof (cases "correlationID ?env = cid")
      case True
      with resolved show ?thesis by (simp add: gathering_def)
    next
      case False
      then have "known h' cid = known h cid" using resolved(8)[of cid] by (intro known_other) simp
      with assms(4) src False resolved(2,5) resolved_mono show ?thesis by (auto simp: gathering_def)
    qed
    with resolved show ?thesis by blast
  next
    case (waiting rcv tr')
    have "gathering cid (S \<union> contributors cid {msg}) (taken h ?env rcv) tr'"
    proof (cases "correlationID ?env = cid")
      case True
      then have k: "received (known (taken h ?env rcv) cid) = Some (fmupd (source ?env) (data ?env) rcv)"
        by (simp add: known_def taken_def with_contribution_def)
      show ?thesis
        using assms(4) waiting(2,5,6) src True k resolved_mono
        by (auto simp: gathering_def enough_def)
    next
      case False
      then have "known (taken h ?env rcv) cid = known h cid" by (simp add: known_def taken_def)
      with assms(4) src False waiting(2) resolved_mono show ?thesis by (auto simp: gathering_def)
    qed
    with waiting no_nil_taken[OF assms(2)] assms(1) show ?thesis by simp
  qed
qed

lemma claim_gathers:
  assumes "cooperates svc h" "no_nil h" "isFanIn h" "gathering cid S h tr"
  shows "\<exists>h' tr'. consumeClaim svc h msgs tr = (Ret h', tr') \<and> (\<exists>es. tr' = tr @ es)
    \<and> cfg h' = cfg h \<and> (\<forall>msg \<in> set msgs. Marked msg \<in> set tr')
    \<and> gathering cid (S \<union> contributors cid (set msgs)) h' tr'"
  using assms
proof (induction msgs arbitrary: h tr S)
  case Nil
  then show ?case by (simp add: contributors_def)
next
  case (Cons msg msgs)
  from consume_gathers[OF Cons.prems, of msg] obtain h1 tr1 where
    one: "consume_message svc h msg tr = (Ret h1, tr1)" "cfg h1 = cfg h" "cooperates svc h1" "no_nil h1"
      "\<exists>es. tr1 = tr @ es" "Marked msg \<in> set tr1" "gathering cid (S \<union> contributors cid {msg}) h1 tr1"
    by blast
  have "isFanIn h1" using Cons.prems(3) one(2) by (simp add: isFanIn_def)
  from Cons.IH[OF one(3,4) this one(7)] obtain h' tr' where
    rest: "consumeClaim svc h1 msgs tr1 = (Ret h', tr')" "\<exists>es. tr' = tr1 @ es" "cfg h' = cfg h1"
      "\<forall>msg \<in> set msgs. Marked msg \<in> set tr'"
      "gathering cid (S \<union> contributors cid {msg} \<union> contributors cid (set msgs)) h' tr'"
    by blast
  have "gathering cid (S \<union> contributors cid (set (msg # msgs))) h' tr'"
    using rest(5) contributors_insert[of cid msg "set msgs"] by (simp add: Un_assoc)
  then show ?case using one rest by auto
qed

lemma gathered:
  assumes "gathering cid S h tr" "distinct (dependsOn (cfg h))" "set (dependsOn (cfg h)) \<subseteq> S"
  shows "resolved (cfg h) cid tr"
proof (rule ccontr)
  assume "\<not> resolved (cfg h) cid tr"
  with assms(1) obtain rcv :: "(string, goobject) fmap" where
    r: "S \<subseteq> fset (fmdom rcv)" "card (fset (fmdom rcv)) < length (dependsOn (cfg h))"
    by (auto simp: gathering_def)
  with assms(3) have "card (set (dependsOn (cfg h))) \<le> card (fset (fmdom rcv))"
    by (intro card_mono) auto
  with assms(2) r(2) show False by (simp add: distinct_card)
qed

text \<open>A node without a join: every message is answered.\<close>

lemma claim_progress:
  assumes "cooperates svc h" "no_nil h" "\<not> isFanIn h"
  shows "\<exists>h' tr'. consumeClaim svc h msgs tr = (Ret h', tr') \<and> (\<exists>es. tr' = tr @ es)
    \<and> (\<forall>msg \<in> set msgs. Marked msg \<in> set tr'
        \<and> (\<forall>e. enveloped msg e \<longrightarrow> resolved (cfg h) (correlationID e) tr'))"
  using assms
proof (induction msgs arbitrary: h tr)
  case (Cons msg msgs)
  from Cons.prems(1,2) refl[of "message_envelope svc msg tr"] show ?case
  proof (cases rule: consume_progress)
    case (resolved h1 tr1)
    have "\<not> isFanIn h1" using Cons.prems(3) resolved(2) by (simp add: isFanIn_def)
    from Cons.IH[OF resolved(3,4) this] obtain h' tr' where
      rest: "consumeClaim svc h1 msgs tr1 = (Ret h', tr')" "\<exists>es. tr' = tr1 @ es"
        "\<forall>msg \<in> set msgs. Marked msg \<in> set tr' \<and> (\<forall>e. enveloped msg e \<longrightarrow> resolved (cfg h1) (correlationID e) tr')"
      by blast
    have "resolved (cfg h) (correlationID e) tr'" if "enveloped msg e" for e
      using resolved(7) enveloped_envelope[OF that, of svc tr] rest(2) resolved_mono by auto
    with rest resolved show ?thesis by auto
  qed (use Cons.prems(3) in simp)
qed simp

subsection \<open>Recovering\<close>

lemma recover_resolves:
  "cooperates svc h \<Longrightarrow> \<exists>h' tr'. recover_joins svc h cids tr = (Ret h', tr') \<and> (\<exists>es. tr' = tr @ es)
    \<and> (\<forall>cid \<in> set cids. \<forall>st. fmlookup (joins h) cid = Some st
        \<longrightarrow> length (dependsOn (cfg h)) \<le> gomap_len (received st) \<longrightarrow> resolved (cfg h) cid tr')"
proof (induction cids arbitrary: h tr)
  case (Cons c cids)
  show ?case
  proof (cases "\<exists>st. fmlookup (joins h) c = Some st \<and> gomap_len (received st) \<ge> length (dependsOn (cfg h))")
    case False
    with Cons.IH[OF Cons.prems, of tr] show ?thesis by (auto split: option.split)
  next
    case True
    then obtain st where st: "fmlookup (joins h) c = Some st"
      "gomap_len (received st) \<ge> length (dependsOn (cfg h))" by blast
    from complete_resolves[OF Cons.prems, of c "Some (mergeJoinedData (visit svc tr) st)" tr] obtain tr1 where
      k: "completeCorrelation svc h c (Some (mergeJoinedData (visit svc tr) st)) tr = (Ret (completed_joins h c), tr1)"
        "resolved (cfg h) c tr1" "\<exists>es. tr1 = tr @ es" by blast
    have "cooperates svc (completed_joins h c)" using Cons.prems by simp
    from Cons.IH[OF this, of tr1] obtain h' tr' where
      rest: "recover_joins svc (completed_joins h c) cids tr1 = (Ret h', tr')" "\<exists>es. tr' = tr1 @ es"
        "\<And>cid st. cid \<in> set cids \<Longrightarrow> fmlookup (joins (completed_joins h c)) cid = Some st
          \<Longrightarrow> length (dependsOn (cfg h)) \<le> gomap_len (received st) \<Longrightarrow> resolved (cfg h) cid tr'"
      by auto
    have c: "resolved (cfg h) c tr'" using k(2) rest(2) resolved_mono by auto
    have "resolved (cfg h) cid tr'"
      if "cid \<in> set (c # cids)" "fmlookup (joins h) cid = Some st'"
        "length (dependsOn (cfg h)) \<le> gomap_len (received st')" for cid st'
      using that c rest(3)[of cid st'] by (cases "cid = c") (auto simp: completed_joins_def)
    then show ?thesis using k st rest by auto
  qed
qed simp

end
