(* ===== verification/TaskProps.thy ===== *)
theory TaskProps
  imports PodProps Progress
begin

section \<open>What a node makes of a task: its results, its cost, and that it gets done\<close>

text \<open>
  Every result a node publishes is an envelope every runner reads back; what a list of messages
  can cost at most; and that tasks get through when Kafka and the agent cooperate.
\<close>

subsection \<open>Results\<close>


definition payout_handler :: agentHandler where
  "payout_handler = decision_handler\<lparr>cfg := decision_config\<lparr>dependsOn := [''fraud''], joinStateTopic := []\<rparr>\<rparr>"

definition payout_run :: "agentHandler outcome \<times> trace" where
  "payout_run = consume_message good_services payout_handler (contribution ''fraud'' 0) []"

definition payout_message :: producer_message where
  "payout_message = (case snd payout_run ! 1 of Sent m a \<Rightarrow> m | _ \<Rightarrow> undefined)"


subsection \<open>Cost\<close>

text \<open>C22: Messages cost a bounded number of external actions, whatever the services answer: consuming
  a list of n messages adds to the trace, and adds at most 8 n requests to the LLM, n times the
  number of output topics plus two records sent to Kafka, and n marks.\<close>
theorem work_is_bounded:
  "\<exists>es. snd (consumeClaim svc h msgs tr) = tr @ es
    \<and> posts es \<le> length msgs * 8
    \<and> sends es \<le> length msgs * (length (outputTopics (cfg h)) + 2)
    \<and> marks es \<le> length msgs"
  using claim_cost[of svc h msgs tr "fst (consumeClaim svc h msgs tr)" "snd (consumeClaim svc h msgs tr)"]
  by (auto simp: costs_def maxAgentTurns_def)

subsection \<open>Tasks get done\<close>



lemma good_reply: "chat_reply good_services (Response 200 ''200 OK'' sample_answer)
    = Inr \<lparr>role = ''assistant'', content = ''Sure: {}'', toolCalls = [], toolCallID = []\<rparr>"
  by code_simp

lemma good_cooperates: "llm h = Some c \<Longrightarrow> cooperates good_services h"
  unfolding cooperates_def
  by (intro conjI answers_at_once)
    (auto simp: good_services_def sample_services_def acknowledges_def good_reply[unfolded good_services_def sample_services_def])

lemma contribution_enveloped:
  "enveloped (contribution ''fraud'' 0) (message_envelope good_services (contribution ''fraud'' 0) [])"
  "enveloped (contribution ''coverage'' 1) (message_envelope good_services (contribution ''coverage'' 1) [])"
  by code_simp+



end
