(* ===== verification/GoFlags.thy ===== *)
theory GoFlags
  imports GoStrings
begin

section \<open>Go's command-line flags\<close>

text \<open>
  What cmd/main.go uses of the packages flag and strconv: \<open>ParseBool\<close>, \<open>ParseInt\<close> with
  base 0 and 64 bits, and \<open>flag.Parse\<close>. A set of flags is a function from names to
  \<open>flag_var\<close>; a flag's variable is a field of a record of type \<open>'s\<close>, which the constructor
  carries as its update. \<open>Other\<close> is a flag some other package declares, with what its
  \<open>Set\<close> method accepts; what it is set to is kept in a list. An error of \<open>Parse\<close> is a value
  here; what main does with it is in \<open>Manager\<close>.
\<close>

subsection \<open>Numbers and booleans (strconv)\<close>

definition ParseBool :: "string \<Rightarrow> bool option" where
  "ParseBool s =
     (if s \<in> {''1'', ''t'', ''T'', ''TRUE'', ''true'', ''True''} then Some True
      else if s \<in> {''0'', ''f'', ''F'', ''FALSE'', ''false'', ''False''} then Some False
      else None)"

definition lower :: "char \<Rightarrow> char" where
  "lower c = (if CHR ''A'' \<le> c \<and> c \<le> CHR ''Z'' then char_of (of_char c + 32 :: nat) else c)"

definition decimal_digit :: "char \<Rightarrow> bool" where
  "decimal_digit c \<longleftrightarrow> CHR ''0'' \<le> c \<and> c \<le> CHR ''9''"

definition digit_value :: "char \<Rightarrow> nat option" where
  "digit_value c =
     (if decimal_digit c then Some (of_char c - 48)
      else if CHR ''a'' \<le> lower c \<and> lower c \<le> CHR ''z'' then Some (of_char (lower c) - 97 + 10)
      else None)"

text \<open>The loop over the digits. The value is not bounded here: it only grows, so a result of at most
  \<open>2 ^ 64 - 1\<close> never overflowed on the way.\<close>

fun read_digits :: "nat \<Rightarrow> string \<Rightarrow> nat \<Rightarrow> nat option" where
  "read_digits base [] n = Some n"
| "read_digits base (c # cs) n =
     (if c = CHR ''_'' then read_digits base cs n
      else case digit_value c of
        None \<Rightarrow> None
      | Some d \<Rightarrow> if d \<ge> base then None else read_digits base cs (n * base + d))"

text \<open>\<open>underscoreOK\<close>: underscores separate digits. The first argument says whether the digits are
  hexadecimal, the second is the class of the last character.\<close>

fun underscores_ok :: "bool \<Rightarrow> char \<Rightarrow> string \<Rightarrow> bool" where
  "underscores_ok hex i [] \<longleftrightarrow> i \<noteq> CHR ''_''"
| "underscores_ok hex i (c # cs) \<longleftrightarrow>
     (if decimal_digit c \<or> hex \<and> CHR ''a'' \<le> lower c \<and> lower c \<le> CHR ''f'' then underscores_ok hex (CHR ''0'') cs
      else if c = CHR ''_'' then i = CHR ''0'' \<and> underscores_ok hex (CHR ''_'') cs
      else i \<noteq> CHR ''_'' \<and> underscores_ok hex (CHR ''!'') cs)"

text \<open>The base a prefix announces, its length, and whether it counts as a digit.\<close>

definition base_prefix :: "string \<Rightarrow> nat \<times> nat" where
  "base_prefix s =
     (case s of
        c # d # e # r \<Rightarrow>
          if c = CHR ''0'' \<and> lower d = CHR ''b'' then (2, 2)
          else if c = CHR ''0'' \<and> lower d = CHR ''o'' then (8, 2)
          else if c = CHR ''0'' \<and> lower d = CHR ''x'' then (16, 2)
          else if c = CHR ''0'' then (8, 1) else (10, 0)
      | c # r \<Rightarrow> if c = CHR ''0'' then (8, 1) else (10, 0)
      | [] \<Rightarrow> (10, 0))"

definition underscoreOK :: "string \<Rightarrow> bool" where
  "underscoreOK s =
     (case s of
        c # d # r \<Rightarrow>
          if c = CHR ''0'' \<and> lower d \<in> {CHR ''b'', CHR ''o'', CHR ''x''}
          then underscores_ok (lower d = CHR ''x'') (CHR ''0'') r
          else underscores_ok False (CHR ''^'') s
      | _ \<Rightarrow> underscores_ok False (CHR ''^'') s)"

definition ParseUint :: "string \<Rightarrow> nat option" where
  "ParseUint s =
     (if s = [] then None
      else case base_prefix s of (base, n) \<Rightarrow>
        case read_digits base (drop n s) 0 of
          None \<Rightarrow> None
        | Some u \<Rightarrow> if u \<ge> 2 ^ 64 \<or> CHR ''_'' \<in> set (drop n s) \<and> \<not> underscoreOK s then None else Some u)"

definition ParseInt :: "string \<Rightarrow> int option" where
  "ParseInt s =
     (let neg = has_prefix s ''-''; t = (if has_prefix s ''+'' \<or> neg then drop 1 s else s) in
      case ParseUint t of
        None \<Rightarrow> None
      | Some u \<Rightarrow>
          if \<not> neg \<and> u \<ge> 2 ^ 63 \<or> neg \<and> u > 2 ^ 63 then None
          else Some (if neg then - int u else int u))"

subsection \<open>Flags\<close>

datatype 's flag_var =
    StringVar "string \<Rightarrow> 's \<Rightarrow> 's"
  | BoolVar "bool \<Rightarrow> 's \<Rightarrow> 's"
  | IntVar "int \<Rightarrow> 's \<Rightarrow> 's"
  | Other bool "string \<Rightarrow> bool"

datatype flag_error =
    BadSyntax string
  | NotDefined string
  | Help
  | InvalidBool string string
  | NeedsArgument string
  | InvalidValue string string

record 's settings =
  variables :: 's
  others :: "(string \<times> string) list"

definition is_bool_flag :: "'s flag_var \<Rightarrow> bool" where
  "is_bool_flag v = (case v of BoolVar f \<Rightarrow> True | Other b ok \<Rightarrow> b | _ \<Rightarrow> False)"

text \<open>\<open>Value.Set\<close>.\<close>

definition set_flag :: "string \<Rightarrow> 's flag_var \<Rightarrow> string \<Rightarrow> 's settings \<Rightarrow> 's settings option" where
  "set_flag name v x s =
     (case v of
        StringVar f \<Rightarrow> Some (s\<lparr>variables := f x (variables s)\<rparr>)
      | BoolVar f \<Rightarrow> map_option (\<lambda>b. s\<lparr>variables := f b (variables s)\<rparr>) (ParseBool x)
      | IntVar f \<Rightarrow> map_option (\<lambda>n. s\<lparr>variables := f n (variables s)\<rparr>) (ParseInt x)
      | Other b ok \<Rightarrow> if ok x then Some (s\<lparr>others := others s @ [(name, x)]\<rparr>) else None)"

text \<open>What one argument is: the end of the flags (with or without a \<open>--\<close> to drop), an error, or a
  flag with a value or without.\<close>

datatype arg_kind = Positional | Terminator | Malformed | Named string "string option"

definition split_name :: "string \<Rightarrow> string \<times> string option" where
  "split_name name =
     (let n = hd name # takeWhile (\<lambda>c. c \<noteq> CHR ''='') (tl name) in
      (n, if length n < length name then Some (drop (length n + 1) name) else None))"

definition arg_form :: "string \<Rightarrow> arg_kind" where
  "arg_form s =
     (if length s < 2 \<or> hd s \<noteq> CHR ''-'' then Positional
      else if s = ''--'' then Terminator
      else let name = drop (if s ! 1 = CHR ''-'' then 2 else 1) s in
        if name = [] \<or> hd name = CHR ''-'' \<or> hd name = CHR ''='' then Malformed
        else case split_name name of (n, v) \<Rightarrow> Named n v)"

fun parse_flags ::
    "(string \<Rightarrow> 's flag_var option) \<Rightarrow> string list \<Rightarrow> 's settings \<Rightarrow> flag_error + 's settings \<times> string list" where
  "parse_flags formal [] s = Inr (s, [])"
| "parse_flags formal (a # args) s =
     (case arg_form a of
        Positional \<Rightarrow> Inr (s, a # args)
      | Terminator \<Rightarrow> Inr (s, args)
      | Malformed \<Rightarrow> Inl (BadSyntax a)
      | Named name value \<Rightarrow>
          (case formal name of
             None \<Rightarrow> Inl (if name = ''help'' \<or> name = ''h'' then Help else NotDefined name)
           | Some v \<Rightarrow>
               if is_bool_flag v then
                 (case set_flag name v (case value of None \<Rightarrow> ''true'' | Some x \<Rightarrow> x) s of
                    None \<Rightarrow> Inl (InvalidBool (case value of None \<Rightarrow> ''true'' | Some x \<Rightarrow> x) name)
                  | Some s' \<Rightarrow> parse_flags formal args s')
               else
                 (case value of
                    Some x \<Rightarrow>
                      (case set_flag name v x s of
                         None \<Rightarrow> Inl (InvalidValue x name)
                       | Some s' \<Rightarrow> parse_flags formal args s')
                  | None \<Rightarrow>
                      (case args of
                         [] \<Rightarrow> Inl (NeedsArgument name)
                       | x # rest \<Rightarrow>
                           (case set_flag name v x s of
                              None \<Rightarrow> Inl (InvalidValue x name)
                            | Some s' \<Rightarrow> parse_flags formal rest s')))))"

end
