(* ===== verification/FlagLaws.thy ===== *)
theory FlagLaws
  imports GoFlags
begin

section \<open>Laws of flags\<close>

text \<open>
  Every spelling of an assignment to a flag is parsed as that assignment; what ends the flags; that
  a flag nobody names keeps its variable; and that numbers written in decimal are read back.
\<close>

subsection \<open>Decimal numbers\<close>

fun decimal :: "nat \<Rightarrow> string" where
  "decimal n = (if n < 10 then [char_of (48 + n)] else decimal (n div 10) @ [char_of (48 + n mod 10)])"

declare decimal.simps [simp del]

definition show_int :: "int \<Rightarrow> string" where
  "show_int n = (if n < 0 then ''-'' @ decimal (nat (- n)) else decimal (nat n))"

lemma digit_char: "d < 10 \<Longrightarrow> digit_value (char_of (48 + d)) = Some d \<and> char_of (48 + d) \<noteq> CHR ''_''
    \<and> decimal_digit (char_of (48 + d))"
proof -
  have "\<forall>d \<in> set [0..<10]. digit_value (char_of (48 + d)) = Some d \<and> char_of (48 + d) \<noteq> CHR ''_''
    \<and> decimal_digit (char_of (48 + d))" by code_simp
  then show "d < 10 \<Longrightarrow> ?thesis" by simp
qed

lemma read_digits_append:
  "read_digits base (s @ t) n = (case read_digits base s n of None \<Rightarrow> None | Some m \<Rightarrow> read_digits base t m)"
  by (induction base s n rule: read_digits.induct) (auto split: option.split)

lemma read_decimal: "read_digits 10 (decimal n) 0 = Some n"
proof (induction n rule: decimal.induct)
  case (1 n)
  have "char_of (48 + n mod 10) \<noteq> CHR ''_''" "digit_value (char_of (48 + n mod 10)) = Some (n mod 10)"
    using digit_char[of "n mod 10"] by simp_all
  moreover have "n mod 10 < 10" by simp
  ultimately show ?case
    using 1 digit_char[of n] by (subst decimal.simps) (simp add: read_digits_append del: mod_less_divisor)
qed

lemma decimal_digits: "c \<in> set (decimal n) \<Longrightarrow> decimal_digit c"
proof (induction n rule: decimal.induct)
  case (1 n)
  with digit_char[of "n mod 10"] digit_char[of n] show ?case
    by (cases "n < 10") (simp_all add: decimal.simps[of n], blast)
qed

lemma decimal_not_Nil [simp]: "decimal n \<noteq> []"
  by (subst decimal.simps) simp

lemma decimal_head: "0 < n \<Longrightarrow> hd (decimal n) \<noteq> CHR ''0''"
proof (induction n rule: decimal.induct)
  case (1 n)
  have "n < 10 \<Longrightarrow> char_of (48 + n) \<noteq> CHR ''0''"
  proof -
    have "\<forall>d \<in> set [1..<10]. char_of (48 + d) \<noteq> CHR ''0''" by code_simp
    then show "n < 10 \<Longrightarrow> ?thesis" using 1(2) by simp
  qed
  with 1 show ?case
    by (cases "n < 10") (simp_all add: decimal.simps[of n])
qed

lemma decimal_base: "0 < n \<Longrightarrow> base_prefix (decimal n) = (10, 0)"
  using decimal_head[of n] decimal_not_Nil[of n]
  by (cases "decimal n") (auto simp: base_prefix_def split: list.split)

lemma digit_not: "decimal_digit c \<Longrightarrow> c \<noteq> CHR ''_'' \<and> c \<noteq> CHR ''-'' \<and> c \<noteq> CHR ''+''"
  by (auto simp: decimal_digit_def)

lemma parse_decimal: "n < 2 ^ 64 \<Longrightarrow> ParseUint (decimal n) = Some n"
proof (cases "n = 0")
  case True
  have "char_of (48 :: nat) = CHR ''0''" by code_simp
  then have "decimal 0 = ''0''" by (subst decimal.simps) simp
  moreover have "ParseUint ''0'' = Some 0" by (simp add: ParseUint_def base_prefix_def)
  ultimately show ?thesis using True by simp
next
  case False
  assume "n < 2 ^ 64"
  moreover have "CHR ''_'' \<notin> set (decimal n)" using decimal_digits digit_not by blast
  ultimately show ?thesis
    using False decimal_base[of n] read_decimal[of n] by (simp add: ParseUint_def)
qed

lemma ParseInt_show:
  assumes "- (2 ^ 63) \<le> n" "n < 2 ^ 63"
  shows "ParseInt (show_int n) = Some n"
proof (cases "n < 0")
  case True
  with assms have "nat (- n) < 2 ^ 64" "\<not> nat (- n) > 2 ^ 63" by (simp_all add: nat_less_iff)
  with True parse_decimal[of "nat (- n)"] show ?thesis
    by (simp add: ParseInt_def show_int_def has_prefix_def Let_def)
next
  case False
  with assms have u: "nat n < 2 ^ 64" "\<not> nat n \<ge> 2 ^ 63" by (simp_all add: nat_less_iff nat_le_iff not_le)
  have "take 1 (decimal (nat n)) = [hd (decimal (nat n))]" "hd (decimal (nat n)) \<in> set (decimal (nat n))"
    using decimal_not_Nil[of "nat n"] by (cases "decimal (nat n)"; simp)+
  with digit_not decimal_digits have "take 1 (decimal (nat n)) \<noteq> ''-'' \<and> take 1 (decimal (nat n)) \<noteq> ''+''"
    by (metis list.inject)
  with False u parse_decimal[OF u(1)] show ?thesis
    by (simp add: ParseInt_def show_int_def has_prefix_def Let_def)
qed

subsection \<open>Assignments\<close>

datatype spelling = OneDash | TwoDashes | NextArgument | Bare

type_synonym assignment = "spelling \<times> string \<times> string"

definition spell :: "assignment \<Rightarrow> string list" where
  "spell a = (case a of (sp, name, x) \<Rightarrow>
     (case sp of
        OneDash \<Rightarrow> [''-'' @ name @ ''='' @ x]
      | TwoDashes \<Rightarrow> [''--'' @ name @ ''='' @ x]
      | NextArgument \<Rightarrow> [''-'' @ name, x]
      | Bare \<Rightarrow> [''-'' @ name]))"

definition flag_name :: "string \<Rightarrow> bool" where
  "flag_name n \<longleftrightarrow> n \<noteq> [] \<and> hd n \<noteq> CHR ''-'' \<and> CHR ''='' \<notin> set n"

text \<open>An assignment in a spelling that its flag allows.\<close>

definition spelled :: "(string \<Rightarrow> 's flag_var option) \<Rightarrow> assignment \<Rightarrow> bool" where
  "spelled formal a \<longleftrightarrow>
     (case a of (sp, name, x) \<Rightarrow> flag_name name \<and>
       (case formal name of
          None \<Rightarrow> False
        | Some v \<Rightarrow> (sp = NextArgument \<longrightarrow> \<not> is_bool_flag v) \<and> (sp = Bare \<longrightarrow> is_bool_flag v \<and> x = ''true'')))"

definition assign ::
    "(string \<Rightarrow> 's flag_var option) \<Rightarrow> assignment \<Rightarrow> 's settings \<Rightarrow> 's settings option" where
  "assign formal a s = (case a of (sp, name, x) \<Rightarrow>
     (case formal name of None \<Rightarrow> None | Some v \<Rightarrow> set_flag name v x s))"

fun assign_all ::
    "(string \<Rightarrow> 's flag_var option) \<Rightarrow> assignment list \<Rightarrow> 's settings \<Rightarrow> 's settings option" where
  "assign_all formal [] s = Some s"
| "assign_all formal (a # as) s =
     (case assign formal a s of None \<Rightarrow> None | Some s' \<Rightarrow> assign_all formal as s')"

lemma split_name_forms:
  assumes "flag_name n"
  shows "split_name n = (n, None)" "split_name (n @ CHR ''='' # x) = (n, Some x)"
proof -
  obtain c r where n: "n = c # r" "CHR ''='' \<notin> set r" using assms by (cases n) (auto simp: flag_name_def)
  then have "\<And>c. c \<in> set r \<Longrightarrow> c \<noteq> CHR ''=''" by auto
  from takeWhile_append2[of r "\<lambda>c. c \<noteq> CHR ''=''" "CHR ''='' # x", OF this]
    takeWhile_append2[of r "\<lambda>c. c \<noteq> CHR ''=''" "[]", OF this]
  have "takeWhile (\<lambda>c. c \<noteq> CHR ''='') r = r"
    "takeWhile (\<lambda>c. c \<noteq> CHR ''='') (r @ CHR ''='' # x) = r"
    by (simp_all del: takeWhile_eq_all_conv)
  then show "split_name n = (n, None)" "split_name (n @ CHR ''='' # x) = (n, Some x)"
    by (simp_all add: split_name_def n Let_def del: takeWhile_eq_all_conv)
qed

lemma arg_forms:
  assumes "flag_name n"
  shows "arg_form (CHR ''-'' # n) = Named n None"
    "arg_form (CHR ''-'' # n @ CHR ''='' # x) = Named n (Some x)"
    "arg_form (CHR ''-'' # CHR ''-'' # n @ CHR ''='' # x) = Named n (Some x)"
proof -
  obtain c r where n: "n = c # r" "c \<noteq> CHR ''-''" "c \<noteq> CHR ''=''"
    using assms by (cases n) (auto simp: flag_name_def)
  show "arg_form (CHR ''-'' # n) = Named n None"
    "arg_form (CHR ''-'' # n @ CHR ''='' # x) = Named n (Some x)"
    "arg_form (CHR ''-'' # CHR ''-'' # n @ CHR ''='' # x) = Named n (Some x)"
    using split_name_forms[OF assms] n by (simp_all add: arg_form_def Let_def)
qed

lemma parse_spelled:
  assumes "spelled formal a" "assign formal a s = Some s'"
  shows "parse_flags formal (spell a @ args) s = parse_flags formal args s'"
proof -
  obtain sp name x where a: "a = (sp, name, x)" by (cases a) auto
  with assms obtain v where v: "flag_name name" "formal name = Some v" "set_flag name v x s = Some s'"
    "sp = NextArgument \<Longrightarrow> \<not> is_bool_flag v" "sp = Bare \<Longrightarrow> is_bool_flag v \<and> x = ''true''"
    by (auto simp: spelled_def assign_def split: option.splits)
  show ?thesis using v arg_forms[OF v(1)] by (cases sp) (auto simp: a spell_def)
qed

lemma parse_all:
  assumes "\<forall>a \<in> set as. spelled formal a" "assign_all formal as s = Some s'"
  shows "parse_flags formal (concat (map spell as) @ args) s = parse_flags formal args s'"
  using assms
proof (induction as arbitrary: s)
  case (Cons a as)
  from Cons.prems(2) obtain t where t: "assign formal a s = Some t" "assign_all formal as t = Some s'"
    by (auto split: option.splits)
  with parse_spelled[of formal a s t] Cons show ?case by simp
qed simp

subsection \<open>Invariants of parsing\<close>

text \<open>What every accepted assignment to a named flag keeps is true of the settings at the end.\<close>

definition upholds :: "(string \<Rightarrow> 's flag_var option) \<Rightarrow> ('s settings \<Rightarrow> bool) \<Rightarrow> string \<Rightarrow> bool" where
  "upholds formal P a \<longleftrightarrow>
     (\<forall>name val v x s s'. arg_form a = Named name val \<longrightarrow> formal name = Some v
        \<longrightarrow> set_flag name v x s = Some s' \<longrightarrow> P s \<longrightarrow> P s')"

lemma upholds_one:
  "upholds formal P a \<Longrightarrow> arg_form a = Named name val \<Longrightarrow> formal name = Some v
     \<Longrightarrow> set_flag name v x s = Some s' \<Longrightarrow> P s \<Longrightarrow> P s'"
  unfolding upholds_def by metis

lemma parse_keeps:
  "parse_flags formal args s = Inr (s', rest) \<Longrightarrow> P s \<Longrightarrow> \<forall>a \<in> set args. upholds formal P a \<Longrightarrow> P s'"
proof (induction formal args s rule: parse_flags.induct)
  case (2 formal a args s)
  show ?case
  proof (cases "arg_form a")
    case (Named name val)
    with "2.prems"(1) obtain v where v: "formal name = Some v" by (auto split: option.splits)
    have step: "P s2" if "set_flag name v x s = Some s2" for x s2
      using upholds_one[where P = P and formal = formal, OF _ Named v that "2.prems"(2)] "2.prems"(3) by simp
    show ?thesis
    proof (cases "is_bool_flag v \<or> val \<noteq> None")
      case True
      then show ?thesis
        using "2.IH"(1,3)[OF Named v] "2.prems" Named v step by (auto split: if_splits option.splits)
    next
      case False
      with "2.prems"(1) Named v obtain x r s2 where "args = x # r" "set_flag name v x s = Some s2"
        "parse_flags formal r s2 = Inr (s', rest)"
        by (auto split: option.splits list.splits)
      with False "2.IH"(2)[OF Named v _ _ this(1,2)] "2.prems"(3) step show ?thesis by simp
    qed
  qed (use "2.prems" in auto)
qed simp

end
