(* ===== verification/Manager.thy ===== *)
theory Manager
  imports FlagLaws Controller
begin

section \<open>The manager (cmd/main.go, api/v1alpha1/groupversion_info.go)\<close>

text \<open>
  The command that runs the operator: its flags, what it makes of them for the two servers and the
  manager of controller-runtime, and the calls it makes, in their order, up to the first that
  fails. controller-runtime is a \<open>runtime_library\<close>: the answer of each call. The flags other
  packages declare (\<open>kubeconfig\<close>, \<open>zap-...\<close>) are its \<open>library_flags\<close>. The logger is not
  modelled.
\<close>

subsection \<open>The types of the API group\<close>

record group_version =
  gv_Group :: string
  gv_Version :: string

definition SchemeGroupVersion :: group_version where
  "SchemeGroupVersion = \<lparr>gv_Group = ''swarm.kafkaagentswarm.io'', gv_Version = ''v1alpha1''\<rparr>"

definition GroupVersion :: group_version where
  "GroupVersion = SchemeGroupVersion"

text \<open>What the code calls of apimachinery on a scheme of type \<open>'r\<close>; an error is a message.\<close>

record 'r scheme_library =
  add_to_group_version :: "'r \<Rightarrow> group_version \<Rightarrow> 'r"
  add_known_types :: "'r \<Rightarrow> group_version \<Rightarrow> string list \<Rightarrow> 'r"
  add_client_types :: "'r \<Rightarrow> string + 'r"

text \<open>The builder: the function it is made with, and then the one \<open>init\<close> registers.\<close>

definition new_scheme_builder :: "'r scheme_library \<Rightarrow> ('r \<Rightarrow> string + 'r) list" where
  "new_scheme_builder lib = [\<lambda>r. Inr (add_to_group_version lib r SchemeGroupVersion)]"

definition SchemeBuilder :: "'r scheme_library \<Rightarrow> ('r \<Rightarrow> string + 'r) list" where
  "SchemeBuilder lib =
     new_scheme_builder lib
     @ [\<lambda>r. Inr (add_known_types lib r SchemeGroupVersion [''AgentSwarm'', ''AgentSwarmList''])]"

text \<open>\<open>SchemeBuilder.AddToScheme\<close>: the functions in order up to the first error.\<close>

fun apply_builder :: "('r \<Rightarrow> string + 'r) list \<Rightarrow> 'r \<Rightarrow> string + 'r" where
  "apply_builder [] r = Inr r"
| "apply_builder (f # fs) r = (case f r of Inl e \<Rightarrow> Inl e | Inr r' \<Rightarrow> apply_builder fs r')"

definition AddToScheme :: "'r scheme_library \<Rightarrow> 'r \<Rightarrow> string + 'r" where
  "AddToScheme lib r = apply_builder (SchemeBuilder lib) r"

text \<open>\<open>init\<close> of cmd/main.go on the new scheme; \<open>Inl\<close> is the panic of \<open>utilruntime.Must\<close>.\<close>

definition init_scheme :: "'r scheme_library \<Rightarrow> 'r \<Rightarrow> string + 'r" where
  "init_scheme lib r = (case add_client_types lib r of Inl e \<Rightarrow> Inl e | Inr r' \<Rightarrow> AddToScheme lib r')"

subsection \<open>The flags\<close>

record manager_flags =
  metricsAddr :: string
  metricsCertPath :: string
  metricsCertName :: string
  metricsCertKey :: string
  webhookCertPath :: string
  webhookCertName :: string
  webhookCertKey :: string
  webhookPort :: int
  enableLeaderElection :: bool
  probeAddr :: string
  secureMetrics :: bool
  enableHTTP2 :: bool

definition default_flags :: manager_flags where
  "default_flags =
     \<lparr>metricsAddr = ''0'', metricsCertPath = [], metricsCertName = ''tls.crt'', metricsCertKey = ''tls.key'',
      webhookCertPath = [], webhookCertName = ''tls.crt'', webhookCertKey = ''tls.key'', webhookPort = 9443,
      enableLeaderElection = False, probeAddr = '':8081'', secureMetrics = True, enableHTTP2 = False\<rparr>"

definition manager_vars :: "(string \<times> manager_flags flag_var) list" where
  "manager_vars =
     [(''metrics-bind-address'', StringVar (\<lambda>x f. f\<lparr>metricsAddr := x\<rparr>)),
      (''health-probe-bind-address'', StringVar (\<lambda>x f. f\<lparr>probeAddr := x\<rparr>)),
      (''leader-elect'', BoolVar (\<lambda>x f. f\<lparr>enableLeaderElection := x\<rparr>)),
      (''metrics-secure'', BoolVar (\<lambda>x f. f\<lparr>secureMetrics := x\<rparr>)),
      (''webhook-cert-path'', StringVar (\<lambda>x f. f\<lparr>webhookCertPath := x\<rparr>)),
      (''webhook-cert-name'', StringVar (\<lambda>x f. f\<lparr>webhookCertName := x\<rparr>)),
      (''webhook-cert-key'', StringVar (\<lambda>x f. f\<lparr>webhookCertKey := x\<rparr>)),
      (''webhook-port'', IntVar (\<lambda>x f. f\<lparr>webhookPort := x\<rparr>)),
      (''metrics-cert-path'', StringVar (\<lambda>x f. f\<lparr>metricsCertPath := x\<rparr>)),
      (''metrics-cert-name'', StringVar (\<lambda>x f. f\<lparr>metricsCertName := x\<rparr>)),
      (''metrics-cert-key'', StringVar (\<lambda>x f. f\<lparr>metricsCertKey := x\<rparr>)),
      (''enable-http2'', BoolVar (\<lambda>x f. f\<lparr>enableHTTP2 := x\<rparr>))]"

text \<open>All flags of the command: those of the library are \<open>Other\<close>.\<close>

type_synonym library_flags = "string \<Rightarrow> (bool \<times> (string \<Rightarrow> bool)) option"

definition command_line :: "library_flags \<Rightarrow> string \<Rightarrow> manager_flags flag_var option" where
  "command_line lib name =
     (case map_of manager_vars name of
        Some v \<Rightarrow> Some v
      | None \<Rightarrow> map_option (\<lambda>(b, ok). Other b ok) (lib name))"

definition default_settings :: "manager_flags settings" where
  "default_settings = \<lparr>variables = default_flags, others = []\<rparr>"

subsection \<open>The servers\<close>

text \<open>A TLS configuration as far as the code sets it.\<close>

record tls_config =
  NextProtos :: "string list"

definition disableHTTP2 :: "tls_config \<Rightarrow> tls_config" where
  "disableHTTP2 c = c\<lparr>NextProtos := [''http/1.1'']\<rparr>"

definition tlsOpts_of :: "manager_flags \<Rightarrow> (tls_config \<Rightarrow> tls_config) list" where
  "tlsOpts_of f = (if enableHTTP2 f then [] else [disableHTTP2])"

record server_certs =
  CertDir :: string
  CertName :: string
  KeyName :: string

record webhook_options =
  wh_TLSOpts :: "(tls_config \<Rightarrow> tls_config) list"
  wh_Port :: int
  wh_Certs :: server_certs

definition no_certs :: server_certs where
  "no_certs = \<lparr>CertDir = [], CertName = [], KeyName = []\<rparr>"

definition webhookServerOptions :: "manager_flags \<Rightarrow> webhook_options" where
  "webhookServerOptions f =
     (let o1 = \<lparr>wh_TLSOpts = tlsOpts_of f, wh_Port = webhookPort f, wh_Certs = no_certs\<rparr> in
      if length (webhookCertPath f) > 0
      then o1\<lparr>wh_Certs := \<lparr>CertDir = webhookCertPath f, CertName = webhookCertName f,
        KeyName = webhookCertKey f\<rparr>\<rparr>
      else o1)"

datatype filter_provider = NoFilter | WithAuthenticationAndAuthorization

record metrics_options =
  BindAddress :: string
  SecureServing :: bool
  ms_TLSOpts :: "(tls_config \<Rightarrow> tls_config) list"
  FilterProvider :: filter_provider
  ms_Certs :: server_certs

definition metricsServerOptions :: "manager_flags \<Rightarrow> metrics_options" where
  "metricsServerOptions f =
     (let o1 = \<lparr>BindAddress = metricsAddr f, SecureServing = secureMetrics f, ms_TLSOpts = tlsOpts_of f,
                FilterProvider = NoFilter, ms_Certs = no_certs\<rparr>;
          o2 = (if secureMetrics f then o1\<lparr>FilterProvider := WithAuthenticationAndAuthorization\<rparr> else o1) in
      if length (metricsCertPath f) > 0
      then o2\<lparr>ms_Certs := \<lparr>CertDir = metricsCertPath f, CertName = metricsCertName f,
        KeyName = metricsCertKey f\<rparr>\<rparr>
      else o2)"

record 'r manager_options =
  mgr_Scheme :: 'r
  mgr_Metrics :: metrics_options
  mgr_WebhookServer :: webhook_options
  mgr_HealthProbeBindAddress :: string
  mgr_LeaderElection :: bool
  mgr_LeaderElectionID :: string

definition options_of :: "'r \<Rightarrow> manager_flags \<Rightarrow> 'r manager_options" where
  "options_of r f =
     \<lparr>mgr_Scheme = r, mgr_Metrics = metricsServerOptions f, mgr_WebhookServer = webhookServerOptions f,
      mgr_HealthProbeBindAddress = probeAddr f, mgr_LeaderElection = enableLeaderElection f,
      mgr_LeaderElectionID = ''6fe5fb3f.kafkaagentswarm.io''\<rparr>"

subsection \<open>main\<close>

text \<open>The controller \<open>SetupWithManager\<close> builds: the kind it watches and its name.\<close>

record controller_builder =
  for_kind :: string
  named :: string

definition agentswarm_controller :: controller_builder where
  "agentswarm_controller = \<lparr>for_kind = ''AgentSwarm'', named = ''agentswarm''\<rparr>"

datatype 'r call =
    GetConfig "(string \<times> string) list"
  | NewManager "'r manager_options"
  | SetupWithManager controller_builder
  | AddHealthzCheck string
  | AddReadyzCheck string
  | Start

text \<open>What a call answers: \<open>None\<close> without an error. It may depend on the calls made before.\<close>

record 'r runtime_library =
  library_flags :: library_flags
  answer :: "'r call list \<Rightarrow> 'r call \<Rightarrow> string option"

text \<open>The calls of \<open>main\<close> after the flags, in order. Each that fails ends the process with status 1
  (\<open>GetConfigOrDie\<close> does so itself).\<close>

definition main_calls :: "'r \<Rightarrow> manager_flags settings \<Rightarrow> 'r call list" where
  "main_calls r s =
     [GetConfig (others s), NewManager (options_of r (variables s)),
      SetupWithManager agentswarm_controller, AddHealthzCheck ''healthz'', AddReadyzCheck ''readyz'', Start]"

fun run_calls :: "'r runtime_library \<Rightarrow> 'r call list \<Rightarrow> 'r call list \<Rightarrow> nat \<times> 'r call list" where
  "run_calls rt [] tr = (0, tr)"
| "run_calls rt (c # cs) tr =
     (case answer rt tr c of
        Some e \<Rightarrow> (1, tr @ [c])
      | None \<Rightarrow> run_calls rt cs (tr @ [c]))"

text \<open>\<open>main\<close>: the exit status and the calls it made. \<open>flag.Parse\<close> exits with 0 after the help text
  and with 2 on any other error; what is left of the arguments is ignored.\<close>

definition manager_main :: "'r runtime_library \<Rightarrow> 'r \<Rightarrow> string list \<Rightarrow> nat \<times> 'r call list" where
  "manager_main rt r args =
     (case parse_flags (command_line (library_flags rt)) args default_settings of
        Inl Help \<Rightarrow> (0, [])
      | Inl e \<Rightarrow> (2, [])
      | Inr (s, rest) \<Rightarrow> run_calls rt (main_calls r s) [])"

end
