(* ===== verification/ManagerProps.thy ===== *)
theory ManagerProps
  imports Manager
begin

section \<open>Properties of the manager's command line\<close>

text \<open>
  What the arguments make of the flags, that HTTP/2 and unprotected metrics have to be asked for,
  and which calls are made before the process ends with which status.
\<close>

subsection \<open>Arguments and flags\<close>

lemma bool_texts: "ParseBool (if b then ''true'' else ''false'') = Some b"
  by (simp add: ParseBool_def)

text \<open>What ends the flags: the end of the arguments, a \<open>--\<close>, or an argument that is no flag.\<close>

definition ends_flags :: "string list \<Rightarrow> string list \<Rightarrow> bool" where
  "ends_flags args rest \<longleftrightarrow>
     args = [] \<and> rest = [] \<or> args = ''--'' # rest
     \<or> (\<exists>a as. args = a # as \<and> rest = args \<and> (length a < 2 \<or> hd a \<noteq> CHR ''-''))"

lemma parse_end: "ends_flags args rest \<Longrightarrow> parse_flags formal args s = Inr (s, rest)"
  by (auto simp: ends_flags_def arg_form_def)


text \<open>The arguments of the sample Deployment (config/manager/manager.yaml with the patch of
  config/default), and a runtime library that answers without errors.\<close>

definition deployed_args :: "assignment list" where
  "deployed_args =
     [(TwoDashes, ''metrics-bind-address'', '':8443''), (Bare, ''leader-elect'', ''true''),
      (TwoDashes, ''health-probe-bind-address'', '':8081'')]"

definition smooth :: "unit runtime_library" where
  "smooth = \<lparr>library_flags = (\<lambda>name. None), answer = (\<lambda>tr c. None)\<rparr>"


definition render_flags :: "manager_flags \<Rightarrow> assignment list" where
  "render_flags f =
     map (\<lambda>(n, x). (OneDash, n, x))
       [(''metrics-bind-address'', metricsAddr f), (''health-probe-bind-address'', probeAddr f),
        (''leader-elect'', if enableLeaderElection f then ''true'' else ''false''),
        (''metrics-secure'', if secureMetrics f then ''true'' else ''false''),
        (''webhook-cert-path'', webhookCertPath f), (''webhook-cert-name'', webhookCertName f),
        (''webhook-cert-key'', webhookCertKey f), (''webhook-port'', show_int (webhookPort f)),
        (''metrics-cert-path'', metricsCertPath f), (''metrics-cert-name'', metricsCertName f),
        (''metrics-cert-key'', metricsCertKey f),
        (''enable-http2'', if enableHTTP2 f then ''true'' else ''false'')]"

text \<open>C26: Every setting of the manager can be given on its command line, and only its own flags decide
  it: for all values of the twelve flags, with a port in the range of Go's int, the arguments that
  write them out are parsed back to these values, from whatever values the flags had.\<close>
theorem flags_read_back:
  assumes "- (2 ^ 63) \<le> webhookPort f" "webhookPort f < 2 ^ 63"
  shows "parse_flags (command_line lib) (concat (map spell (render_flags f))) \<lparr>variables = g, others = xs\<rparr>
    = Inr (\<lparr>variables = f, others = xs\<rparr>, [])"
proof -
  have "\<forall>a \<in> set (render_flags f). spelled (command_line lib) a"
    by (simp add: render_flags_def spelled_def flag_name_def command_line_def manager_vars_def)
  moreover have "assign_all (command_line lib) (render_flags f) \<lparr>variables = g, others = xs\<rparr>
      = Some \<lparr>variables = f, others = xs\<rparr>"
    using ParseInt_show[OF assms]
    by (simp add: render_flags_def assign_def command_line_def manager_vars_def set_flag_def bool_texts)
  ultimately show ?thesis using parse_all[of "render_flags f" _ _ _ "[]"] by simp
qed

theorem flags_read_back_witness:
  "parse_flags (command_line (library_flags smooth)) (concat (map spell (render_flags (default_flags\<lparr>webhookPort := -1\<rparr>))))
     default_settings = Inr (\<lparr>variables = default_flags\<lparr>webhookPort := -1\<rparr>, others = []\<rparr>, [])"
  using flags_read_back[of "default_flags\<lparr>webhookPort := -1\<rparr>" "library_flags smooth" default_flags "[]"]
  by (simp add: default_settings_def)

subsection \<open>Defaults that protect\<close>

lemma run_calls_made: "c \<in> set (snd (run_calls rt cs tr)) \<Longrightarrow> c \<in> set tr \<or> c \<in> set cs"
  by (induction rt cs tr rule: run_calls.induct) (auto split: option.splits)

lemma main_options:
  assumes "NewManager o' \<in> set (snd (manager_main rt r args))"
  obtains s rest where "parse_flags (command_line (library_flags rt)) args default_settings = Inr (s, rest)"
    "o' = options_of r (variables s)"
  using assms run_calls_made[of "NewManager o'" rt "main_calls r s" "[]" for s]
  by (auto simp: manager_main_def main_calls_def split: sum.splits flag_error.splits)

lemma table_keeps:
  "\<forall>(n, v) \<in> set manager_vars. set_flag m v x s = Some s' \<longrightarrow>
     (n \<noteq> ''enable-http2'' \<longrightarrow> enableHTTP2 (variables s') = enableHTTP2 (variables s))
     \<and> (n \<noteq> ''metrics-secure'' \<longrightarrow> secureMetrics (variables s') = secureMetrics (variables s))"
  unfolding manager_vars_def set_flag_def by simp (intro conjI impI; auto)

lemma command_line_keeps:
  assumes "command_line lib n = Some v" "set_flag n v x s = Some s'"
  shows "n \<noteq> ''enable-http2'' \<Longrightarrow> enableHTTP2 (variables s') = enableHTTP2 (variables s)"
    "n \<noteq> ''metrics-secure'' \<Longrightarrow> secureMetrics (variables s') = secureMetrics (variables s)"
proof -
  have "(n, v) \<in> set manager_vars \<or> (\<exists>b ok. v = Other b ok)"
    using assms(1) by (auto simp: command_line_def split: option.splits dest: map_of_SomeD)
  then show "n \<noteq> ''enable-http2'' \<Longrightarrow> enableHTTP2 (variables s') = enableHTTP2 (variables s)"
    "n \<noteq> ''metrics-secure'' \<Longrightarrow> secureMetrics (variables s') = secureMetrics (variables s)"
    using table_keeps[of n x s s'] assms(2) by (fastforce simp: set_flag_def split: if_splits)+
qed

lemma keeps_protection:
  "(\<forall>v. arg_form a \<noteq> Named ''enable-http2'' v)
     \<Longrightarrow> upholds (command_line lib) (\<lambda>s. \<not> enableHTTP2 (variables s)) a"
  "(\<forall>v. arg_form a \<noteq> Named ''metrics-secure'' v)
     \<Longrightarrow> upholds (command_line lib) (\<lambda>s. secureMetrics (variables s)) a"
  unfolding upholds_def using command_line_keeps by metis+

text \<open>A server applies its TLS options, in order, to the configuration it starts from.\<close>

definition served_tls :: "(tls_config \<Rightarrow> tls_config) list \<Rightarrow> tls_config \<Rightarrow> tls_config" where
  "served_tls opts c = fold (\<lambda>op. op) opts c"

text \<open>C27: HTTP/2 and open metrics have to be asked for: whatever the arguments are, if the manager is
  created and no argument names enable-http2, both servers offer HTTP/1.1 only, from whatever TLS
  configuration they start; and if no argument names metrics-secure, the metrics are served over
  TLS behind authentication and authorization.\<close>
theorem protective_defaults:
  assumes "NewManager opts \<in> set (snd (manager_main rt r args))"
  shows "((\<forall>a \<in> set args. \<forall>v. arg_form a \<noteq> Named ''enable-http2'' v)
      \<longrightarrow> NextProtos (served_tls (ms_TLSOpts (mgr_Metrics opts)) c) = [''http/1.1'']
        \<and> NextProtos (served_tls (wh_TLSOpts (mgr_WebhookServer opts)) c) = [''http/1.1''])
    \<and> ((\<forall>a \<in> set args. \<forall>v. arg_form a \<noteq> Named ''metrics-secure'' v)
      \<longrightarrow> SecureServing (mgr_Metrics opts) \<and> FilterProvider (mgr_Metrics opts) = WithAuthenticationAndAuthorization)"
proof -
  from assms obtain s rest where
    s: "parse_flags (command_line (library_flags rt)) args default_settings = Inr (s, rest)"
    "opts = options_of r (variables s)" by (rule main_options)
  have "\<not> enableHTTP2 (variables s)" if "\<forall>a \<in> set args. \<forall>v. arg_form a \<noteq> Named ''enable-http2'' v"
    using parse_keeps[of _ _ _ s rest "\<lambda>s. \<not> enableHTTP2 (variables s)", OF s(1)] that keeps_protection(1)
    by (auto simp: default_settings_def default_flags_def)
  moreover have "secureMetrics (variables s)" if "\<forall>a \<in> set args. \<forall>v. arg_form a \<noteq> Named ''metrics-secure'' v"
    using parse_keeps[of _ _ _ s rest "\<lambda>s. secureMetrics (variables s)", OF s(1)] that keeps_protection(2)
    by (auto simp: default_settings_def default_flags_def)
  ultimately show ?thesis
    by (simp add: s(2) options_of_def metricsServerOptions_def webhookServerOptions_def Let_def tlsOpts_of_def
        served_tls_def disableHTTP2_def)
qed

theorem protective_defaults_witness:
  "\<exists>opts. NewManager opts \<in> set (snd (manager_main smooth () [''-leader-elect'']))
     \<and> NextProtos (served_tls (ms_TLSOpts (mgr_Metrics opts)) \<lparr>NextProtos = [''h2'']\<rparr>) = [''http/1.1'']"
proof -
  have "parse_flags (command_line (library_flags smooth)) [''-leader-elect''] default_settings
      = Inr (default_settings\<lparr>variables := default_flags\<lparr>enableLeaderElection := True\<rparr>\<rparr>, [])"
    by code_simp
  then have "NewManager (options_of () (default_flags\<lparr>enableLeaderElection := True\<rparr>))
      \<in> set (snd (manager_main smooth () [''-leader-elect'']))"
    by (simp add: manager_main_def main_calls_def smooth_def)
  moreover have "\<forall>a \<in> set [''-leader-elect'']. \<forall>v. arg_form a \<noteq> Named ''enable-http2'' v"
    by (simp add: arg_form_def split_name_def Let_def)
  ultimately show ?thesis by (meson protective_defaults)
qed

subsection \<open>How the process ends\<close>

definition calls_made :: "'r runtime_library \<Rightarrow> 'r call list \<Rightarrow> 'r call list \<Rightarrow> nat \<Rightarrow> bool" where
  "calls_made rt cs tr k \<longleftrightarrow> k \<le> length cs \<and> snd (run_calls rt cs tr) = tr @ take k cs
     \<and> (fst (run_calls rt cs tr) = 0 \<longrightarrow> k = length cs \<and> (\<forall>i < k. answer rt (tr @ take i cs) (cs ! i) = None))
     \<and> (fst (run_calls rt cs tr) \<noteq> 0 \<longrightarrow> fst (run_calls rt cs tr) = 1 \<and> 0 < k
          \<and> (\<forall>i < k - 1. answer rt (tr @ take i cs) (cs ! i) = None)
          \<and> answer rt (tr @ take (k - 1) cs) (cs ! (k - 1)) \<noteq> None)"

lemma run_calls_prefix: "\<exists>k. calls_made rt cs tr k"
proof (induction rt cs tr rule: run_calls.induct)
  case (2 rt c cs tr)
  show ?case
  proof (cases "answer rt tr c")
    case (Some e)
    then have "calls_made rt (c # cs) tr 1" by (simp add: calls_made_def)
    then show ?thesis ..
  next
    case None
    have shift: "(\<forall>i < Suc n. answer rt (tr @ take i (c # cs)) ((c # cs) ! i) = None)
        \<longleftrightarrow> (\<forall>i < n. answer rt ((tr @ [c]) @ take i cs) (cs ! i) = None)" for n
      using None by (simp add: All_less_Suc2)
    from None have r: "run_calls rt (c # cs) tr = run_calls rt cs (tr @ [c])" by simp
    from 2[OF None] obtain k where k: "calls_made rt cs (tr @ [c]) k" ..
    have "calls_made rt (c # cs) tr (Suc k)"
    proof (cases "fst (run_calls rt cs (tr @ [c])) = 0")
      case True
      with k show ?thesis unfolding calls_made_def r shift by simp
    next
      case False
      with k obtain j where j: "k = Suc j" unfolding calls_made_def by (cases k) auto
      from k False show ?thesis unfolding calls_made_def r j diff_Suc_1 shift by simp
    qed
    then show ?thesis ..
  qed
qed (simp add: calls_made_def)

text \<open>C28: How the manager ends tells how far it came: it exits with 0 for the help text and with 2 for
  any other error in the flags, before it has done anything; otherwise it has made its six calls in
  their order up to the first that failed, and exits with 1, or all of them, the run of the
  manager included, without an error, and exits with 0.\<close>
theorem manager_exit_status:
  "(\<exists>e. parse_flags (command_line (library_flags rt)) args default_settings = Inl e
      \<and> manager_main rt r args = (if e = Help then 0 else 2, []))
   \<or> (\<exists>s rest k. parse_flags (command_line (library_flags rt)) args default_settings = Inr (s, rest)
      \<and> (let cs = main_calls r s; done_calls = take k cs in
           manager_main rt r args = (0, cs) \<and> (\<forall>i < length cs. answer rt (take i cs) (cs ! i) = None)
         \<or> manager_main rt r args = (1, done_calls @ [cs ! k]) \<and> k < length cs
            \<and> answer rt done_calls (cs ! k) \<noteq> None \<and> (\<forall>i < k. answer rt (take i cs) (cs ! i) = None)))"
proof (cases "parse_flags (command_line (library_flags rt)) args default_settings")
  case (Inl e)
  then show ?thesis by (cases e) (simp_all add: manager_main_def)
next
  case (Inr p)
  obtain s rest where p: "p = (s, rest)" by (cases p)
  let ?cs = "main_calls r s"
  have m: "manager_main rt r args = run_calls rt ?cs []" using Inr p by (simp add: manager_main_def)
  from run_calls_prefix[of rt ?cs "[]"] obtain k where "calls_made rt ?cs [] k" ..
  then have k: "k \<le> length ?cs" "snd (run_calls rt ?cs []) = take k ?cs"
    "fst (run_calls rt ?cs []) = 0 \<longrightarrow> k = length ?cs \<and> (\<forall>i < k. answer rt (take i ?cs) (?cs ! i) = None)"
    "fst (run_calls rt ?cs []) \<noteq> 0 \<longrightarrow> fst (run_calls rt ?cs []) = 1 \<and> 0 < k
      \<and> (\<forall>i < k - 1. answer rt (take i ?cs) (?cs ! i) = None) \<and> answer rt (take (k - 1) ?cs) (?cs ! (k - 1)) \<noteq> None"
    unfolding calls_made_def append_Nil by iprover+
  have e: "manager_main rt r args = (fst (run_calls rt ?cs []), take k ?cs)"
    using k(2) by (simp add: m prod_eq_iff)
  show ?thesis
  proof (cases "fst (run_calls rt ?cs []) = 0")
    case True
    with k e show ?thesis unfolding Inr p Let_def by auto
  next
    case False
    then have "take k ?cs = take (k - 1) ?cs @ [?cs ! (k - 1)]" "k - 1 < length ?cs"
      using k by (auto simp flip: take_Suc_conv_app_nth)
    with False k(4) e show ?thesis unfolding Inr p Let_def by auto
  qed
qed

text \<open>A platform without a cluster: the configuration is not found.\<close>

definition no_cluster :: "unit runtime_library" where
  "no_cluster = smooth\<lparr>answer := (\<lambda>tr c. case c of GetConfig xs \<Rightarrow> Some ''no kubeconfig'' | _ \<Rightarrow> None)\<rparr>"

theorem manager_exit_status_witness:
  "manager_main no_cluster () [''--enable-http2''] = (1, [GetConfig []])"
proof -
  let ?s = "default_settings\<lparr>variables := default_flags\<lparr>enableHTTP2 := True\<rparr>\<rparr>"
  have p: "parse_flags (command_line (library_flags no_cluster)) [''--enable-http2''] default_settings = Inr (?s, [])"
    by code_simp
  have a: "answer no_cluster tr c = (case c of GetConfig xs \<Rightarrow> Some ''no kubeconfig'' | _ \<Rightarrow> None)" for tr c
    by (simp add: no_cluster_def)
  obtain cs where cs: "main_calls () ?s = cs" "cs ! 0 = GetConfig []" "0 < length cs"
    by (simp add: main_calls_def default_settings_def)
  have n: "answer no_cluster (take 0 cs) (cs ! 0) \<noteq> None" using a cs(2) by simp
  from manager_exit_status[of no_cluster "[''--enable-http2'']" "()"] n cs(3) obtain k where
    k: "manager_main no_cluster () [''--enable-http2''] = (1, take k cs @ [cs ! k])"
      "\<forall>i < k. answer no_cluster (take i cs) (cs ! i) = None"
    unfolding p Let_def by (auto simp: cs(1))
  from k(2) n have "k = 0" by (metis gr0I)
  with k(1) cs(2) show ?thesis by simp
qed

subsection \<open>The scheme\<close>

text \<open>The manager is created with a scheme that knows the kind its controller watches.\<close>

lemma controller_kind_registered:
  assumes "\<And>r gv ks k. k \<in> set ks \<Longrightarrow> knows (add_known_types lib r gv ks) gv k" "init_scheme lib r = Inr r'"
  shows "knows r' GroupVersion (for_kind agentswarm_controller)"
  using assms
  by (auto simp: init_scheme_def AddToScheme_def SchemeBuilder_def new_scheme_builder_def GroupVersion_def agentswarm_controller_def
      split: sum.splits)

end
