(* ===== verification/GoMemory.thy ===== *)
theory GoMemory
  imports Main
begin

section \<open>Memory, slices and pointers\<close>

text \<open>
  What the generated copies need of Go's memory. A heap is a list of cells, an address an index; a
  new cell goes to the end. A cell holds an array, a variable is an array of one element. A slice
  is the address of its array, an offset and a length, and nil is \<open>None\<close>, as for a pointer. The
  functions here are generic in the element type: \<open>mk\<close> makes the cell of an array, \<open>un\<close> gives the
  array of a cell.

  A \<open>copier\<close> of a type is its zero value, its copying function, and what that function is about:
  which values are well-formed in a heap, what data a value stands for there, and which addresses
  it reaches. The locale \<open>deep_copier\<close> is the contract of a deep copy.
\<close>

subsection \<open>Copying\<close>

record slice =
  s_base :: nat
  s_off :: nat
  s_len :: nat

definition alloc :: "'h list \<Rightarrow> 'h \<Rightarrow> 'h list \<times> nat" where
  "alloc h c = (h @ [c], length h)"

definition slice_elems :: "('h \<Rightarrow> 't list) \<Rightarrow> 'h list \<Rightarrow> slice \<Rightarrow> 't list" where
  "slice_elems un h s = take (s_len s) (drop (s_off s) (un (h ! s_base s)))"

text \<open>\<open>*out = make([]T, len( *in)); copy( *out, *in)\<close>.\<close>

definition copy_plain_slice ::
    "('t list \<Rightarrow> 'h) \<Rightarrow> ('h \<Rightarrow> 't list) \<Rightarrow> 't \<Rightarrow> 'h list \<Rightarrow> slice option \<Rightarrow> 'h list \<times> slice option" where
  "copy_plain_slice mk un zero h s =
     (case s of
        None \<Rightarrow> (h, None)
      | Some sl \<Rightarrow>
          (case alloc h (mk (replicate (s_len sl) zero)) of (h1, a) \<Rightarrow>
             (h1[a := mk (slice_elems un h1 sl)], Some \<lparr>s_base = a, s_off = 0, s_len = s_len sl\<rparr>)))"

text \<open>\<open>for i := range *in { ( *in)[i].DeepCopyInto(&( *out)[i]) }\<close>, with \<open>n\<close> elements left from
  index \<open>i\<close> on, into the array at address \<open>a\<close>.\<close>

fun copy_items ::
    "('t list \<Rightarrow> 'h) \<Rightarrow> ('h \<Rightarrow> 't list) \<Rightarrow> ('h list \<Rightarrow> 't \<Rightarrow> 'h list \<times> 't) \<Rightarrow> slice \<Rightarrow> nat
       \<Rightarrow> nat \<Rightarrow> nat \<Rightarrow> 'h list \<Rightarrow> 'h list" where
  "copy_items mk un cp sl a i 0 h = h"
| "copy_items mk un cp sl a i (Suc n) h =
     (case cp h (slice_elems un h sl ! i) of
        (h', y) \<Rightarrow> copy_items mk un cp sl a (Suc i) n (h'[a := mk ((un (h' ! a))[i := y])]))"

definition copy_slice ::
    "('t list \<Rightarrow> 'h) \<Rightarrow> ('h \<Rightarrow> 't list) \<Rightarrow> 't \<Rightarrow> ('h list \<Rightarrow> 't \<Rightarrow> 'h list \<times> 't)
       \<Rightarrow> 'h list \<Rightarrow> slice option \<Rightarrow> 'h list \<times> slice option" where
  "copy_slice mk un zero cp h s =
     (case s of
        None \<Rightarrow> (h, None)
      | Some sl \<Rightarrow>
          (case alloc h (mk (replicate (s_len sl) zero)) of (h1, a) \<Rightarrow>
             (copy_items mk un cp sl a 0 (s_len sl) h1,
              Some \<lparr>s_base = a, s_off = 0, s_len = s_len sl\<rparr>)))"

text \<open>\<open>if in == nil { return nil }; out := new(T); in.DeepCopyInto(out); return out\<close>.\<close>

definition copy_pointer ::
    "('t list \<Rightarrow> 'h) \<Rightarrow> ('h \<Rightarrow> 't list) \<Rightarrow> 't \<Rightarrow> ('h list \<Rightarrow> 't \<Rightarrow> 'h list \<times> 't)
       \<Rightarrow> 'h list \<Rightarrow> nat option \<Rightarrow> 'h list \<times> nat option" where
  "copy_pointer mk un zero cp h p =
     (case p of
        None \<Rightarrow> (h, None)
      | Some a \<Rightarrow>
          (case alloc h (mk [zero]) of (h1, b) \<Rightarrow>
             (case cp h1 (un (h1 ! a) ! 0) of (h2, y) \<Rightarrow> (h2[b := mk [y]], Some b))))"

subsection \<open>The contract of a deep copy\<close>

record ('h, 't, 'v) copier =
  op_zero :: 't
  op_copy :: "'h list \<Rightarrow> 't \<Rightarrow> 'h list \<times> 't"
  op_valid :: "'h list \<Rightarrow> 't \<Rightarrow> bool"
  op_val :: "'h list \<Rightarrow> 't \<Rightarrow> 'v"
  op_reach :: "'h list \<Rightarrow> 't \<Rightarrow> nat set"

text \<open>The second heap has the same cells at some addresses.\<close>

definition agree :: "'h list \<Rightarrow> 'h list \<Rightarrow> nat set \<Rightarrow> bool" where
  "agree h h' S \<longleftrightarrow> (\<forall>a \<in> S. a < length h' \<and> h' ! a = h ! a)"

locale deep_copier =
  fixes c :: "('h, 't, 'v) copier"
  assumes bounded: "op_valid c h x \<Longrightarrow> op_reach c h x \<subseteq> {..<length h}"
    and stable: "op_valid c h x \<Longrightarrow> agree h h' (op_reach c h x)
          \<Longrightarrow> op_valid c h' x \<and> op_val c h' x = op_val c h x \<and> op_reach c h' x = op_reach c h x"
    and copied: "op_valid c h x \<Longrightarrow> op_copy c h x = (h', y)
          \<Longrightarrow> \<exists>cs. h' = h @ cs \<and> op_valid c h' y \<and> op_val c h' y = op_val c h x
                \<and> op_reach c h' y \<subseteq> {length h..<length h'}"

text \<open>What happens to memory later: cells are written and allocated.\<close>

datatype 'h mem_edit = Write nat 'h | Alloc 'h

fun edit :: "'h mem_edit \<Rightarrow> 'h list \<Rightarrow> 'h list" where
  "edit (Write a c) h = h[a := c]"
| "edit (Alloc c) h = h @ [c]"

definition edits :: "'h mem_edit list \<Rightarrow> 'h list \<Rightarrow> 'h list" where
  "edits es h = fold edit es h"

definition written :: "'h mem_edit list \<Rightarrow> nat set" where
  "written es = {a. \<exists>c. Write a c \<in> set es}"

lemma agree_append: "S \<subseteq> {..<length h} \<Longrightarrow> agree h (h @ cs) S"
  by (auto simp: agree_def nth_append)

lemma agree_middle:
  assumes "length p' = length p" "S \<subseteq> {length p..<length (p @ q)}"
  shows "agree (p @ q) (p' @ q @ r) S"
  using assms by (fastforce simp: agree_def nth_append)

lemma agree_mono: "agree h h' S \<Longrightarrow> T \<subseteq> S \<Longrightarrow> agree h h' T"
  by (auto simp: agree_def)

lemma agree_edits: "S \<subseteq> {..<length h} \<Longrightarrow> written es \<inter> S = {} \<Longrightarrow> agree h (edits es h) S"
proof (induction es arbitrary: h)
  case (Cons e es)
  have s: "S \<subseteq> {..<length (edit e h)} \<and> (\<forall>a \<in> S. edit e h ! a = h ! a)"
  proof (cases e)
    case (Write a c)
    with Cons.prems(2) have "a \<notin> S" by (auto simp: written_def)
    with Write Cons.prems(1) show ?thesis
      by (auto, metis nth_list_update_neq)
  next
    case (Alloc c)
    with Cons.prems(1) show ?thesis
      by (auto simp: nth_append)
  qed
  have "written es \<inter> S = {}" using Cons.prems(2) by (auto simp: written_def)
  from Cons.IH[OF conjunct1[OF s] this] s show ?case by (simp add: agree_def edits_def)
qed (auto simp: agree_def edits_def)

context deep_copier
begin

lemma appended:
  assumes "op_valid c h x"
  shows "op_valid c (h @ cs) x" "op_val c (h @ cs) x = op_val c h x" "op_reach c (h @ cs) x = op_reach c h x"
  using stable[OF assms agree_append[OF bounded[OF assms]]] by auto

lemma apart:
  assumes "op_valid c h x" "op_copy c h x = (h', y)"
  shows "op_val c h' y = op_val c h x \<and> op_val c h' x = op_val c h x
    \<and> op_reach c h' x \<inter> op_reach c h' y = {} \<and> take (length h) h' = h"
proof -
  from copied[OF assms] obtain cs where cs: "h' = h @ cs" "op_val c h' y = op_val c h x"
    "op_reach c h' y \<subseteq> {length h..<length h'}" by blast
  with appended[OF assms(1), of cs] bounded[OF assms(1)] show ?thesis by fastforce
qed

lemma independent:
  assumes "op_valid c h x" "op_copy c h x = (h', y)"
  shows "written es \<inter> {..<length h} = {} \<Longrightarrow> op_val c (edits es h') x = op_val c h x"
    and "written es \<inter> {length h..<length h'} = {} \<Longrightarrow> op_val c (edits es h') y = op_val c h x"
proof -
  from copied[OF assms] obtain cs where cs: "h' = h @ cs" "op_valid c h' y" "op_val c h' y = op_val c h x"
    "op_reach c h' y \<subseteq> {length h..<length h'}" by blast
  note x = appended[OF assms(1), of cs, folded cs(1)]
  show "op_val c (edits es h') x = op_val c h x" if "written es \<inter> {..<length h} = {}"
  proof -
    have "written es \<inter> op_reach c h' x = {}" using that bounded[OF assms(1)] x(3) by auto
    from stable[OF x(1) agree_edits[OF bounded[OF x(1)] this]] x(2) show ?thesis by simp
  qed
  show "op_val c (edits es h') y = op_val c h x" if "written es \<inter> {length h..<length h'} = {}"
  proof -
    have "written es \<inter> op_reach c h' y = {}" using that cs(4) by auto
    from stable[OF cs(2) agree_edits[OF bounded[OF cs(2)] this]] cs(3) show ?thesis by simp
  qed
qed

end

subsection \<open>Copiers of slices, pointers and structs\<close>

definition plain_copier :: "'t \<Rightarrow> ('h, 't, 't) copier" where
  "plain_copier zero =
     \<lparr>op_zero = zero, op_copy = (\<lambda>h x. (h, x)), op_valid = (\<lambda>h x. True), op_val = (\<lambda>h x. x),
      op_reach = (\<lambda>h x. {})\<rparr>"

definition slice_valid :: "('t list \<Rightarrow> 'h) \<Rightarrow> ('h \<Rightarrow> 't list) \<Rightarrow> 'h list \<Rightarrow> slice \<Rightarrow> bool" where
  "slice_valid mk un h s \<longleftrightarrow> s_base s < length h \<and> mk (un (h ! s_base s)) = h ! s_base s
     \<and> s_off s + s_len s \<le> length (un (h ! s_base s))"

definition slice_copier ::
    "('t list \<Rightarrow> 'h) \<Rightarrow> ('h \<Rightarrow> 't list) \<Rightarrow> ('h list \<Rightarrow> slice option \<Rightarrow> 'h list \<times> slice option)
       \<Rightarrow> ('h, 't, 'v) copier \<Rightarrow> ('h, slice option, 'v list option) copier" where
  "slice_copier mk un cp c =
     \<lparr>op_zero = None, op_copy = cp,
      op_valid = (\<lambda>h s. case s of None \<Rightarrow> True
        | Some sl \<Rightarrow> slice_valid mk un h sl \<and> list_all (op_valid c h) (slice_elems un h sl)),
      op_val = (\<lambda>h s. map_option (\<lambda>sl. map (op_val c h) (slice_elems un h sl)) s),
      op_reach = (\<lambda>h s. case s of None \<Rightarrow> {}
        | Some sl \<Rightarrow> insert (s_base sl) (\<Union>x \<in> set (slice_elems un h sl). op_reach c h x))\<rparr>"

definition pointer_copier ::
    "('t list \<Rightarrow> 'h) \<Rightarrow> ('h \<Rightarrow> 't list) \<Rightarrow> ('h, 't, 'v) copier \<Rightarrow> ('h, nat option, 'v option) copier" where
  "pointer_copier mk un c =
     \<lparr>op_zero = None, op_copy = copy_pointer mk un (op_zero c) (op_copy c),
      op_valid = (\<lambda>h p. case p of None \<Rightarrow> True
        | Some a \<Rightarrow> a < length h \<and> h ! a = mk [un (h ! a) ! 0] \<and> op_valid c h (un (h ! a) ! 0)),
      op_val = (\<lambda>h p. map_option (\<lambda>a. op_val c h (un (h ! a) ! 0)) p),
      op_reach = (\<lambda>h p. case p of None \<Rightarrow> {} | Some a \<Rightarrow> insert a (op_reach c h (un (h ! a) ! 0)))\<rparr>"

text \<open>Two fields copied one after the other, and a struct some fields of which are copied: \<open>get\<close> and
  \<open>put\<close> are these fields, \<open>build\<close> the data of the struct from theirs.\<close>

definition both ::
    "('h, 't, 'v) copier \<Rightarrow> ('h, 'u, 'w) copier \<Rightarrow> ('h, 't \<times> 'u, 'v \<times> 'w) copier" where
  "both c d =
     \<lparr>op_zero = (op_zero c, op_zero d),
      op_copy = (\<lambda>h (x, y). case op_copy c h x of (h1, x') \<Rightarrow>
         (case op_copy d h1 y of (h2, y') \<Rightarrow> (h2, (x', y')))),
      op_valid = (\<lambda>h (x, y). op_valid c h x \<and> op_valid d h y),
      op_val = (\<lambda>h (x, y). (op_val c h x, op_val d h y)),
      op_reach = (\<lambda>h (x, y). op_reach c h x \<union> op_reach d h y)\<rparr>"

definition struct ::
    "'s \<Rightarrow> ('s \<Rightarrow> 't) \<Rightarrow> ('t \<Rightarrow> 's \<Rightarrow> 's) \<Rightarrow> ('s \<Rightarrow> 'v \<Rightarrow> 'r) \<Rightarrow> ('h, 't, 'v) copier \<Rightarrow> ('h, 's, 'r) copier" where
  "struct zero get put build c =
     \<lparr>op_zero = zero,
      op_copy = (\<lambda>h x. case op_copy c h (get x) of (h', y) \<Rightarrow> (h', put y x)),
      op_valid = (\<lambda>h x. op_valid c h (get x)),
      op_val = (\<lambda>h x. build x (op_val c h (get x))),
      op_reach = (\<lambda>h x. op_reach c h (get x))\<rparr>"

end
