(* ===== verification/MemoryLaws.thy ===== *)
theory MemoryLaws
  imports GoMemory
begin

section \<open>Slices, pointers and structs are deeply copied\<close>

text \<open>
  The contract \<open>deep_copier\<close> holds of plain values, and passes from elements to slices (copied at
  once or one by one) and pointers, and from fields to structs.
\<close>

lemma plain_copies: "deep_copier (plain_copier zero)"
  by unfold_locales (auto simp: plain_copier_def)

lemma both_copies:
  assumes "deep_copier c" "deep_copier d"
  shows "deep_copier (both c d)"
proof
  fix h x assume "op_valid (both c d) h x"
  then show "op_reach (both c d) h x \<subseteq> {..<length h}"
    using deep_copier.bounded[OF assms(1)] deep_copier.bounded[OF assms(2)]
    by (force simp: both_def split: prod.splits)
next
  fix h x h' assume "op_valid (both c d) h x" "agree h h' (op_reach (both c d) h x)"
  then show "op_valid (both c d) h' x \<and> op_val (both c d) h' x = op_val (both c d) h x
      \<and> op_reach (both c d) h' x = op_reach (both c d) h x"
    using deep_copier.stable[OF assms(1), of h "fst x" h'] deep_copier.stable[OF assms(2), of h "snd x" h']
    by (cases x) (auto simp: both_def dest: agree_mono[OF _ Un_upper1] agree_mono[OF _ Un_upper2])
next
  fix h x h' y assume a: "op_valid (both c d) h x" "op_copy (both c d) h x = (h', y)"
  obtain h1 x1 x2 y1 y2 where p: "x = (x1, x2)" "op_copy c h x1 = (h1, y1)" "op_copy d h1 x2 = (h', y2)"
    "y = (y1, y2)" "op_valid c h x1" "op_valid d h x2"
    using a by (auto simp: both_def split: prod.splits)
  from deep_copier.copied[OF assms(1) p(5,2)] obtain cs where cs: "h1 = h @ cs" "op_valid c h1 y1"
    "op_val c h1 y1 = op_val c h x1" "op_reach c h1 y1 \<subseteq> {length h..<length h1}" by blast
  note x2 = deep_copier.appended[OF assms(2) p(6), of cs, folded cs(1)]
  from deep_copier.copied[OF assms(2) x2(1) p(3)] obtain ds where ds: "h' = h1 @ ds" "op_valid d h' y2"
    "op_val d h' y2 = op_val d h1 x2" "op_reach d h' y2 \<subseteq> {length h1..<length h'}" by blast
  note y1 = deep_copier.appended[OF assms(1) cs(2), of ds, folded ds(1)]
  show "\<exists>cs. h' = h @ cs \<and> op_valid (both c d) h' y \<and> op_val (both c d) h' y = op_val (both c d) h x
      \<and> op_reach (both c d) h' y \<subseteq> {length h..<length h'}"
  proof (intro exI[of _ "cs @ ds"] conjI)
    show "op_reach (both c d) h' y \<subseteq> {length h..<length h'}"
      using cs(1,4) ds(1,4) y1(3) by (fastforce simp: both_def p(4))
  qed (use cs ds y1 x2 in \<open>simp_all add: both_def p(1,4)\<close>)
qed

lemma struct_copies:
  assumes "deep_copier c" "\<And>x y. get (put y x) = y" "\<And>x y v. build (put y x) v = build x v"
  shows "deep_copier (struct zero get put build c)"
proof
  fix h x assume "op_valid (struct zero get put build c) h x"
  then show "op_reach (struct zero get put build c) h x \<subseteq> {..<length h}"
    using deep_copier.bounded[OF assms(1)] by (simp add: struct_def)
next
  fix h x h'
  assume "op_valid (struct zero get put build c) h x" "agree h h' (op_reach (struct zero get put build c) h x)"
  then show "op_valid (struct zero get put build c) h' x
      \<and> op_val (struct zero get put build c) h' x = op_val (struct zero get put build c) h x
      \<and> op_reach (struct zero get put build c) h' x = op_reach (struct zero get put build c) h x"
    using deep_copier.stable[OF assms(1), of h "get x" h'] by (simp add: struct_def)
next
  fix h x h' y
  assume a: "op_valid (struct zero get put build c) h x" "op_copy (struct zero get put build c) h x = (h', y)"
  then obtain z where z: "op_valid c h (get x)" "op_copy c h (get x) = (h', z)" "y = put z x"
    by (auto simp: struct_def split: prod.splits)
  from deep_copier.copied[OF assms(1) z(1,2)]
  show "\<exists>cs. h' = h @ cs \<and> op_valid (struct zero get put build c) h' y
      \<and> op_val (struct zero get put build c) h' y = op_val (struct zero get put build c) h x
      \<and> op_reach (struct zero get put build c) h' y \<subseteq> {length h..<length h'}"
    by (simp add: struct_def z(3) assms(2,3))
qed

subsection \<open>Slices\<close>

lemma slice_elems_length:
  "slice_valid mk un h s \<Longrightarrow> length (slice_elems un h s) = s_len s"
  by (auto simp: slice_valid_def slice_elems_def)

text \<open>A slice of copied elements is stable and bounded, however it is copied.\<close>

lemma slice_local:
  assumes "deep_copier c" "op_valid (slice_copier mk un cp c) h x"
  shows "op_reach (slice_copier mk un cp c) h x \<subseteq> {..<length h}"
    and "agree h h' (op_reach (slice_copier mk un cp c) h x) \<Longrightarrow>
      op_valid (slice_copier mk un cp c) h' x
      \<and> op_val (slice_copier mk un cp c) h' x = op_val (slice_copier mk un cp c) h x
      \<and> op_reach (slice_copier mk un cp c) h' x = op_reach (slice_copier mk un cp c) h x"
proof -
  show "op_reach (slice_copier mk un cp c) h x \<subseteq> {..<length h}"
    using assms(2) deep_copier.bounded[OF assms(1)]
    by (fastforce simp: slice_copier_def slice_valid_def list_all_iff split: option.splits)
  assume ag: "agree h h' (op_reach (slice_copier mk un cp c) h x)"
  show "op_valid (slice_copier mk un cp c) h' x
      \<and> op_val (slice_copier mk un cp c) h' x = op_val (slice_copier mk un cp c) h x
      \<and> op_reach (slice_copier mk un cp c) h' x = op_reach (slice_copier mk un cp c) h x"
  proof (cases x)
    case (Some sl)
    with assms(2) have v: "slice_valid mk un h sl" "\<forall>z \<in> set (slice_elems un h sl). op_valid c h z"
      by (simp_all add: slice_copier_def list_all_iff)
    from ag Some have b: "s_base sl < length h'" "h' ! s_base sl = h ! s_base sl"
      and "\<forall>z \<in> set (slice_elems un h sl). agree h h' (op_reach c h z)"
      by (auto simp: slice_copier_def agree_def)
    with v(2) deep_copier.stable[OF assms(1)] have e: "\<forall>z \<in> set (slice_elems un h sl).
        op_valid c h' z \<and> op_val c h' z = op_val c h z \<and> op_reach c h' z = op_reach c h z" by blast
    from b have "slice_elems un h' sl = slice_elems un h sl" "slice_valid mk un h' sl"
      using v(1) by (simp_all add: slice_elems_def slice_valid_def)
    with e Some show ?thesis by (simp add: slice_copier_def list_all_iff)
  qed (simp add: slice_copier_def)
qed

lemma plain_slice_copies:
  assumes "\<And>xs. un (mk xs) = xs"
  shows "deep_copier (slice_copier mk un (copy_plain_slice mk un zero) (plain_copier zero))"
proof
  let ?c = "slice_copier mk un (copy_plain_slice mk un zero) (plain_copier zero)"
  fix h x h' y assume a: "op_valid ?c h x" "op_copy ?c h x = (h', y)"
  show "\<exists>cs. h' = h @ cs \<and> op_valid ?c h' y \<and> op_val ?c h' y = op_val ?c h x
      \<and> op_reach ?c h' y \<subseteq> {length h..<length h'}"
  proof (cases x)
    case (Some sl)
    with a(1) have v: "slice_valid mk un h sl" by (simp add: slice_copier_def)
    then have e: "slice_elems un (h @ [z]) sl = slice_elems un h sl" for z
      by (simp add: slice_elems_def slice_valid_def nth_append)
    from a(2) Some have h': "h' = h @ [mk (slice_elems un h sl)]"
      "y = Some \<lparr>s_base = length h, s_off = 0, s_len = s_len sl\<rparr>"
      by (simp_all add: slice_copier_def copy_plain_slice_def alloc_def e)
    have "slice_elems un h' \<lparr>s_base = length h, s_off = 0, s_len = s_len sl\<rparr> = slice_elems un h sl"
      using slice_elems_length[OF v] by (simp add: slice_elems_def h'(1) assms)
    with Some h' slice_elems_length[OF v] show ?thesis
      by (simp add: slice_copier_def plain_copier_def slice_valid_def assms list_all_iff)
  qed (use a in \<open>simp add: slice_copier_def copy_plain_slice_def\<close>)
qed (rule slice_local[OF plain_copies]; assumption)+

text \<open>The loop: \<open>h0\<close> is the heap before, \<open>ys\<close> what the new array holds when \<open>i\<close> elements are copied.\<close>

lemma copy_items_loop:
  assumes c: "deep_copier c" and un: "\<And>xs. un (mk xs) = xs"
    and sl: "slice_valid mk un h0 sl" "list_all (op_valid c h0) (slice_elems un h0 sl)"
  shows "i + n = s_len sl \<Longrightarrow> length ys = s_len sl \<Longrightarrow> \<exists>ds zs.
    copy_items mk un (op_copy c) sl (length h0) i n (h0 @ mk ys # cs) = h0 @ mk (take i ys @ zs) # cs @ ds
    \<and> length zs = n \<and> (\<forall>j < n. op_valid c (h0 @ mk (take i ys @ zs) # cs @ ds) (zs ! j)
       \<and> op_val c (h0 @ mk (take i ys @ zs) # cs @ ds) (zs ! j) = op_val c h0 (slice_elems un h0 sl ! (i + j))
       \<and> op_reach c (h0 @ mk (take i ys @ zs) # cs @ ds) (zs ! j)
          \<subseteq> {length h0..<length (h0 @ mk (take i ys @ zs) # cs @ ds)})"
proof (induction n arbitrary: i ys cs)
  case (Suc n)
  let ?h = "h0 @ mk ys # cs" and ?x = "slice_elems un h0 sl ! i"
  have "s_base sl < length h0" using sl(1) by (simp add: slice_valid_def)
  then have e: "slice_elems un ?h sl = slice_elems un h0 sl" by (simp add: slice_elems_def nth_append)
  have v: "op_valid c h0 ?x"
    using sl Suc.prems(1) slice_elems_length[OF sl(1)] by (simp add: list_all_iff)
  note x = deep_copier.appended[OF c v, of "mk ys # cs"]
  obtain h' y where cp: "op_copy c ?h ?x = (h', y)" by (cases "op_copy c ?h ?x")
  from deep_copier.copied[OF c x(1) cp] obtain es where es: "h' = ?h @ es" "op_valid c h' y"
    "op_val c h' y = op_val c h0 ?x" "op_reach c h' y \<subseteq> {length ?h..<length h'}"
    using x(2) by auto
  let ?ys = "ys[i := y]"
  have step: "h'[length h0 := mk ((un (h' ! length h0))[i := y])] = h0 @ mk ?ys # (cs @ es)"
    by (simp add: es(1) un)
  from Suc.IH[of "Suc i" ?ys "cs @ es"] Suc.prems obtain ds zs where IH:
    "copy_items mk un (op_copy c) sl (length h0) (Suc i) n (h0 @ mk ?ys # cs @ es)
       = h0 @ mk (take (Suc i) ?ys @ zs) # (cs @ es) @ ds" "length zs = n"
    "\<forall>j < n. op_valid c (h0 @ mk (take (Suc i) ?ys @ zs) # (cs @ es) @ ds) (zs ! j)
       \<and> op_val c (h0 @ mk (take (Suc i) ?ys @ zs) # (cs @ es) @ ds) (zs ! j) = op_val c h0 (slice_elems un h0 sl ! (Suc i + j))
       \<and> op_reach c (h0 @ mk (take (Suc i) ?ys @ zs) # (cs @ es) @ ds) (zs ! j)
          \<subseteq> {length h0..<length (h0 @ mk (take (Suc i) ?ys @ zs) # (cs @ es) @ ds)}"
    by auto
  have t: "take (Suc i) ?ys @ zs = take i ys @ y # zs"
    using Suc.prems by (simp add: take_Suc_conv_app_nth)
  let ?H = "h0 @ mk (take i ys @ y # zs) # cs @ es @ ds"
  have "agree h' ?H (op_reach c h' y)"
    using agree_middle[of "h0 @ mk (take i ys @ y # zs) # cs" ?h "op_reach c h' y" es ds] es(1,4) by simp
  from deep_copier.stable[OF c es(2) this] es(3,4)
  have y: "op_valid c ?H y" "op_val c ?H y = op_val c h0 ?x" "op_reach c ?H y \<subseteq> {length h0..<length ?H}"
    by (auto simp: es(1))
  show ?case
  proof (intro exI[of _ "es @ ds"] exI[of _ "y # zs"] conjI allI impI)
    show "copy_items mk un (op_copy c) sl (length h0) i (Suc n) (h0 @ mk ys # cs)
        = h0 @ mk (take i ys @ y # zs) # cs @ es @ ds"
      using IH(1) by (simp add: e cp step t)
  next
    fix j assume "j < Suc n"
    with y IH(3) show "op_valid c ?H ((y # zs) ! j)"
      "op_val c ?H ((y # zs) ! j) = op_val c h0 (slice_elems un h0 sl ! (i + j))"
      "op_reach c ?H ((y # zs) ! j) \<subseteq> {length h0..<length ?H}"
      by (cases j; simp add: t)+
  qed (simp add: IH(2))
qed simp

lemma slice_copies:
  assumes c: "deep_copier c" and un: "\<And>xs. un (mk xs) = xs"
  shows "deep_copier (slice_copier mk un (copy_slice mk un zero (op_copy c)) c)"
proof
  let ?s = "slice_copier mk un (copy_slice mk un zero (op_copy c)) c"
  fix h x h' y assume a: "op_valid ?s h x" "op_copy ?s h x = (h', y)"
  show "\<exists>cs. h' = h @ cs \<and> op_valid ?s h' y \<and> op_val ?s h' y = op_val ?s h x
      \<and> op_reach ?s h' y \<subseteq> {length h..<length h'}"
  proof (cases x)
    case (Some sl)
    let ?xs = "slice_elems un h sl" and ?sl = "\<lparr>s_base = length h, s_off = 0, s_len = s_len sl\<rparr>"
    from a(1) Some have v: "slice_valid mk un h sl" "list_all (op_valid c h) ?xs"
      by (simp_all add: slice_copier_def)
    from copy_items_loop[OF c un v, of 0 "s_len sl" "replicate (s_len sl) zero" "[]"] obtain ds zs where
      l: "copy_items mk un (op_copy c) sl (length h) 0 (s_len sl) (h @ [mk (replicate (s_len sl) zero)]) = h @ mk zs # ds"
        "length zs = s_len sl"
        "\<forall>j < s_len sl. op_valid c (h @ mk zs # ds) (zs ! j) \<and> op_val c (h @ mk zs # ds) (zs ! j) = op_val c h (?xs ! j)
           \<and> op_reach c (h @ mk zs # ds) (zs ! j) \<subseteq> {length h..<length (h @ mk zs # ds)}"
      by auto
    from a(2) Some l(1) have h': "h' = h @ mk zs # ds" "y = Some ?sl"
      by (simp_all add: slice_copier_def copy_slice_def alloc_def)
    have e: "slice_elems un h' ?sl = zs" by (simp add: slice_elems_def h'(1) un l(2))
    have "slice_valid mk un h' ?sl" by (simp add: slice_valid_def h'(1) un l(2))
    moreover have "map (op_val c h') zs = map (op_val c h) ?xs"
      using l(2,3) slice_elems_length[OF v(1)] by (auto simp: list_eq_iff_nth_eq h'(1))
    moreover have "\<forall>z \<in> set zs. op_valid c h' z \<and> op_reach c h' z \<subseteq> {length h..<length h'}"
      using l(2,3) by (fastforce simp only: in_set_conv_nth h'(1))
    ultimately show ?thesis
      using h'(2) Some
      by (intro exI[of _ "mk zs # ds"] conjI h'(1)) (simp_all add: slice_copier_def e list_all_iff UN_least h'(1)[symmetric], simp add: h'(1))
  qed (use a in \<open>simp add: slice_copier_def copy_slice_def\<close>)
qed (rule slice_local[OF c]; assumption)+

subsection \<open>Pointers\<close>

lemma pointer_copies:
  assumes c: "deep_copier c" and un: "\<And>xs. un (mk xs) = xs"
  shows "deep_copier (pointer_copier mk un c)"
proof
  let ?p = "pointer_copier mk un c"
  fix h x assume "op_valid ?p h x"
  then show "op_reach ?p h x \<subseteq> {..<length h}"
    using deep_copier.bounded[OF c] by (fastforce simp: pointer_copier_def split: option.splits)
next
  let ?p = "pointer_copier mk un c"
  fix h x h' assume "op_valid ?p h x" "agree h h' (op_reach ?p h x)"
  then show "op_valid ?p h' x \<and> op_val ?p h' x = op_val ?p h x \<and> op_reach ?p h' x = op_reach ?p h x"
    using deep_copier.stable[OF c, of h _ h']
    by (cases x) (auto simp: pointer_copier_def agree_def)
next
  let ?p = "pointer_copier mk un c"
  fix h x h' y assume a: "op_valid ?p h x" "op_copy ?p h x = (h', y)"
  show "\<exists>cs. h' = h @ cs \<and> op_valid ?p h' y \<and> op_val ?p h' y = op_val ?p h x
      \<and> op_reach ?p h' y \<subseteq> {length h..<length h'}"
  proof (cases x)
    case (Some q)
    let ?z = "un (h ! q) ! 0" and ?h1 = "h @ [mk [op_zero c]]"
    from a(1) Some have v: "q < length h" "op_valid c h ?z" by (auto simp: pointer_copier_def)
    note z = deep_copier.appended[OF c v(2), of "[mk [op_zero c]]"]
    obtain h2 w where cp: "op_copy c ?h1 ?z = (h2, w)" by (cases "op_copy c ?h1 ?z")
    from deep_copier.copied[OF c z(1) cp] obtain cs where cs: "h2 = ?h1 @ cs" "op_valid c h2 w"
      "op_val c h2 w = op_val c h ?z" "op_reach c h2 w \<subseteq> {length ?h1..<length h2}"
      using z(2) by auto
    from a(2) Some v(1) cp have h': "h' = h @ mk [w] # cs" "y = Some (length h)"
      by (simp_all add: pointer_copier_def copy_pointer_def alloc_def nth_append cs(1))
    have "agree h2 h' (op_reach c h2 w)"
      using agree_middle[of "h @ [mk [w]]" ?h1 "op_reach c h2 w" cs "[]"] cs(1,4) h'(1) by simp
    from deep_copier.stable[OF c cs(2) this] cs(3,4) Some h' show ?thesis
      by (auto simp: pointer_copier_def un cs(1))
  qed (use a in \<open>simp add: pointer_copier_def copy_pointer_def\<close>)
qed

end
