(* ===== verification/DeepCopy.thy ===== *)
theory DeepCopy
  imports MemoryLaws Controller
begin

section \<open>Generated deep copies (api/v1alpha1/zz_generated.deepcopy.go)\<close>

text \<open>
  The resource as it lies in memory, and the generated functions that copy it. A record here has
  one type parameter for each kind of field that refers to other memory: with slices and addresses
  it is the struct in memory, with lists and options in their place the data it stands for. A
  \<open>DeepCopyInto\<close> takes the heap and the value of \<open>*in\<close> and gives the value it leaves in \<open>*out\<close>;
  the caller stores it where \<open>out\<close> points, which is never where \<open>in\<close> points. The types of the
  Kubernetes libraries are values of a type \<open>'x\<close>; their own copying functions are the copiers of
  a \<open>go_types\<close>.
\<close>

subsection \<open>The types in memory\<close>

record 'p mem_LLMConfig =
  ml_BaseURL :: string
  ml_Model :: string
  ml_APIKeySecretRef :: 'p

record ('s, 'e, 'p) mem_AgentNode =
  mn_Name :: string
  mn_Type :: NodeType
  mn_Image :: string
  mn_Instructions :: string
  mn_DependsOn :: 's
  mn_Replicas :: "32 word"
  mn_MCPServices :: 'e
  mn_AllowedTools :: 's
  mn_LLM :: "'p mem_LLMConfig"

record 's mem_KafkaConfig =
  mk_Brokers :: 's

record ('s, 'n) mem_AgentSwarmSpec =
  ms_Kafka :: "'s mem_KafkaConfig"
  ms_Nodes :: 'n

record 'c mem_AgentSwarmStatus =
  mt_Conditions :: 'c
  mt_ActiveNodes :: "32 word"

record TypeMeta =
  Kind :: string
  APIVersion :: string

record ('x, 's, 'n, 'c) mem_AgentSwarm =
  mw_TypeMeta :: TypeMeta
  mw_ObjectMeta :: 'x
  mw_Spec :: "('s, 'n) mem_AgentSwarmSpec"
  mw_Status :: "'c mem_AgentSwarmStatus"

record ('x, 'w) mem_AgentSwarmList =
  mx_TypeMeta :: TypeMeta
  mx_ListMeta :: 'x
  mx_Items :: 'w

text \<open>The structs of a Go program.\<close>

type_synonym go_llm = "nat option mem_LLMConfig"
type_synonym go_node = "(slice option, slice option, nat option) mem_AgentNode"
type_synonym go_kafka = "slice option mem_KafkaConfig"
type_synonym go_spec = "(slice option, slice option) mem_AgentSwarmSpec"
type_synonym go_status = "slice option mem_AgentSwarmStatus"
type_synonym 'x go_swarm = "('x, slice option, slice option, slice option) mem_AgentSwarm"
type_synonym 'x go_swarm_list = "('x, slice option) mem_AgentSwarmList"

text \<open>The arrays and variables of each type, and the memory of the libraries.\<close>

datatype 'x cell =
    Strings (un_Strings: "string list")
  | MCPEndpoints (un_MCPEndpoints: "MCPEndpoint list")
  | Selectors (un_Selectors: "'x list")
  | LLMConfigs (un_LLMConfigs: "go_llm list")
  | AgentNodes (un_AgentNodes: "go_node list")
  | KafkaConfigs (un_KafkaConfigs: "go_kafka list")
  | Specs (un_Specs: "go_spec list")
  | Conditions (un_Conditions: "'x list")
  | Statuses (un_Statuses: "go_status list")
  | AgentSwarms (un_AgentSwarms: "'x go_swarm list")
  | AgentSwarmLists (un_AgentSwarmLists: "'x go_swarm_list list")
  | LibraryCell 'x

type_synonym 'x heap = "'x cell list"

record ('x, 'v) go_types =
  ObjectMeta :: "('x cell, 'x, 'v) copier"
  ListMeta :: "('x cell, 'x, 'v) copier"
  Condition :: "('x cell, 'x, 'v) copier"
  SecretKeySelector :: "('x cell, 'x, 'v) copier"

subsection \<open>The zero values of \<open>new\<close>\<close>

definition zero_MCPEndpoint :: MCPEndpoint where
  "zero_MCPEndpoint = \<lparr>ep_Name = [], ep_URL = []\<rparr>"

definition zero_LLMConfig :: go_llm where
  "zero_LLMConfig = \<lparr>ml_BaseURL = [], ml_Model = [], ml_APIKeySecretRef = None\<rparr>"

definition zero_AgentNode :: go_node where
  "zero_AgentNode =
     \<lparr>mn_Name = [], mn_Type = [], mn_Image = [], mn_Instructions = [], mn_DependsOn = None, mn_Replicas = 0,
      mn_MCPServices = None, mn_AllowedTools = None, mn_LLM = zero_LLMConfig\<rparr>"

definition zero_KafkaConfig :: go_kafka where
  "zero_KafkaConfig = \<lparr>mk_Brokers = None\<rparr>"

definition zero_AgentSwarmSpec :: go_spec where
  "zero_AgentSwarmSpec = \<lparr>ms_Kafka = zero_KafkaConfig, ms_Nodes = None\<rparr>"

definition zero_AgentSwarmStatus :: go_status where
  "zero_AgentSwarmStatus = \<lparr>mt_Conditions = None, mt_ActiveNodes = 0\<rparr>"

definition zero_TypeMeta :: TypeMeta where
  "zero_TypeMeta = \<lparr>Kind = [], APIVersion = []\<rparr>"

definition zero_AgentSwarm :: "('x, 'v) go_types \<Rightarrow> 'x go_swarm" where
  "zero_AgentSwarm T =
     \<lparr>mw_TypeMeta = zero_TypeMeta, mw_ObjectMeta = op_zero (ObjectMeta T), mw_Spec = zero_AgentSwarmSpec,
      mw_Status = zero_AgentSwarmStatus\<rparr>"

definition zero_AgentSwarmList :: "('x, 'v) go_types \<Rightarrow> 'x go_swarm_list" where
  "zero_AgentSwarmList T =
     \<lparr>mx_TypeMeta = zero_TypeMeta, mx_ListMeta = op_zero (ListMeta T), mx_Items = None\<rparr>"

subsection \<open>DeepCopyInto\<close>

definition copy_strings :: "'x heap \<Rightarrow> slice option \<Rightarrow> 'x heap \<times> slice option" where
  "copy_strings = copy_plain_slice Strings un_Strings []"

definition MCPEndpoint_DeepCopyInto :: "'x heap \<Rightarrow> MCPEndpoint \<Rightarrow> 'x heap \<times> MCPEndpoint" where
  "MCPEndpoint_DeepCopyInto h ep = (h, ep)"

text \<open>The pointer of an \<open>LLMConfig\<close>: a new selector, into which the old one is copied.\<close>

definition LLMConfig_DeepCopyInto ::
    "('x, 'v) go_types \<Rightarrow> 'x heap \<Rightarrow> go_llm \<Rightarrow> 'x heap \<times> go_llm" where
  "LLMConfig_DeepCopyInto T h x =
     (case copy_pointer Selectors un_Selectors (op_zero (SecretKeySelector T)) (op_copy (SecretKeySelector T))
             h (ml_APIKeySecretRef x) of
        (h1, ref) \<Rightarrow> (h1, x\<lparr>ml_APIKeySecretRef := ref\<rparr>))"

definition AgentNode_DeepCopyInto ::
    "('x, 'v) go_types \<Rightarrow> 'x heap \<Rightarrow> go_node \<Rightarrow> 'x heap \<times> go_node" where
  "AgentNode_DeepCopyInto T h x =
     (case copy_strings h (mn_DependsOn x) of (h1, deps) \<Rightarrow>
      (case copy_plain_slice MCPEndpoints un_MCPEndpoints zero_MCPEndpoint h1 (mn_MCPServices x) of (h2, eps) \<Rightarrow>
       (case copy_strings h2 (mn_AllowedTools x) of (h3, ts) \<Rightarrow>
        (case LLMConfig_DeepCopyInto T h3 (mn_LLM x) of (h4, l) \<Rightarrow>
           (h4, x\<lparr>mn_DependsOn := deps, mn_MCPServices := eps, mn_AllowedTools := ts, mn_LLM := l\<rparr>)))))"

definition KafkaConfig_DeepCopyInto :: "'x heap \<Rightarrow> go_kafka \<Rightarrow> 'x heap \<times> go_kafka" where
  "KafkaConfig_DeepCopyInto h x =
     (case copy_strings h (mk_Brokers x) of (h1, bs) \<Rightarrow> (h1, x\<lparr>mk_Brokers := bs\<rparr>))"

definition AgentSwarmSpec_DeepCopyInto ::
    "('x, 'v) go_types \<Rightarrow> 'x heap \<Rightarrow> go_spec \<Rightarrow> 'x heap \<times> go_spec" where
  "AgentSwarmSpec_DeepCopyInto T h x =
     (case KafkaConfig_DeepCopyInto h (ms_Kafka x) of (h1, k) \<Rightarrow>
      (case copy_slice AgentNodes un_AgentNodes zero_AgentNode (AgentNode_DeepCopyInto T) h1 (ms_Nodes x) of
         (h2, ns) \<Rightarrow> (h2, x\<lparr>ms_Kafka := k, ms_Nodes := ns\<rparr>)))"

definition AgentSwarmStatus_DeepCopyInto ::
    "('x, 'v) go_types \<Rightarrow> 'x heap \<Rightarrow> go_status \<Rightarrow> 'x heap \<times> go_status" where
  "AgentSwarmStatus_DeepCopyInto T h x =
     (case copy_slice Conditions un_Conditions (op_zero (Condition T)) (op_copy (Condition T)) h (mt_Conditions x) of
        (h1, cs) \<Rightarrow> (h1, x\<lparr>mt_Conditions := cs\<rparr>))"

definition AgentSwarm_DeepCopyInto ::
    "('x, 'v) go_types \<Rightarrow> 'x heap \<Rightarrow> 'x go_swarm \<Rightarrow> 'x heap \<times> 'x go_swarm" where
  "AgentSwarm_DeepCopyInto T h x =
     (case op_copy (ObjectMeta T) h (mw_ObjectMeta x) of (h1, m) \<Rightarrow>
      (case AgentSwarmSpec_DeepCopyInto T h1 (mw_Spec x) of (h2, s) \<Rightarrow>
       (case AgentSwarmStatus_DeepCopyInto T h2 (mw_Status x) of (h3, t) \<Rightarrow>
          (h3, x\<lparr>mw_ObjectMeta := m, mw_Spec := s, mw_Status := t\<rparr>))))"

definition AgentSwarmList_DeepCopyInto ::
    "('x, 'v) go_types \<Rightarrow> 'x heap \<Rightarrow> 'x go_swarm_list \<Rightarrow> 'x heap \<times> 'x go_swarm_list" where
  "AgentSwarmList_DeepCopyInto T h x =
     (case op_copy (ListMeta T) h (mx_ListMeta x) of (h1, m) \<Rightarrow>
      (case copy_slice AgentSwarms un_AgentSwarms (zero_AgentSwarm T) (AgentSwarm_DeepCopyInto T) h1 (mx_Items x) of
         (h2, ws) \<Rightarrow> (h2, x\<lparr>mx_ListMeta := m, mx_Items := ws\<rparr>)))"

subsection \<open>DeepCopy and DeepCopyObject\<close>

definition MCPEndpoint_DeepCopy :: "'x heap \<Rightarrow> nat option \<Rightarrow> 'x heap \<times> nat option" where
  "MCPEndpoint_DeepCopy = copy_pointer MCPEndpoints un_MCPEndpoints zero_MCPEndpoint MCPEndpoint_DeepCopyInto"

definition LLMConfig_DeepCopy :: "('x, 'v) go_types \<Rightarrow> 'x heap \<Rightarrow> nat option \<Rightarrow> 'x heap \<times> nat option" where
  "LLMConfig_DeepCopy T = copy_pointer LLMConfigs un_LLMConfigs zero_LLMConfig (LLMConfig_DeepCopyInto T)"

definition AgentNode_DeepCopy :: "('x, 'v) go_types \<Rightarrow> 'x heap \<Rightarrow> nat option \<Rightarrow> 'x heap \<times> nat option" where
  "AgentNode_DeepCopy T = copy_pointer AgentNodes un_AgentNodes zero_AgentNode (AgentNode_DeepCopyInto T)"

definition KafkaConfig_DeepCopy :: "'x heap \<Rightarrow> nat option \<Rightarrow> 'x heap \<times> nat option" where
  "KafkaConfig_DeepCopy = copy_pointer KafkaConfigs un_KafkaConfigs zero_KafkaConfig KafkaConfig_DeepCopyInto"

definition AgentSwarmSpec_DeepCopy :: "('x, 'v) go_types \<Rightarrow> 'x heap \<Rightarrow> nat option \<Rightarrow> 'x heap \<times> nat option" where
  "AgentSwarmSpec_DeepCopy T = copy_pointer Specs un_Specs zero_AgentSwarmSpec (AgentSwarmSpec_DeepCopyInto T)"

definition AgentSwarmStatus_DeepCopy :: "('x, 'v) go_types \<Rightarrow> 'x heap \<Rightarrow> nat option \<Rightarrow> 'x heap \<times> nat option" where
  "AgentSwarmStatus_DeepCopy T =
     copy_pointer Statuses un_Statuses zero_AgentSwarmStatus (AgentSwarmStatus_DeepCopyInto T)"

definition AgentSwarm_DeepCopy :: "('x, 'v) go_types \<Rightarrow> 'x heap \<Rightarrow> nat option \<Rightarrow> 'x heap \<times> nat option" where
  "AgentSwarm_DeepCopy T = copy_pointer AgentSwarms un_AgentSwarms (zero_AgentSwarm T) (AgentSwarm_DeepCopyInto T)"

definition AgentSwarmList_DeepCopy :: "('x, 'v) go_types \<Rightarrow> 'x heap \<Rightarrow> nat option \<Rightarrow> 'x heap \<times> nat option" where
  "AgentSwarmList_DeepCopy T =
     copy_pointer AgentSwarmLists un_AgentSwarmLists (zero_AgentSwarmList T) (AgentSwarmList_DeepCopyInto T)"

text \<open>A \<open>runtime.Object\<close> is nil or holds a pointer with its type; a nil pointer in it would not be
  nil.\<close>

datatype runtime_object = SwarmObject "nat option" | SwarmListObject "nat option"

definition AgentSwarm_DeepCopyObject ::
    "('x, 'v) go_types \<Rightarrow> 'x heap \<Rightarrow> nat option \<Rightarrow> 'x heap \<times> runtime_object option" where
  "AgentSwarm_DeepCopyObject T h p =
     (case AgentSwarm_DeepCopy T h p of (h', q) \<Rightarrow> (h', if q \<noteq> None then Some (SwarmObject q) else None))"

definition AgentSwarmList_DeepCopyObject ::
    "('x, 'v) go_types \<Rightarrow> 'x heap \<Rightarrow> nat option \<Rightarrow> 'x heap \<times> runtime_object option" where
  "AgentSwarmList_DeepCopyObject T h p =
     (case AgentSwarmList_DeepCopy T h p of (h', q) \<Rightarrow> (h', if q \<noteq> None then Some (SwarmListObject q) else None))"

end
