(* ===== verification/DeepCopyProps.thy ===== *)
theory DeepCopyProps
  imports DeepCopy
begin

section \<open>The generated copies are deep\<close>

text \<open>
  The copier of each type: what a value of it stands for and reaches, field by field. With copying
  functions of the libraries that are deep (the locale \<open>deep_types\<close>), all generated ones are.
\<close>

subsection \<open>Copiers\<close>

definition strings_copier :: "('x cell, slice option, string list option) copier" where
  "strings_copier = slice_copier Strings un_Strings copy_strings (plain_copier [])"

definition endpoints_copier :: "('x cell, slice option, MCPEndpoint list option) copier" where
  "endpoints_copier =
     slice_copier MCPEndpoints un_MCPEndpoints (copy_plain_slice MCPEndpoints un_MCPEndpoints zero_MCPEndpoint)
       (plain_copier zero_MCPEndpoint)"

definition llm_copier ::
    "('x, 'v) go_types \<Rightarrow> ('x cell, go_llm, 'v option mem_LLMConfig) copier" where
  "llm_copier T =
     struct zero_LLMConfig ml_APIKeySecretRef (\<lambda>p x. x\<lparr>ml_APIKeySecretRef := p\<rparr>)
       (\<lambda>x v. \<lparr>ml_BaseURL = ml_BaseURL x, ml_Model = ml_Model x, ml_APIKeySecretRef = v\<rparr>)
       (pointer_copier Selectors un_Selectors (SecretKeySelector T))"

definition node_copier ::
    "('x, 'v) go_types \<Rightarrow> ('x cell, go_node, (string list option, MCPEndpoint list option, 'v option) mem_AgentNode) copier" where
  "node_copier T =
     struct zero_AgentNode (\<lambda>x. (mn_DependsOn x, mn_MCPServices x, mn_AllowedTools x, mn_LLM x))
       (\<lambda>(d, e, t, l) x. x\<lparr>mn_DependsOn := d, mn_MCPServices := e, mn_AllowedTools := t, mn_LLM := l\<rparr>)
       (\<lambda>x (d, e, t, l). \<lparr>mn_Name = mn_Name x, mn_Type = mn_Type x, mn_Image = mn_Image x,
          mn_Instructions = mn_Instructions x, mn_DependsOn = d, mn_Replicas = mn_Replicas x,
          mn_MCPServices = e, mn_AllowedTools = t, mn_LLM = l\<rparr>)
       (both strings_copier (both endpoints_copier (both strings_copier (llm_copier T))))"

definition kafka_copier :: "('x cell, go_kafka, string list option mem_KafkaConfig) copier" where
  "kafka_copier =
     struct zero_KafkaConfig mk_Brokers (\<lambda>b x. x\<lparr>mk_Brokers := b\<rparr>) (\<lambda>x b. \<lparr>mk_Brokers = b\<rparr>) strings_copier"

definition nodes_copier where
  "nodes_copier T =
     slice_copier AgentNodes un_AgentNodes
       (copy_slice AgentNodes un_AgentNodes zero_AgentNode (op_copy (node_copier T))) (node_copier T)"

definition spec_copier where
  "spec_copier T =
     struct zero_AgentSwarmSpec (\<lambda>x. (ms_Kafka x, ms_Nodes x)) (\<lambda>(k, n) x. x\<lparr>ms_Kafka := k, ms_Nodes := n\<rparr>)
       (\<lambda>x (k, n). \<lparr>ms_Kafka = k, ms_Nodes = n\<rparr>) (both kafka_copier (nodes_copier T))"

definition status_copier where
  "status_copier T =
     struct zero_AgentSwarmStatus mt_Conditions (\<lambda>c x. x\<lparr>mt_Conditions := c\<rparr>)
       (\<lambda>x c. \<lparr>mt_Conditions = c, mt_ActiveNodes = mt_ActiveNodes x\<rparr>)
       (slice_copier Conditions un_Conditions
         (copy_slice Conditions un_Conditions (op_zero (Condition T)) (op_copy (Condition T))) (Condition T))"

definition swarm_copier where
  "swarm_copier T =
     struct (zero_AgentSwarm T) (\<lambda>x. (mw_ObjectMeta x, mw_Spec x, mw_Status x))
       (\<lambda>(m, s, t) x. x\<lparr>mw_ObjectMeta := m, mw_Spec := s, mw_Status := t\<rparr>)
       (\<lambda>x (m, s, t). \<lparr>mw_TypeMeta = mw_TypeMeta x, mw_ObjectMeta = m, mw_Spec = s, mw_Status = t\<rparr>)
       (both (ObjectMeta T) (both (spec_copier T) (status_copier T)))"

definition swarm_list_copier where
  "swarm_list_copier T =
     struct (zero_AgentSwarmList T) (\<lambda>x. (mx_ListMeta x, mx_Items x))
       (\<lambda>(m, i) x. x\<lparr>mx_ListMeta := m, mx_Items := i\<rparr>)
       (\<lambda>x (m, i). \<lparr>mx_TypeMeta = mx_TypeMeta x, mx_ListMeta = m, mx_Items = i\<rparr>)
       (both (ListMeta T) (slice_copier AgentSwarms un_AgentSwarms
         (copy_slice AgentSwarms un_AgentSwarms (zero_AgentSwarm T) (op_copy (swarm_copier T))) (swarm_copier T)))"

text \<open>They copy with the generated functions.\<close>

lemma llm_op: "op_copy (llm_copier T) = LLMConfig_DeepCopyInto T"
  by (intro ext) (simp add: llm_copier_def struct_def LLMConfig_DeepCopyInto_def pointer_copier_def)

lemma node_op: "op_copy (node_copier T) = AgentNode_DeepCopyInto T"
  by (intro ext) (simp add: node_copier_def struct_def both_def AgentNode_DeepCopyInto_def strings_copier_def
      endpoints_copier_def slice_copier_def llm_op split: prod.split)

lemma kafka_op: "op_copy kafka_copier = KafkaConfig_DeepCopyInto"
  by (intro ext) (simp add: kafka_copier_def struct_def KafkaConfig_DeepCopyInto_def strings_copier_def
      slice_copier_def)

lemma spec_op: "op_copy (spec_copier T) = AgentSwarmSpec_DeepCopyInto T"
  by (intro ext) (simp add: spec_copier_def struct_def both_def AgentSwarmSpec_DeepCopyInto_def nodes_copier_def
      slice_copier_def kafka_op node_op split: prod.split)

lemma status_op: "op_copy (status_copier T) = AgentSwarmStatus_DeepCopyInto T"
  by (intro ext) (simp add: status_copier_def struct_def AgentSwarmStatus_DeepCopyInto_def slice_copier_def)

lemma swarm_op: "op_copy (swarm_copier T) = AgentSwarm_DeepCopyInto T"
  by (intro ext) (simp add: swarm_copier_def struct_def both_def AgentSwarm_DeepCopyInto_def spec_op status_op
      split: prod.split)

lemma swarm_list_op: "op_copy (swarm_list_copier T) = AgentSwarmList_DeepCopyInto T"
  by (intro ext) (simp add: swarm_list_copier_def struct_def both_def AgentSwarmList_DeepCopyInto_def
      slice_copier_def swarm_op split: prod.split)

lemmas op_copies = llm_op node_op kafka_op spec_op status_op swarm_op swarm_list_op

lemma op_zeros:
  "op_zero (llm_copier T) = zero_LLMConfig" "op_zero (node_copier T) = zero_AgentNode"
  "op_zero kafka_copier = zero_KafkaConfig" "op_zero (spec_copier T) = zero_AgentSwarmSpec"
  "op_zero (status_copier T) = zero_AgentSwarmStatus" "op_zero (swarm_copier T) = zero_AgentSwarm T"
  "op_zero (swarm_list_copier T) = zero_AgentSwarmList T"
  by (simp_all add: llm_copier_def node_copier_def kafka_copier_def spec_copier_def status_copier_def
      swarm_copier_def swarm_list_copier_def struct_def)

subsection \<open>The contract holds\<close>

lemma strings_copies: "deep_copier strings_copier"
  unfolding strings_copier_def copy_strings_def by (rule plain_slice_copies) simp

interpretation strings: deep_copier strings_copier
  by (rule strings_copies)

interpretation endpoints: deep_copier endpoints_copier
  unfolding endpoints_copier_def by (rule plain_slice_copies) simp

interpretation kafka: deep_copier kafka_copier
  unfolding kafka_copier_def by (rule struct_copies[OF strings_copies]) simp_all

text \<open>The copying functions of the Kubernetes libraries are deep.\<close>

locale deep_types =
  fixes T :: "('x, 'v) go_types"
  assumes meta: "deep_copier (ObjectMeta T)" and list_meta: "deep_copier (ListMeta T)"
    and condition: "deep_copier (Condition T)" and selector: "deep_copier (SecretKeySelector T)"

sublocale deep_types \<subseteq> llm: deep_copier "llm_copier T"
  unfolding llm_copier_def by (rule struct_copies[OF pointer_copies[OF selector]]) simp_all

sublocale deep_types \<subseteq> node: deep_copier "node_copier T"
  unfolding node_copier_def
  by (rule struct_copies, intro both_copies strings_copies endpoints.deep_copier_axioms llm.deep_copier_axioms)
    (auto split: prod.splits)

sublocale deep_types \<subseteq> spec: deep_copier "spec_copier T"
  unfolding spec_copier_def nodes_copier_def
  by (rule struct_copies, intro both_copies kafka.deep_copier_axioms slice_copies node.deep_copier_axioms)
    (auto split: prod.splits)

sublocale deep_types \<subseteq> status: deep_copier "status_copier T"
  unfolding status_copier_def by (rule struct_copies[OF slice_copies[OF condition]]) simp_all

sublocale deep_types \<subseteq> swarm: deep_copier "swarm_copier T"
  unfolding swarm_copier_def
  by (rule struct_copies, intro both_copies meta spec.deep_copier_axioms status.deep_copier_axioms)
    (auto split: prod.splits)

sublocale deep_types \<subseteq> swarms: deep_copier "swarm_list_copier T"
  unfolding swarm_list_copier_def
  by (rule struct_copies, intro both_copies list_meta slice_copies swarm.deep_copier_axioms)
    (auto split: prod.splits)

subsection \<open>What a caller of DeepCopy gets\<close>

text \<open>The pointers the \<open>DeepCopy\<close> functions take.\<close>

definition swarm_pointer where
  "swarm_pointer T = pointer_copier AgentSwarms un_AgentSwarms (swarm_copier T)"

definition swarm_list_pointer where
  "swarm_list_pointer T = pointer_copier AgentSwarmLists un_AgentSwarmLists (swarm_list_copier T)"

lemma pointer_ops:
  "op_copy (swarm_pointer T) = AgentSwarm_DeepCopy T"
  "op_copy (swarm_list_pointer T) = AgentSwarmList_DeepCopy T"
  by (simp_all add: swarm_pointer_def swarm_list_pointer_def pointer_copier_def op_copies op_zeros
      AgentSwarm_DeepCopy_def AgentSwarmList_DeepCopy_def)

sublocale deep_types \<subseteq> swarm_p: deep_copier "swarm_pointer T"
  unfolding swarm_pointer_def by (rule pointer_copies[OF swarm.deep_copier_axioms]) simp

sublocale deep_types \<subseteq> swarms_p: deep_copier "swarm_list_pointer T"
  unfolding swarm_list_pointer_def by (rule pointer_copies[OF swarms.deep_copier_axioms]) simp

context deep_types
begin

lemmas type_copies = llm.deep_copier_axioms node.deep_copier_axioms spec.deep_copier_axioms
  status.deep_copier_axioms swarm_p.deep_copier_axioms swarms_p.deep_copier_axioms

lemmas swarm_separate = swarm_p.apart

lemmas swarm_independent = swarm_p.independent

lemmas swarms_separate = swarms_p.apart

end

text \<open>A function copies the pointers to a type deeply.\<close>

definition copies_deeply ::
    "('h list \<Rightarrow> nat option \<Rightarrow> 'h list \<times> nat option) \<Rightarrow> ('h, nat option, 'v) copier \<Rightarrow> bool" where
  "copies_deeply f c \<longleftrightarrow> deep_copier c \<and> op_copy c = f"

lemma pointer_copies_deeply:
  assumes "deep_copier c" "\<And>xs. un (mk xs) = xs"
  shows "copies_deeply (copy_pointer mk un (op_zero c) (op_copy c)) (pointer_copier mk un c)"
  using pointer_copies[OF assms] by (simp add: copies_deeply_def pointer_copier_def)

lemma kafka_copies_deeply: "copies_deeply KafkaConfig_DeepCopy (pointer_copier KafkaConfigs un_KafkaConfigs kafka_copier)"
  using pointer_copies_deeply[OF kafka.deep_copier_axioms, of un_KafkaConfigs KafkaConfigs]
  by (simp add: op_copies op_zeros KafkaConfig_DeepCopy_def)

lemma endpoint_op:
  "op_copy (plain_copier zero_MCPEndpoint) = MCPEndpoint_DeepCopyInto" "op_zero (plain_copier zero_MCPEndpoint) = zero_MCPEndpoint"
  by (simp_all add: plain_copier_def MCPEndpoint_DeepCopyInto_def fun_eq_iff)

lemma endpoint_copies_deeply:
  "copies_deeply MCPEndpoint_DeepCopy (pointer_copier MCPEndpoints un_MCPEndpoints (plain_copier zero_MCPEndpoint))"
  using pointer_copies_deeply[OF plain_copies, of un_MCPEndpoints MCPEndpoints zero_MCPEndpoint]
  by (simp add: endpoint_op MCPEndpoint_DeepCopy_def)

text \<open>C21: Every generated DeepCopy makes a deep copy, given that those of the Kubernetes types do: a
  well-formed value of each of the eight types is copied, behind a pointer, to one that stands for
  the same data and reaches newly allocated memory only, while no old memory changes.\<close>
theorem generated_copies_are_deep:
  assumes "deep_types T"
  shows "copies_deeply (AgentSwarm_DeepCopy T) (swarm_pointer T)
    \<and> copies_deeply (AgentSwarmList_DeepCopy T) (swarm_list_pointer T)
    \<and> copies_deeply (AgentSwarmSpec_DeepCopy T) (pointer_copier Specs un_Specs (spec_copier T))
    \<and> copies_deeply (AgentSwarmStatus_DeepCopy T) (pointer_copier Statuses un_Statuses (status_copier T))
    \<and> copies_deeply (AgentNode_DeepCopy T) (pointer_copier AgentNodes un_AgentNodes (node_copier T))
    \<and> copies_deeply (LLMConfig_DeepCopy T) (pointer_copier LLMConfigs un_LLMConfigs (llm_copier T))
    \<and> copies_deeply KafkaConfig_DeepCopy (pointer_copier KafkaConfigs un_KafkaConfigs kafka_copier)
    \<and> copies_deeply MCPEndpoint_DeepCopy
        (pointer_copier MCPEndpoints un_MCPEndpoints (plain_copier zero_MCPEndpoint))"
proof -
  note t = deep_types.type_copies[OF assms]
  note p = pointer_copies_deeply[OF t(1), of un_LLMConfigs LLMConfigs]
    pointer_copies_deeply[OF t(2), of un_AgentNodes AgentNodes]
    pointer_copies_deeply[OF t(3), of un_Specs Specs] pointer_copies_deeply[OF t(4), of un_Statuses Statuses]
  show ?thesis
    using p t(5,6) kafka_copies_deeply endpoint_copies_deeply
    by (intro conjI)
      (simp_all add: copies_deeply_def pointer_ops op_copies op_zeros LLMConfig_DeepCopy_def AgentNode_DeepCopy_def
        AgentSwarmSpec_DeepCopy_def AgentSwarmStatus_DeepCopy_def)
qed

text \<open>C30: Whoever changes a copied resource does not change the original, nor the other way round: after
  DeepCopy of an AgentSwarm, any writes and allocations that leave the memory from before alone,
  the copy's own included, leave the original's data as it was, and any that leave the memory
  alone that the copying allocated leave the copy's as it was.\<close>
theorem copied_swarm_is_independent:
  assumes "deep_types T" "op_valid (swarm_pointer T) h p" "AgentSwarm_DeepCopy T h p = (h', q)"
  shows "(written es \<inter> {..<length h} = {}
        \<longrightarrow> op_val (swarm_pointer T) (edits es h') p = op_val (swarm_pointer T) h p)
    \<and> (written es \<inter> {length h..<length h'} = {}
        \<longrightarrow> op_val (swarm_pointer T) (edits es h') q = op_val (swarm_pointer T) h p)"
  using deep_types.swarm_independent[OF assms(1,2), of h' q es] assms(3) by (simp add: pointer_ops)

text \<open>DeepCopyObject of a list is the interface that holds the copy, and nil, not an interface around
  a nil pointer, for nil: the copy stands for the same data, item by item, with nothing in common
  with the original, which is as it was.\<close>
theorem copied_list_object:
  assumes "deep_types T" "op_valid (swarm_list_pointer T) h p" "AgentSwarmList_DeepCopyObject T h p = (h', ob)"
  shows "(p = None \<longrightarrow> ob = None \<and> h' = h)
    \<and> (p \<noteq> None \<longrightarrow> (\<exists>q. ob = Some (SwarmListObject q) \<and> q \<noteq> None
        \<and> op_val (swarm_list_pointer T) h' q = op_val (swarm_list_pointer T) h p
        \<and> op_val (swarm_list_pointer T) h' p = op_val (swarm_list_pointer T) h p
        \<and> op_reach (swarm_list_pointer T) h' p \<inter> op_reach (swarm_list_pointer T) h' q = {}))"
proof -
  obtain h1 q where c: "AgentSwarmList_DeepCopy T h p = (h1, q)" by (cases "AgentSwarmList_DeepCopy T h p")
  then have n: "q = None \<longleftrightarrow> p = None" "p = None \<Longrightarrow> h1 = h"
    by (auto simp: AgentSwarmList_DeepCopy_def copy_pointer_def alloc_def split: option.splits prod.splits)
  from deep_types.swarms_separate[OF assms(1,2), of h1 q] c n assms(3)
  show ?thesis by (auto simp: AgentSwarmList_DeepCopyObject_def pointer_ops split: if_splits)
qed

subsection \<open>A resource in memory\<close>

text \<open>Library types whose one field is a slice of strings (the finalizers of the metadata, say).\<close>

definition slice_types :: "(slice option, string list option) go_types" where
  "slice_types =
     \<lparr>ObjectMeta = strings_copier, ListMeta = strings_copier, Condition = strings_copier,
      SecretKeySelector = strings_copier\<rparr>"

interpretation sliced: deep_types slice_types
  by (simp add: deep_types_def slice_types_def strings_copies)

text \<open>Two nodes in one array, whose dependencies are slices of one array of names, in a list of one
  swarm.\<close>

definition memory :: "slice option heap" where
  "memory =
     (let names = (\<lambda>off n. Some \<lparr>s_base = 0, s_off = off, s_len = n\<rparr>);
          node = (\<lambda>name deps. zero_AgentNode\<lparr>mn_Name := name, mn_DependsOn := deps,
            mn_LLM := zero_LLMConfig\<lparr>ml_APIKeySecretRef := Some 1\<rparr>\<rparr>);
          swarm = (zero_AgentSwarm slice_types)\<lparr>mw_ObjectMeta := names 0 1,
            mw_Spec := zero_AgentSwarmSpec\<lparr>ms_Nodes := Some \<lparr>s_base = 2, s_off = 0, s_len = 2\<rparr>\<rparr>\<rparr>
      in [Strings [''ingest'', ''fraud''], Selectors [names 1 1],
          AgentNodes [node ''fraud'' (names 0 1), node ''decision'' (names 0 2)],
          AgentSwarms [swarm],
          AgentSwarmLists [(zero_AgentSwarmList slice_types)\<lparr>mx_Items := Some \<lparr>s_base = 3, s_off = 0, s_len = 1\<rparr>\<rparr>]])"

lemma memory_valid:
  "op_valid (swarm_pointer slice_types) memory (Some 3)"
  "op_valid (swarm_list_pointer slice_types) memory (Some 4)"
  by code_simp+

theorem generated_copies_are_deep_witness:
  "op_val (swarm_pointer slice_types) (fst (AgentSwarm_DeepCopy slice_types memory (Some 3)))
      (snd (AgentSwarm_DeepCopy slice_types memory (Some 3)))
    = op_val (swarm_pointer slice_types) memory (Some 3)"
proof -
  obtain h q where c: "AgentSwarm_DeepCopy slice_types memory (Some 3) = (h, q)"
    by (cases "AgentSwarm_DeepCopy slice_types memory (Some 3)")
  from generated_copies_are_deep[OF sliced.deep_types_axioms]
  have d: "deep_copier (swarm_pointer slice_types)" "op_copy (swarm_pointer slice_types) = AgentSwarm_DeepCopy slice_types"
    unfolding copies_deeply_def by blast+
  from deep_copier.apart[OF d(1) memory_valid(1)] c show ?thesis by (simp add: d(2))
qed

theorem copied_swarm_is_independent_witness:
  "\<exists>h q. AgentSwarm_DeepCopy slice_types memory (Some 3) = (h, q)
     \<and> op_val (swarm_pointer slice_types) (edits [Write 0 (Strings [])] h) q
         = op_val (swarm_pointer slice_types) memory (Some 3)
     \<and> op_val (swarm_pointer slice_types) (edits [Write 0 (Strings [])] h) (Some 3)
         \<noteq> op_val (swarm_pointer slice_types) memory (Some 3)"
proof -
  obtain h q where c: "AgentSwarm_DeepCopy slice_types memory (Some 3) = (h, q)"
    by (cases "AgentSwarm_DeepCopy slice_types memory (Some 3)")
  have "written [Write 0 (Strings [])] \<inter> {length memory..<length h} = {}"
    by (simp add: written_def memory_def Let_def)
  with copied_swarm_is_independent[OF sliced.deep_types_axioms memory_valid(1) c]
  have "op_val (swarm_pointer slice_types) (edits [Write 0 (Strings [])] h) q
      = op_val (swarm_pointer slice_types) memory (Some 3)" by blast
  moreover have "op_val (swarm_pointer slice_types)
      (edits [Write 0 (Strings [])] (fst (AgentSwarm_DeepCopy slice_types memory (Some 3)))) (Some 3)
      \<noteq> op_val (swarm_pointer slice_types) memory (Some 3)" by code_simp
  ultimately show ?thesis using c by auto
qed

theorem copied_list_object_witness:
  "\<exists>q. snd (AgentSwarmList_DeepCopyObject slice_types memory (Some 4)) = Some (SwarmListObject q) \<and> q \<noteq> None
     \<and> op_val (swarm_list_pointer slice_types) (fst (AgentSwarmList_DeepCopyObject slice_types memory (Some 4))) q
         = op_val (swarm_list_pointer slice_types) memory (Some 4)"
  using copied_list_object[OF sliced.deep_types_axioms memory_valid(2) prod.collapse[symmetric]]
  by (simp, blast)

end
