(* ===== verification/Fleet.thy ===== *)
theory Fleet
  imports PodLaws
begin

section \<open>Several pods of one node\<close>

text \<open>
  A node with \<open>replicas\<close> greater than one runs several pods in one consumer group. They share the
  node's topics, so their actions make one trace, but each has its own memory. A \<open>member\<close> of the
  fleet is a pod with the correlation IDs its partitions give it (\<open>owns\<close>): messages are keyed with
  their ID, so all messages of one ID go to one partition. Sarama assigns partitions; what the
  model takes from it is that no two members owns an ID at the same time.

  A member starts as \<open>main\<close> does: it reads the changelog, of which it owns a part, and then
  recovers every complete join it read, its own or not, one after the other, while the others go
  on; only then it takes messages. Any member may end at any moment. A rebalance comes when every
  claim of the members in the group is at rest (Sarama ends a session when its claims have
  returned) and deals out the IDs anew, except that the ID of an unfinished join stays where it
  is: \<open>moved_partition_loses_contribution\<close> shows what happens if it does not. A member on its own
  is a pod as in \<open>PodLaws\<close>.

  The invariant is one of rely and guarantee: a step of one member puts nothing into the changelog
  about the IDs of another (\<open>spares\<close>), unless they are resolved, and that is all the invariant of
  the other relies on.
\<close>

subsection \<open>Members and their steps\<close>

record member =
  owns :: "string set"
  todo :: "string list"
  recovery :: claim
  member_pod :: pod

type_synonym fleet = "nat \<Rightarrow> member option"

text \<open>The loop of \<open>main\<close> over the joins it hydrated has no message to mark.\<close>

definition no_message :: consumer_message where
  "no_message = \<lparr>cm_topic = [], cm_partition = 0, cm_offset = 0, cm_value = []\<rparr>"

definition next_recovery :: "services \<Rightarrow> agentHandler \<Rightarrow> string \<Rightarrow> trace \<Rightarrow> claim" where
  "next_recovery svc h cid tr =
     (case fmlookup (joins h) cid of
        None \<Rightarrow> Idle
      | Some st \<Rightarrow>
          if gomap_len (received st) \<ge> length (dependsOn (cfg h))
          then Completing \<lparr>work_msg = no_message, work_cid = cid,
            work_data = Some (mergeJoinedData (visit svc tr) st)\<rparr>
          else Idle)"

definition new_member :: "services \<Rightarrow> startup \<Rightarrow> config \<Rightarrow> joins \<Rightarrow> string set \<Rightarrow> trace \<Rightarrow> member" where
  "new_member svc su c js ids tr =
     \<lparr>owns = ids, todo = visit svc tr (fmdom js), recovery = Idle,
      member_pod = new_pod (new_handler svc su c js tr)\<rparr>"

definition takes :: "member \<Rightarrow> bool" where
  "takes m \<longleftrightarrow> todo m = [] \<and> recovery m = Idle"

definition unowned :: "fleet \<Rightarrow> string set \<Rightarrow> bool" where
  "unowned fl ids \<longleftrightarrow> (\<forall>i m. fl i = Some m \<longrightarrow> owns m \<inter> ids = {})"

text \<open>A claim that has returned, or never will; an ID no unfinished join is about.\<close>

fun at_rest :: "claim \<Rightarrow> bool" where
  "at_rest Idle = True"
| "at_rest (Failing f) = True"
| "at_rest cl = False"

definition settled :: "config \<Rightarrow> trace \<Rightarrow> string \<Rightarrow> bool" where
  "settled c tr cid \<longleftrightarrow> (\<forall>s. has_source c cid s tr \<longrightarrow> resolved c cid tr)"

definition dealt :: "config \<Rightarrow> trace \<Rightarrow> fleet \<Rightarrow> (nat \<Rightarrow> string set) \<Rightarrow> bool" where
  "dealt c tr fl own \<longleftrightarrow>
     (\<forall>i m. fl i = Some m \<longrightarrow>
        (if takes m then (\<forall>k. at_rest (claims (member_pod m) k)) \<and> (\<forall>cid \<in> own i - owns m. settled c tr cid)
         else own i = owns m))
     \<and> (\<forall>i j. fl i \<noteq> None \<longrightarrow> fl j \<noteq> None \<longrightarrow> i \<noteq> j \<longrightarrow> own i \<inter> own j = {})"

inductive fleet_step :: "config \<Rightarrow> fleet \<times> trace \<Rightarrow> fleet \<times> trace \<Rightarrow> bool" for c where
  launch: "fl i = None \<Longrightarrow> (joining c \<Longrightarrow> unowned fl ids)
    \<Longrightarrow> producer_error su = None \<Longrightarrow> hydrateJoinState (kafka su) (joinStateTopic c) = Hydrated js
    \<Longrightarrow> faithful su c tr
    \<Longrightarrow> fleet_step c (fl, tr) (fl(i \<mapsto> new_member svc su c js ids tr), tr)"
| pick_join: "fl i = Some m \<Longrightarrow> todo m = cid # cids \<Longrightarrow> recovery m = Idle
    \<Longrightarrow> fleet_step c (fl, tr)
          (fl(i \<mapsto> m\<lparr>todo := cids, recovery := next_recovery svc (handler (member_pod m)) cid tr\<rparr>), tr)"
| recover: "fl i = Some m \<Longrightarrow> claim_step svc (handler (member_pod m)) (recovery m) tr = (cl, h', tr')
    \<Longrightarrow> fleet_step c (fl, tr)
          (fl(i \<mapsto> m\<lparr>recovery := cl, member_pod := (member_pod m)\<lparr>handler := h'\<rparr>\<rparr>), tr')"
| member_takes: "fl i = Some m \<Longrightarrow> takes m \<Longrightarrow> claims (member_pod m) k = Idle
    \<Longrightarrow> valid_utf8 (cm_value msg) \<Longrightarrow> given (owns m) c msg
    \<Longrightarrow> fleet_step c (fl, tr)
          (fl(i \<mapsto> m\<lparr>member_pod := (member_pod m)\<lparr>claims := (claims (member_pod m))(k := Taken msg)\<rparr>\<rparr>), tr)"
| member_works: "fl i = Some m \<Longrightarrow> takes m
    \<Longrightarrow> claim_step svc (handler (member_pod m)) (claims (member_pod m) k) tr = (cl, h', tr')
    \<Longrightarrow> fleet_step c (fl, tr)
          (fl(i \<mapsto> m\<lparr>member_pod := \<lparr>handler = h', claims = (claims (member_pod m))(k := cl)\<rparr>\<rparr>), tr')"
| rebalance: "(joining c \<Longrightarrow> dealt c tr fl own)
    \<Longrightarrow> fleet_step c (fl, tr) (\<lambda>i. map_option (\<lambda>m. m\<lparr>owns := own i\<rparr>) (fl i), tr)"
| member_ends: "fleet_step c (fl, tr) (fl(i := None), tr)"

abbreviation fleet_steps :: "config \<Rightarrow> fleet \<times> trace \<Rightarrow> fleet \<times> trace \<Rightarrow> bool" where
  "fleet_steps c \<equiv> (fleet_step c)\<^sup>*\<^sup>*"

definition no_pods :: fleet where
  "no_pods = (\<lambda>i. None)"

subsection \<open>The invariant\<close>

definition member_ok :: "config \<Rightarrow> trace \<Rightarrow> member \<Rightarrow> bool" where
  "member_ok c tr m \<longleftrightarrow> pod_inv (owns m) c (member_pod m, tr) \<and> claim_ok (owns m) c tr (recovery m)"

definition fleet_inv :: "config \<Rightarrow> fleet \<times> trace \<Rightarrow> bool" where
  "fleet_inv c s \<longleftrightarrow>
     (case s of (fl, tr) \<Rightarrow> safe c tr \<and> (\<forall>i m. fl i = Some m \<longrightarrow> member_ok c tr m)
        \<and> (joining c \<longrightarrow> (\<forall>i j m n. fl i = Some m \<longrightarrow> fl j = Some n \<longrightarrow> i \<noteq> j \<longrightarrow> owns m \<inter> owns n = {})))"

lemma fleet_inv_member: "fleet_inv c (fl, tr) \<Longrightarrow> fl i = Some m \<Longrightarrow> member_ok c tr m"
  by (auto simp: fleet_inv_def)

lemma member_ok_pod: "member_ok c tr m \<Longrightarrow> pod_ok (owns m) c (handler (member_pod m)) tr"
  by (simp add: member_ok_def pod_inv_def)

text \<open>What another member does leaves a member's invariant alone.\<close>

lemma member_ok_rely:
  assumes "member_ok c tr m" "grows c tr tr'" "joining c \<Longrightarrow> spares (owns m) c tr tr'" "safe c tr'"
  shows "member_ok c tr' m"
proof -
  have "ahead (owns m) c (handler (member_pod m)) tr'"
    using member_ok_pod[OF assms(1)] assms(2,3) grows_resolved
    unfolding pod_ok_def ahead_def spares_def by blast
  with assms claim_ok_grows[OF _ assms(2)] show ?thesis
    by (simp add: member_ok_def pod_inv_def pod_ok_def)
qed

lemma spares_mono: "spares A c tr tr' \<Longrightarrow> B \<subseteq> A \<Longrightarrow> spares B c tr tr'"
  by (auto simp: spares_def)

text \<open>One member changes and keeps what it owns; the others are spared.\<close>

lemma fleet_inv_change:
  assumes "fleet_inv c (fl, tr)" "fl i = Some m" "owns m' = owns m" "member_ok c tr' m'"
    and "grows c tr tr'" "spares (- owns m) c tr tr'"
  shows "fleet_inv c (fl(i \<mapsto> m'), tr')"
proof -
  have s: "safe c tr'" using member_ok_pod[OF assms(4)] by (simp add: pod_ok_def)
  have "member_ok c tr' n" if n: "fl j = Some n" "j \<noteq> i" for j n
  proof (rule member_ok_rely[OF fleet_inv_member[OF assms(1) n(1)] assms(5) _ s])
    assume "joining c"
    with assms(1,2) n have "owns m \<inter> owns n = {}" unfolding fleet_inv_def by fastforce
    with assms(6) show "spares (owns n) c tr tr'" by (blast intro: spares_mono)
  qed
  with assms s show ?thesis by (auto simp: fleet_inv_def)
qed

lemma wf_joins_log: "wf_joins (new_handler svc su c (log_of c tr) tr)"
  using synced_hydrated[of "new_handler svc su c (log_of c tr) tr" tr]
  by (simp add: new_handler_def log_of_def changelog_def synced_iff wf_joins_def)

lemma new_member_ok:
  assumes "safe c tr" "js = log_of c tr" "joining c \<or> js = fmempty"
  shows "member_ok c tr (new_member svc su c js ids tr)"
  using assms wf_joins_log[of svc su c tr]
  by (simp add: member_ok_def new_member_def pod_inv_def new_pod_def pod_ok_def ahead_def has_source_def new_handler_def)

lemma next_recovery_ok: "pod_ok ids c h tr \<Longrightarrow> claim_ok ids c tr (next_recovery svc h cid tr)"
  by (auto simp: next_recovery_def about_def pod_ok_def split: option.split)

text \<open>Only what a claim has taken and not recorded depends on what its pod owns.\<close>

lemma claim_ok_rest: "at_rest cl \<Longrightarrow> claim_ok ids c tr cl"
  by (cases cl) simp_all

lemma claim_ok_straight: "\<not> joining c \<Longrightarrow> claim_ok ids c tr cl = claim_ok ids' c tr cl"
  by (cases cl) (simp_all add: given_def)

lemma member_ok_dealt:
  assumes "member_ok c tr m" "fl i = Some m" "joining c \<Longrightarrow> dealt c tr fl own"
  shows "member_ok c tr (m\<lparr>owns := own i\<rparr>)"
proof (cases "joining c \<and> takes m")
  case True
  with assms(2,3) have d: "\<And>k. at_rest (claims (member_pod m) k)" "\<And>cid. cid \<in> own i - owns m \<Longrightarrow> settled c tr cid"
    by (auto simp: dealt_def)
  have "ahead (own i) c (handler (member_pod m)) tr"
    using d(2) member_ok_pod[OF assms(1)] unfolding pod_ok_def ahead_def settled_def by blast
  with True d(1) assms(1) show ?thesis
    by (simp add: member_ok_def pod_inv_def pod_ok_def claim_ok_rest takes_def)
next
  case False
  show ?thesis
  proof (cases "joining c")
    case True
    with False assms(2,3) have "own i = owns m" by (auto simp: dealt_def)
    then show ?thesis using assms(1) by simp
  next
    case False
    note same = claim_ok_straight[OF this, of "own i" _ _ "owns m"]
    show ?thesis using assms(1) False by (simp add: member_ok_def pod_inv_def pod_ok_def ahead_def same)
  qed
qed

lemma fleet_inv_dealt:
  assumes "fleet_inv c (fl, tr)" "joining c \<Longrightarrow> dealt c tr fl own"
  shows "fleet_inv c (\<lambda>i. map_option (\<lambda>m. m\<lparr>owns := own i\<rparr>) (fl i), tr)"
proof -
  have ok: "member_ok c tr (m\<lparr>owns := own i\<rparr>)" if "fl i = Some m" for i m
    by (rule member_ok_dealt[OF fleet_inv_member[OF assms(1) that] that assms(2)])
  have disj: "own i \<inter> own j = {}" if "joining c" "fl i \<noteq> None" "fl j \<noteq> None" "i \<noteq> j" for i j
    using assms(2)[OF that(1)] that(2-4) unfolding dealt_def by blast
  show ?thesis
    unfolding fleet_inv_def prod.case
  proof (intro conjI allI impI)
    show "safe c tr" using assms(1) by (simp add: fleet_inv_def)
  next
    fix i m
    assume "map_option (\<lambda>m. m\<lparr>owns := own i\<rparr>) (fl i) = Some m"
    with ok show "member_ok c tr m" by auto
  next
    fix i j m n
    assume a: "joining c" "map_option (\<lambda>m. m\<lparr>owns := own i\<rparr>) (fl i) = Some m"
      "map_option (\<lambda>m. m\<lparr>owns := own j\<rparr>) (fl j) = Some n" "i \<noteq> j"
    then have "owns m = own i" "owns n = own j" "fl i \<noteq> None" "fl j \<noteq> None" by auto
    with disj[OF a(1) _ _ a(4)] show "owns m \<inter> owns n = {}" by simp
  qed
qed

lemma fleet_inv_step:
  assumes "fleet_step c s s'" "wired c" "fleet_inv c s"
  shows "fleet_inv c s'"
  using assms(1)
proof cases
  case (launch fl i ids su js tr svc)
  let ?m = "new_member svc su c js ids tr"
  have "js = log_of c tr" using launch(6,7) by (simp add: faithful_def)
  moreover have "joining c \<or> js = fmempty"
    using assms(2) launch(6) by (auto simp: wired_def hydrateJoinState_def)
  ultimately have "member_ok c tr ?m" using new_member_ok assms(3) launch(1) by (simp add: fleet_inv_def)
  then show ?thesis
    using assms(3) launch(4) by (auto simp: fleet_inv_def launch(1,2) new_member_def unowned_def)
next
  case (pick_join fl i m cid cids tr svc)
  have m: "member_ok c tr m" using fleet_inv_member assms(3) pick_join(1,3) by blast
  note r = next_recovery_ok[OF member_ok_pod[OF m]]
  show ?thesis
    unfolding pick_join(2)
    by (rule fleet_inv_change[OF assms(3)[unfolded pick_join(1)] pick_join(3)])
      (use m r in \<open>simp_all add: member_ok_def\<close>)
next
  case (recover fl i m svc tr cl h' tr')
  have m: "member_ok c tr m" using fleet_inv_member assms(3) recover(1,3) by blast
  then have "claim_ok (owns m) c tr (recovery m)" by (simp add: member_ok_def)
  from invariant_step[OF member_ok_pod[OF m] assms(2) this, of svc] recover(4)
  have o: "pod_ok (owns m) c h' tr'" "claim_ok (owns m) c tr' cl" "grows c tr tr'" "spares (- owns m) c tr tr'"
    by (simp_all add: step_ok_def)
  with m claim_ok_grows[OF _ o(3)] have "member_ok c tr' (m\<lparr>recovery := cl, member_pod := (member_pod m)\<lparr>handler := h'\<rparr>\<rparr>)"
    by (simp add: member_ok_def pod_inv_def)
  from fleet_inv_change[OF assms(3)[unfolded recover(1)] recover(3) _ this o(3,4)]
  show ?thesis unfolding recover(2) by simp
next
  case (member_takes fl i m k msg tr)
  have m: "member_ok c tr m" using fleet_inv_member assms(3) member_takes(1,3) by blast
  show ?thesis
    unfolding member_takes(2)
    by (rule fleet_inv_change[OF assms(3)[unfolded member_takes(1)] member_takes(3)])
      (use m pod_inv_take[OF _ member_takes(6,7)] in \<open>simp_all add: member_ok_def\<close>)
next
  case (member_works fl i m svc k tr cl h' tr')
  have m: "member_ok c tr m" using fleet_inv_member assms(3) member_works(1,3) by blast
  then have "pod_inv (owns m) c (member_pod m, tr)" by (simp add: member_ok_def)
  from pod_inv_work[OF member_works(5) assms(2) this]
  have o: "pod_inv (owns m) c (\<lparr>handler = h', claims = (claims (member_pod m))(k := cl)\<rparr>, tr')"
    "grows c tr tr'" "spares (- owns m) c tr tr'" by simp_all
  with m claim_ok_grows[OF _ o(2)]
  have "member_ok c tr' (m\<lparr>member_pod := \<lparr>handler = h', claims = (claims (member_pod m))(k := cl)\<rparr>\<rparr>)"
    by (simp add: member_ok_def)
  from fleet_inv_change[OF assms(3)[unfolded member_works(1)] member_works(3) _ this o(2,3)]
  show ?thesis unfolding member_works(2) by simp
next
  case (rebalance tr fl own)
  with fleet_inv_dealt assms(3) show ?thesis by blast
next
  case (member_ends fl tr i)
  with assms(3) show ?thesis by (auto simp: fleet_inv_def split: if_splits)
qed

lemma fleet_invariant:
  assumes "fleet_steps c (no_pods, []) (fl, tr)" "wired c"
  shows "fleet_inv c (fl, tr)"
  using assms(1)
proof (induction rule: rtranclp_induct)
  case base
  show ?case by (simp add: fleet_inv_def no_pods_def)
next
  case (step s1 s2)
  from fleet_inv_step[OF step(2) assms(2) step(3)] show ?case .
qed

lemma fleet_safe: "fleet_steps c (no_pods, []) (fl, tr) \<Longrightarrow> wired c \<Longrightarrow> safe c tr"
  using fleet_invariant by (fastforce simp: fleet_inv_def)

subsection \<open>A member that works as its schedule says\<close>

lemma member_acts:
  assumes "takes m" "fl i = Some (m\<lparr>member_pod := p\<rparr>)" "act svc a (p, tr) = (p1, tr1)"
    and "\<forall>k msg. a = Take k msg \<longrightarrow> given (owns m) c msg"
  shows "fleet_step c (fl, tr) (fl(i \<mapsto> m\<lparr>member_pod := p1\<rparr>), tr1)
    \<or> fl(i \<mapsto> m\<lparr>member_pod := p1\<rparr>) = fl \<and> tr1 = tr"
proof (cases a)
  case (Take k msg)
  have t: "takes (m\<lparr>member_pod := p\<rparr>)" using assms(1) by (simp add: takes_def)
  show ?thesis
  proof (cases "claims p k = Idle \<and> valid_utf8 (cm_value msg)")
    case True
    with member_takes[where fl = fl and i = i, OF assms(2) t, of k msg c tr] Take assms(3,4) show ?thesis by auto
  next
    case False
    with Take assms(2,3) show ?thesis by (auto simp: fun_upd_idem)
  qed
next
  case (Work k)
  have t: "takes (m\<lparr>member_pod := p\<rparr>)" using assms(1) by (simp add: takes_def)
  obtain cl h1 tr2 where w: "claim_step svc (handler p) (claims p k) tr = (cl, h1, tr2)"
    by (cases "claim_step svc (handler p) (claims p k) tr")
  with member_works[where fl = fl and i = i, OF assms(2) t, of svc k tr cl h1 tr2 c] Work assms(3)
  show ?thesis by auto
qed

lemma member_scheduled:
  assumes "takes m" "\<forall>k msg. Take k msg \<in> set as \<longrightarrow> given (owns m) c msg"
  shows "fl i = Some (m\<lparr>member_pod := p\<rparr>) \<Longrightarrow> scheduled svc as (p, tr) = (p', tr')
    \<Longrightarrow> fleet_steps c (fl, tr) (fl(i \<mapsto> m\<lparr>member_pod := p'\<rparr>), tr')"
  using assms(2)
proof (induction as arbitrary: fl p tr)
  case Nil
  then show ?case by (simp add: scheduled_def fun_upd_idem)
next
  case (Cons a as)
  obtain p1 tr1 where a: "act svc a (p, tr) = (p1, tr1)" by (cases "act svc a (p, tr)")
  let ?fl = "fl(i \<mapsto> m\<lparr>member_pod := p1\<rparr>)"
  have "fleet_steps c (fl, tr) (?fl, tr1)"
    using member_acts[where c = c and fl = fl and i = i, OF assms(1) Cons.prems(1) a] Cons.prems(3) by auto
  moreover have "fleet_steps c (?fl, tr1) (?fl(i \<mapsto> m\<lparr>member_pod := p'\<rparr>), tr')"
    by (rule Cons.IH) (use Cons.prems a in \<open>auto simp: scheduled_def\<close>)
  ultimately have "fleet_steps c (fl, tr) (?fl(i \<mapsto> m\<lparr>member_pod := p'\<rparr>), tr')" by (rule rtranclp_trans)
  then show ?case by (simp only: fun_upd_upd)
qed

text \<open>A claim takes a message from its channel only.\<close>

lemma step_takes_nothing: "claim_step svc h cl tr \<noteq> (Taken msg, h', tr')"
  by (cases "(svc, h, cl, tr)" rule: claim_step.cases)
    (auto simp: incomplete_def split: prod.splits outcome.splits sum.splits option.splits send_result.splits)

lemma act_takes:
  assumes "act svc a (p, tr) = (p1, tr1)" "claims p1 k = Taken msg"
  shows "claims p k = Taken msg \<or> a = Take k msg"
  using assms step_takes_nothing
  by (cases a) (auto split: if_splits prod.splits)

end
