(* ===== verification/Outputs.thy ===== *)
theory Outputs
  imports Results Fleet
begin

section \<open>What the pods of a node publish, however they interleave\<close>

text \<open>
  \<open>Results\<close> is about the sequential handler; here are the pods of \<open>Fleet\<close>. Every record a node
  ever sends is keyed with a correlation ID that one of its messages was given (\<open>ids\<close>), and every
  record it sends to a topic that is not its changelog holds a result under that ID in the node's
  name. \<open>claim_wf\<close> is what a claim needs for it where it stands, \<open>outs_step\<close> one step of one claim,
  \<open>fleet_wf\<close> the invariant of all pods of the node.
\<close>

subsection \<open>The records of a node\<close>

definition result_of :: "config \<Rightarrow> string \<Rightarrow> string \<Rightarrow> bool" where
  "result_of c cid v \<longleftrightarrow>
     (\<exists>out. wf_object out \<and> v = marshal_envelope \<lparr>correlationID = cid, source = nodeName c, data = Some out\<rparr>)"

definition id_in :: "string set \<Rightarrow> string \<Rightarrow> bool" where
  "id_in ids cid \<longleftrightarrow> cid \<in> ids \<and> valid_utf8 cid"

definition record_ok :: "string set \<Rightarrow> config \<Rightarrow> producer_message \<Rightarrow> bool" where
  "record_ok ids c m \<longleftrightarrow> id_in ids (pm_key m)
     \<and> (pm_topic m \<noteq> joinStateTopic c \<longrightarrow> (\<exists>v. pm_value m = Some v \<and> result_of c (pm_key m) v))"

definition outs :: "string set \<Rightarrow> config \<Rightarrow> trace \<Rightarrow> bool" where
  "outs ids c tr \<longleftrightarrow> (\<forall>m a. Sent m a \<in> set tr \<longrightarrow> record_ok ids c m)"

lemma outs_empty [simp]: "outs ids c []"
  by (simp add: outs_def)

lemma outs_sent: "outs ids c tr \<Longrightarrow> record_ok ids c m \<Longrightarrow> outs ids c (tr @ [Sent m a])"
  by (auto simp: outs_def)

lemma outs_marked [simp]: "outs ids c (mark_message msg tr) = outs ids c tr"
  by (auto simp: outs_def mark_message_def)

lemma outs_asked: "outs ids c tr \<Longrightarrow> \<exists>es. tr' = tr @ es \<and> list_all asked es \<Longrightarrow> outs ids c tr'"
  unfolding outs_def using asked_sends by (metis Un_iff set_append)

subsection \<open>Claims and memory\<close>

definition reads_in :: "string set \<Rightarrow> consumer_message \<Rightarrow> bool" where
  "reads_in ids msg \<longleftrightarrow> (\<forall>e. read_as msg e \<longrightarrow> correlationID e \<in> ids)"

definition work_wf :: "string set \<Rightarrow> work \<Rightarrow> bool" where
  "work_wf ids w \<longleftrightarrow> id_in ids (work_cid w) \<and> wf_map (work_data w)"

fun claim_wf :: "string set \<Rightarrow> config \<Rightarrow> claim \<Rightarrow> bool" where
  "claim_wf ids c (Taken msg) = (valid_utf8 (cm_value msg) \<and> reads_in ids msg)"
| "claim_wf ids c (Joining msg env) =
     (id_in ids (correlationID env) \<and> valid_utf8 (source env) \<and> wf_map (data env))"
| "claim_wf ids c (Joined w ready) = (id_in ids (work_cid w) \<and> (ready \<longrightarrow> wf_map (work_data w)))"
| "claim_wf ids c (Completing w) = work_wf ids w"
| "claim_wf ids c (Asking w n ms) = work_wf ids w"
| "claim_wf ids c (Calling w n ms tcs) = work_wf ids w"
| "claim_wf ids c (Publishing w ts payload) = (work_wf ids w \<and> result_of c (work_cid w) payload)"
| "claim_wf ids c (Published w) = id_in ids (work_cid w)"
| "claim_wf ids c (Forgotten w) = id_in ids (work_cid w)"
| "claim_wf ids c other = True"

definition joins_in :: "string set \<Rightarrow> joins \<Rightarrow> bool" where
  "joins_in ids js \<longleftrightarrow> (\<forall>cid. fmlookup js cid \<noteq> None \<longrightarrow> id_in ids cid)"

definition step_wf :: "string set \<Rightarrow> config \<Rightarrow> claim \<times> agentHandler \<times> trace \<Rightarrow> bool" where
  "step_wf ids c s \<longleftrightarrow>
     (case s of (cl', h', tr') \<Rightarrow> claim_wf ids c cl' \<and> joins_in ids (joins h') \<and> outs ids c tr')"

lemma chat_reply_valid: "chat_reply svc a = Inr m \<Longrightarrow> valid_utf8 (content m)"
  using chat_reply_ok chatResponse_wf by (fastforce simp: wf_message_def)

lemma step_wf_joining:
  assumes "cfg h = c" "wf_joins h" "joins_in ids (joins h)" "outs ids c tr"
    and "claim_wf ids c (Joining msg env)"
  shows "step_wf ids c (claim_step svc h (Joining msg env) tr)"
proof (cases "isFanIn h")
  case False
  with assms show ?thesis by (simp add: join_straight step_wf_def)
next
  case True
  obtain r h' tr' where j: "join svc h env tr = (r, h', tr')" by (cases "join svc h env tr")
  have env: "id_in ids (correlationID env)" "valid_utf8 (source env)" "wf_map (data env)"
    using assms(5) by simp_all
  have m: "wf_map m" if "r = Ret (Inr (m, True))" for m
    using True j
  proof (cases rule: join_cases)
    case (recorded rcv st)
    have "wf_joinState st"
      unfolding recorded(2) by (rule wf_contribution[OF wf_known[OF assms(2)] recorded(1) env(2,3)])
    from merge_wf[OF this] recorded(3) that show ?thesis by (auto split: if_splits)
  qed (use that in auto)
  from True j show ?thesis
  proof (cases rule: join_written)
    case panic
    with j assms show ?thesis by (simp add: step_wf_def)
  next
    case (written rcv a)
    have "outs ids c tr'"
      unfolding written(3) by (rule outs_sent[OF assms(4)])
        (simp add: record_ok_def changelog_message_def env(1) assms(1))
    moreover have "joins_in ids (joins h')"
      using assms(3) env(1) by (auto simp: joins_in_def written(2) taken_def)
    ultimately show ?thesis
      using written(4) j m env(1) by (auto simp: step_wf_def)
  qed
qed

lemma step_wf_publishing:
  assumes "joins_in ids (joins h)" "outs ids c tr" "claim_wf ids c (Publishing w (t # ts) payload)"
  shows "step_wf ids c (claim_step svc h (Publishing w (t # ts) payload) tr)"
proof -
  let ?m = "\<lparr>pm_topic = t, pm_key = work_cid w, pm_value = Some payload\<rparr>"
  have "record_ok ids c ?m" using assms(3) by (simp add: record_ok_def work_wf_def)
  from outs_sent[OF assms(2) this] show ?thesis
    using assms(1,3) by (cases "answer_send svc tr ?m") (auto simp: send_message_def Let_def step_wf_def)
qed

text \<open>One step of one claim.\<close>

lemma outs_step:
  assumes "cfg h = c" "wf_joins h" "joins_in ids (joins h)" "outs ids c tr" "claim_wf ids c cl"
  shows "step_wf ids c (claim_step svc h cl tr)"
proof (cases "(svc, h, cl, tr)" rule: claim_step.cases)
  case (2 svc h msg tr)
  with assms message_wf[of msg] message_cid[of msg] show ?thesis
    by (auto simp: step_wf_def id_in_def reads_in_def)
next
  case (3 svc h msg env tr)
  with step_wf_joining assms show ?thesis by auto
next
  case (5 svc h w tr)
  with assms show ?thesis by (auto simp: step_wf_def incomplete_def split: option.split)
next
  case (7 svc h w n ms tr)
  show ?thesis
  proof (cases "llm h")
    case None
    with 7 assms show ?thesis by (auto simp: step_wf_def incomplete_def)
  next
    case (Some k)
    obtain x tr' where x: "chat svc k ms (toolSpecs h) tr = (x, tr')" by fastforce
    have o: "outs ids c tr'" using outs_asked[OF _ asked_steps(1)[OF x]] assms 7 by simp
    have "valid_utf8 (content m)" if "x = Inr m" for m
      using chat_trace[OF x] that chat_reply_valid by auto
    then have "result_of c (work_cid w) (result_payload h w (mergeFinalAnswer (work_data w) (content m)))"
      if "x = Inr m" for m
      using mergeFinalAnswer_wf[of "work_data w" "content m"] that assms 7
      by (auto simp: result_of_def result_payload_def work_wf_def)
    with o 7 assms Some x show ?thesis
      by (auto simp: step_wf_def incomplete_def split: sum.split)
  qed
next
  case (9 svc h w n ms tc tcs tr)
  obtain out tr' where o: "callToolForAgent svc h tc tr = (out, tr')" by fastforce
  from outs_asked[OF _ asked_steps(2)[OF o]] 9 assms o show ?thesis by (auto simp: step_wf_def)
next
  case (11 svc h w t ts payload tr)
  with step_wf_publishing assms show ?thesis by auto
next
  case (12 svc h w tr)
  with assms show ?thesis by (auto simp: step_wf_def joins_in_def)
next
  case (13 svc h w tr)
  with assms show ?thesis
    by (auto simp: step_wf_def tombstoneJoinState_def send_message_def Let_def record_ok_def intro!: outs_sent)
qed (use assms in \<open>auto simp: step_wf_def incomplete_def work_wf_def\<close>)

subsection \<open>All pods of the node\<close>

definition member_wf :: "string set \<Rightarrow> config \<Rightarrow> member \<Rightarrow> bool" where
  "member_wf ids c m \<longleftrightarrow> joins_in ids (joins (handler (member_pod m)))
     \<and> claim_wf ids c (recovery m) \<and> (\<forall>k. claim_wf ids c (claims (member_pod m) k))"

definition fleet_wf :: "string set \<Rightarrow> config \<Rightarrow> fleet \<times> trace \<Rightarrow> bool" where
  "fleet_wf ids c s \<longleftrightarrow>
     (case s of (fl, tr) \<Rightarrow> outs ids c tr \<and> (\<forall>i m. fl i = Some m \<longrightarrow> member_wf ids c m))"

lemma fleet_wf_change:
  "fleet_wf ids c (fl, tr) \<Longrightarrow> member_wf ids c m \<Longrightarrow> outs ids c tr' \<Longrightarrow> fleet_wf ids c (fl(i \<mapsto> m), tr')"
  by (simp add: fleet_wf_def)

lemma replay_keys:
  "fmlookup (replay js rs) k \<noteq> None \<Longrightarrow> fmlookup js k \<noteq> None \<or> k \<in> fst ` set rs"
proof (induction rs arbitrary: js)
  case (Cons r rs)
  then have "fmlookup (applyHydratedRecord js r) k \<noteq> None \<or> k \<in> fst ` set rs" by simp
  then show ?case using apply_other[of k r js] by (cases "k = fst r") auto
qed simp

lemma log_in:
  assumes "outs ids c tr"
  shows "joins_in ids (log_of c tr)"
  unfolding joins_in_def
proof (intro allI impI)
  fix k
  assume "fmlookup (log_of c tr) k \<noteq> None"
  from replay_keys[OF this[unfolded log_of_def]] obtain v where "(k, v) \<in> set (topic_records (joinStateTopic c) tr)"
    by auto
  from topic_records_sent[OF this] obtain m a where "Sent m a \<in> set tr" "k = pm_key m" by auto
  with assms show "id_in ids k" by (auto simp: outs_def record_ok_def)
qed

lemma next_recovery_wf:
  assumes "wf_joins h" "joins_in ids (joins h)"
  shows "claim_wf ids c (next_recovery svc h cid tr)"
proof -
  have "wf_joinState st" if "fmlookup (joins h) cid = Some st" for st
    using assms(1) that by (simp add: wf_joins_def)
  then show ?thesis
    using assms(2) merge_wf by (auto simp: next_recovery_def work_wf_def joins_in_def split: option.split)
qed

definition takes_from :: "(consumer_message \<Rightarrow> bool) \<Rightarrow> fleet \<Rightarrow> bool" where
  "takes_from P fl \<longleftrightarrow> (\<forall>i m k msg. fl i = Some m \<longrightarrow> claims (member_pod m) k = Taken msg \<longrightarrow> P msg)"

text \<open>The messages a step takes.\<close>

definition takes_new :: "(consumer_message \<Rightarrow> bool) \<Rightarrow> fleet \<Rightarrow> fleet \<Rightarrow> bool" where
  "takes_new P fl fl' \<longleftrightarrow> (\<forall>i m k msg. fl' i = Some m \<longrightarrow> claims (member_pod m) k = Taken msg \<longrightarrow> P msg
     \<or> (\<exists>m0. fl i = Some m0 \<and> claims (member_pod m0) k = Taken msg))"

lemma takes_new_from:
  assumes "takes_new P fl fl'" "fleet_wf ids c (fl, tr)" "\<And>msg. P msg \<Longrightarrow> reads_in ids msg"
  shows "takes_from (reads_in ids) fl'"
  unfolding takes_from_def
proof (intro allI impI)
  fix i m k msg
  assume m: "fl' i = Some m" "claims (member_pod m) k = Taken msg"
  from assms(1)[unfolded takes_new_def, rule_format, OF m] show "reads_in ids msg"
  proof
    assume "\<exists>m0. fl i = Some m0 \<and> claims (member_pod m0) k = Taken msg"
    then obtain m0 where "fl i = Some m0" "claims (member_pod m0) k = Taken msg" by blast
    moreover from this(1) assms(2) have "member_wf ids c m0" by (simp add: fleet_wf_def)
    ultimately have "claim_wf ids c (Taken msg)" unfolding member_wf_def by metis
    then show ?thesis by simp
  qed (rule assms(3))
qed

lemma fleet_wf_step:
  assumes "fleet_step c s s'" "fleet_inv c s" "fleet_wf ids c s" "takes_from (reads_in ids) (fst s')"
  shows "fleet_wf ids c s'"
  using assms(1)
proof cases
  case (launch fl i ids' su js tr svc)
  have "js = log_of c tr" using launch(6,7) by (simp add: faithful_def)
  moreover have o: "outs ids c tr" using assms(3) by (simp add: fleet_wf_def launch(1))
  ultimately have "member_wf ids c (new_member svc su c js ids' tr)"
    using log_in by (simp add: member_wf_def new_member_def new_pod_def new_handler_def)
  from fleet_wf_change[OF assms(3)[unfolded launch(1)] this o] show ?thesis by (simp add: launch(2))
next
  case (pick_join fl i m cid cids tr svc)
  have m: "member_wf ids c m" "outs ids c tr" using assms(3) pick_join(1,3) by (auto simp: fleet_wf_def)
  have "pod_ok (owns m) c (handler (member_pod m)) tr"
    using assms(2) pick_join(1,3) by (auto intro: member_ok_pod fleet_inv_member)
  with m have "claim_wf ids c (next_recovery svc (handler (member_pod m)) cid tr)"
    by (intro next_recovery_wf) (simp_all add: pod_ok_def member_wf_def)
  with m assms(3) show ?thesis
    unfolding pick_join(1,2) by (intro fleet_wf_change[OF assms(3)[unfolded pick_join(1)]]) (simp_all add: member_wf_def)
next
  case (recover fl i m svc tr cl h' tr')
  have m: "member_wf ids c m" "outs ids c tr" using assms(3) recover(1,3) by (auto simp: fleet_wf_def)
  have p: "pod_ok (owns m) c (handler (member_pod m)) tr"
    using assms(2) recover(1,3) by (auto intro: member_ok_pod fleet_inv_member)
  have "step_wf ids c (cl, h', tr')"
    unfolding recover(4)[symmetric] by (rule outs_step) (use m p in \<open>simp_all add: member_wf_def pod_ok_def\<close>)
  with m show ?thesis
    unfolding recover(1,2) by (intro fleet_wf_change[OF assms(3)[unfolded recover(1)]])
      (simp_all add: member_wf_def step_wf_def)
next
  case (member_takes fl i m k msg tr)
  have m: "member_wf ids c m" "outs ids c tr" using assms(3) member_takes(1,3) by (auto simp: fleet_wf_def)
  have "reads_in ids msg"
    using assms(4)[unfolded member_takes(2) takes_from_def, rule_format, of i _ k] by simp
  with m member_takes(6) show ?thesis
    unfolding member_takes(1,2) by (intro fleet_wf_change[OF assms(3)[unfolded member_takes(1)]])
      (simp_all add: member_wf_def)
next
  case (member_works fl i m svc k tr cl h' tr')
  have m: "member_wf ids c m" "outs ids c tr" using assms(3) member_works(1,3) by (auto simp: fleet_wf_def)
  have p: "pod_ok (owns m) c (handler (member_pod m)) tr"
    using assms(2) member_works(1,3) by (auto intro: member_ok_pod fleet_inv_member)
  have "step_wf ids c (cl, h', tr')"
    unfolding member_works(5)[symmetric] by (rule outs_step) (use m p in \<open>simp_all add: member_wf_def pod_ok_def\<close>)
  with m show ?thesis
    unfolding member_works(1,2) by (intro fleet_wf_change[OF assms(3)[unfolded member_works(1)]])
      (simp_all add: member_wf_def step_wf_def)
next
  case (rebalance tr fl own)
  with assms(3) show ?thesis by (auto simp: fleet_wf_def member_wf_def)
next
  case (member_ends fl tr i)
  with assms(3) show ?thesis by (auto simp: fleet_wf_def split: if_splits)
qed

end
