(* ===== verification/Graph.thy ===== *)
theory Graph
  imports Outputs Controller
begin

section \<open>The whole graph: messages that travel from node to node\<close>

text \<open>
  Every Worker of a swarm is a fleet of pods with a trace of its own, and the Workers act on each
  other through Kafka only: a node takes messages that hold what another node has published to its
  input topic, or what someone outside has put there (the tasks, and the answers of the people
  behind a HumanInTheLoop gate). \<open>graph_step\<close> is one step of one pod of one node. The locale
  \<open>wiring\<close> says what the nodes rely on from the operator; in it, \<open>graph_invariant\<close> carries the
  invariants of the fleets and of their outputs around the graph, and \<open>quiet_graph\<close> follows a
  correlation ID along the edges when nothing is left to consume.
\<close>

subsection \<open>Steps\<close>

type_synonym world = "AgentNode \<Rightarrow> fleet \<times> trace"

text \<open>The payloads in a node's input topic: those from outside, and those of the other nodes.\<close>

definition offers ::
    "AgentNode set \<Rightarrow> (AgentNode \<Rightarrow> config) \<Rightarrow> (AgentNode \<Rightarrow> string set) \<Rightarrow> world \<Rightarrow> AgentNode \<Rightarrow> string set" where
  "offers ws cf outside w n =
     outside n \<union> {v. \<exists>m \<in> ws. \<exists>k. (k, Some v) \<in> set (topic_records (inputTopic (cf n)) (snd (w m)))}"

inductive graph_step ::
    "AgentNode set \<Rightarrow> (AgentNode \<Rightarrow> config) \<Rightarrow> (AgentNode \<Rightarrow> string set) \<Rightarrow> world \<Rightarrow> world \<Rightarrow> bool"
  for ws cf outside where
  node_acts: "n \<in> ws \<Longrightarrow> fleet_step (cf n) (w n) s
    \<Longrightarrow> takes_new (\<lambda>msg. cm_value msg \<in> offers ws cf outside w n) (fst (w n)) (fst s)
    \<Longrightarrow> graph_step ws cf outside w (w(n := s))"

abbreviation graph_steps ::
    "AgentNode set \<Rightarrow> (AgentNode \<Rightarrow> config) \<Rightarrow> (AgentNode \<Rightarrow> string set) \<Rightarrow> world \<Rightarrow> world \<Rightarrow> bool" where
  "graph_steps ws cf outside \<equiv> (graph_step ws cf outside)\<^sup>*\<^sup>*"

definition empty_world :: world where
  "empty_world = (\<lambda>n. (no_pods, []))"

text \<open>Nothing is left to consume: each payload is that of a marked message.\<close>

definition drained :: "AgentNode set \<Rightarrow> (AgentNode \<Rightarrow> config) \<Rightarrow> (AgentNode \<Rightarrow> string set) \<Rightarrow> world \<Rightarrow> bool" where
  "drained ws cf outside w \<longleftrightarrow>
     (\<forall>n \<in> ws. \<forall>v \<in> offers ws cf outside w n. \<exists>msg. cm_value msg = v \<and> Marked msg \<in> set (snd (w n)))"

text \<open>The correlation IDs a payload from outside can be read with.\<close>

definition outside_ids :: "AgentNode set \<Rightarrow> (AgentNode \<Rightarrow> string set) \<Rightarrow> string set" where
  "outside_ids ws outside =
     {correlationID e | e n msg. n \<in> ws \<and> cm_value msg \<in> outside n \<and> read_as msg e}"

text \<open>A complete join is in the changelog: the next pod to start completes it.\<close>

definition waits :: "config \<Rightarrow> string \<Rightarrow> trace \<Rightarrow> bool" where
  "waits c cid tr \<longleftrightarrow> joining c
     \<and> (\<exists>st. fmlookup (log_of c tr) cid = Some st \<and> length (dependsOn c) \<le> gomap_len (received st))"

text \<open>Someone outside has put a contribution of \<open>src\<close> into the node's topic.\<close>

definition contributed :: "string set \<Rightarrow> string \<Rightarrow> string \<Rightarrow> bool" where
  "contributed vs cid src \<longleftrightarrow>
     (\<exists>msg e. cm_value msg \<in> vs \<and> enveloped msg e \<and> correlationID e = cid \<and> source e = src)"

definition edges :: "AgentNode set \<Rightarrow> (AgentNode \<Rightarrow> config) \<Rightarrow> (AgentNode \<times> AgentNode) set" where
  "edges ws cf = {(m, n). m \<in> ws \<and> n \<in> ws \<and> nodeName (cf m) \<in> set (dependsOn (cf n))}"

subsection \<open>What a message is read as\<close>

lemma read_as_value: "cm_value msg = cm_value msg' \<Longrightarrow> read_as msg e \<Longrightarrow> read_as msg' e"
  by (auto simp: read_as_def message_envelope_def)

lemma read_as_nonempty: "read_as msg e \<Longrightarrow> correlationID e \<noteq> []"
  using message_cid_nonempty by (auto simp: read_as_def)

lemma enveloped_value: "cm_value msg = cm_value msg' \<Longrightarrow> enveloped msg e \<Longrightarrow> enveloped msg' e"
  by (simp add: enveloped_def)

lemma result_enveloped:
  assumes "result_of c cid (cm_value msg)" "valid_utf8 cid" "cid \<noteq> []" "valid_utf8 (nodeName c)"
  shows "\<exists>e. enveloped msg e \<and> correlationID e = cid \<and> source e = nodeName c"
proof -
  from assms(1) obtain out where "wf_object out"
    "cm_value msg = marshal_envelope \<lparr>correlationID = cid, source = nodeName c, data = Some out\<rparr>"
    by (auto simp: result_of_def)
  with assms(2-4) show ?thesis
    by (intro exI[of _ "\<lparr>correlationID = cid, source = nodeName c, data = Some out\<rparr>"])
      (simp add: enveloped_def wf_envelope_def)
qed

lemma safe_marked:
  assumes "safe c tr" "Marked msg \<in> set tr" "enveloped msg e"
  shows "secured c (correlationID e) (source e) tr"
  using assms by (auto simp: safe_def read_as_enveloped)

lemma outside_id_nonempty: "cid \<in> outside_ids ws outside \<Longrightarrow> cid \<noteq> []"
  using read_as_nonempty by (auto simp: outside_ids_def)

text \<open>A record of a topic that is no changelog.\<close>

lemma record_result:
  assumes "outs ids c tr" "(k, Some v) \<in> set (topic_records t tr)" "t \<noteq> joinStateTopic c"
  shows "id_in ids k \<and> result_of c k v"
proof -
  from topic_records_sent[OF assms(2)] obtain m a where
    "Sent m a \<in> set tr" "k = pm_key m" "pm_value m = Some v" "pm_topic m = t" by auto
  with assms(1,3) show ?thesis by (fastforce simp: outs_def record_ok_def)
qed

text \<open>A join all of whose dependencies have contributed is complete.\<close>

lemma sources_complete:
  assumes "\<forall>s \<in> set (dependsOn c). has_source c cid s tr" "distinct (dependsOn c)" "dependsOn c \<noteq> []"
  shows "\<exists>st. fmlookup (log_of c tr) cid = Some st \<and> length (dependsOn c) \<le> gomap_len (received st)"
proof -
  from assms(1,3) obtain st where st: "fmlookup (log_of c tr) cid = Some st"
    by (fastforce simp: has_source_def neq_Nil_conv)
  have "set (dependsOn c) \<subseteq> fset (fmdom (entries (received st)))"
    using assms(1) st by (auto simp: has_source_def intro: fmdomI)
  from card_mono[OF _ this] assms(2) have "length (dependsOn c) \<le> gomap_len (received st)"
    by (simp add: distinct_card gomap_len_def)
  with st show ?thesis by blast
qed

subsection \<open>What the nodes rely on\<close>

locale wiring =
  fixes ws :: "AgentNode set" and cf :: "AgentNode \<Rightarrow> config"
  assumes wired_node: "n \<in> ws \<Longrightarrow> wired (cf n)"
    and named: "n \<in> ws \<Longrightarrow> valid_utf8 (nodeName (cf n))"
    and no_changelog_input: "m \<in> ws \<Longrightarrow> n \<in> ws \<Longrightarrow> inputTopic (cf n) \<noteq> joinStateTopic (cf m)"
    and edge_output: "m \<in> ws \<Longrightarrow> n \<in> ws \<Longrightarrow> nodeName (cf m) \<in> set (dependsOn (cf n))
      \<Longrightarrow> inputTopic (cf n) \<in> set (outputTopics (cf m))"
begin

definition world_ok :: "(AgentNode \<Rightarrow> string set) \<Rightarrow> world \<Rightarrow> bool" where
  "world_ok outside w \<longleftrightarrow>
     (\<forall>n \<in> ws. fleet_inv (cf n) (w n) \<and> fleet_wf (outside_ids ws outside) (cf n) (w n))"

lemma world_outs: "world_ok outside w \<Longrightarrow> n \<in> ws \<Longrightarrow> outs (outside_ids ws outside) (cf n) (snd (w n))"
  by (cases "w n") (auto simp: world_ok_def fleet_wf_def)

lemma world_safe: "world_ok outside w \<Longrightarrow> n \<in> ws \<Longrightarrow> safe (cf n) (snd (w n))"
  by (cases "w n") (auto simp: world_ok_def fleet_inv_def)

lemma offered_reads:
  assumes "world_ok outside w" "n \<in> ws" "cm_value msg \<in> offers ws cf outside w n"
  shows "reads_in (outside_ids ws outside) msg"
proof (cases "cm_value msg \<in> outside n")
  case True
  with assms(2) show ?thesis by (auto simp: reads_in_def outside_ids_def)
next
  case False
  with assms(3) obtain m k where m: "m \<in> ws" "(k, Some (cm_value msg)) \<in> set (topic_records (inputTopic (cf n)) (snd (w m)))"
    by (auto simp: offers_def)
  note r = record_result[OF world_outs[OF assms(1) m(1)] m(2) no_changelog_input[OF m(1) assms(2)]]
  then have "k \<in> outside_ids ws outside" "valid_utf8 k" by (simp_all add: id_in_def)
  with r result_enveloped named[OF m(1)] outside_id_nonempty
  obtain e where "enveloped msg e" "correlationID e \<in> outside_ids ws outside" by metis
  then show ?thesis by (auto simp: reads_in_def read_as_enveloped)
qed

lemma world_step:
  assumes "graph_step ws cf outside w w'" "world_ok outside w"
  shows "world_ok outside w'"
  using assms(1)
proof cases
  case (node_acts n s)
  have i: "fleet_inv (cf n) (w n)" "fleet_wf (outside_ids ws outside) (cf n) (w n)"
    using assms(2) node_acts(2) by (auto simp: world_ok_def)
  have t: "takes_from (reads_in (outside_ids ws outside)) (fst s)"
  proof (rule takes_new_from[OF node_acts(4)])
    show "fleet_wf (outside_ids ws outside) (cf n) (fst (w n), snd (w n))" using i(2) by simp
  qed (rule offered_reads[OF assms(2) node_acts(2)])
  from fleet_inv_step[OF node_acts(3) wired_node[OF node_acts(2)] i(1)]
    fleet_wf_step[OF node_acts(3) i t] assms(2)
  show ?thesis by (simp add: world_ok_def node_acts(1))
qed

lemma graph_invariant: "graph_steps ws cf outside empty_world w \<Longrightarrow> world_ok outside w"
proof (induction rule: rtranclp_induct)
  case base
  show ?case by (simp add: world_ok_def empty_world_def fleet_inv_def fleet_wf_def no_pods_def)
next
  case (step w w')
  from world_step[OF step(2,3)] show ?case .
qed

text \<open>What a node has published for a correlation ID has reached each of its dependents.\<close>

lemma edge_secures:
  assumes "world_ok outside w" "drained ws cf outside w" "(m, n) \<in> edges ws cf" "resolved (cf m) cid (snd (w m))"
  shows "secured (cf n) cid (nodeName (cf m)) (snd (w n))"
proof -
  have mn: "m \<in> ws" "n \<in> ws" "nodeName (cf m) \<in> set (dependsOn (cf n))"
    using assms(3) by (auto simp: edges_def)
  from assms(4) edge_output[OF mn] obtain v where
    "Sent \<lparr>pm_topic = inputTopic (cf n), pm_key = cid, pm_value = Some v\<rparr> Acked \<in> set (snd (w m))"
    by (auto simp: resolved_def)
  then have v: "(cid, Some v) \<in> set (topic_records (inputTopic (cf n)) (snd (w m)))"
    by (force simp: topic_records_def)
  note r = record_result[OF world_outs[OF assms(1) mn(1)] v no_changelog_input[OF mn(1,2)]]
  have "v \<in> offers ws cf outside w n" using v mn(1) by (auto simp: offers_def)
  with assms(2) mn(2) obtain msg where msg: "cm_value msg = v" "Marked msg \<in> set (snd (w n))"
    by (auto simp: drained_def)
  from r have "cid \<noteq> []" "valid_utf8 cid" using outside_id_nonempty by (auto simp: id_in_def)
  with r msg(1) result_enveloped[OF _ _ _ named[OF mn(1)]]
  obtain e where "enveloped msg e" "correlationID e = cid" "source e = nodeName (cf m)" by metis
  with safe_marked[OF world_safe[OF assms(1) mn(2)] msg(2)] show ?thesis by metis
qed

lemma contributed_secures:
  assumes "world_ok outside w" "drained ws cf outside w" "n \<in> ws" "contributed (outside n) cid s"
  shows "secured (cf n) cid s (snd (w n))"
proof -
  from assms(4) obtain msg e where e: "cm_value msg \<in> outside n" "enveloped msg e" "correlationID e = cid" "source e = s"
    by (auto simp: contributed_def)
  then have "cm_value msg \<in> offers ws cf outside w n" by (simp add: offers_def)
  with assms(2,3) obtain msg' where m: "cm_value msg' = cm_value msg" "Marked msg' \<in> set (snd (w n))"
    by (auto simp: drained_def)
  from safe_marked[OF world_safe[OF assms(1,3)] m(2) enveloped_value[OF m(1)[symmetric] e(2)]] e
  show ?thesis by simp
qed

text \<open>A task at a node without dependencies: it is read in one way, and that is resolved.\<close>

lemma root_resolves:
  assumes "world_ok outside w" "drained ws cf outside w" "n \<in> ws" "dependsOn (cf n) = []"
    and "cm_value msg \<in> outside n"
  shows "\<exists>e. read_as msg e \<and> resolved (cf n) (correlationID e) (snd (w n))"
proof -
  have "cm_value msg \<in> offers ws cf outside w n" using assms(5) by (simp add: offers_def)
  with assms(2,3) obtain msg' where m: "cm_value msg' = cm_value msg" "Marked msg' \<in> set (snd (w n))"
    by (auto simp: drained_def)
  with world_safe[OF assms(1,3)] obtain e where
    "read_as msg' e" "secured (cf n) (correlationID e) (source e) (snd (w n))"
    by (auto simp: safe_def)
  with read_as_value[OF m(1)] assms(4) show ?thesis by (auto simp: secured_def joining_def)
qed

text \<open>Along the edges: a node is resolved when its roots are, unless a complete join waits.\<close>

lemma quiet_graph:
  assumes "world_ok outside w" "drained ws cf outside w" "finite ws" "acyclic (edges ws cf)"
    and "\<forall>n \<in> ws. distinct (dependsOn (cf n))"
    and "\<forall>n \<in> ws. dependsOn (cf n) = [] \<longrightarrow> resolved (cf n) cid (snd (w n))"
    and "\<forall>n \<in> ws. \<forall>d \<in> set (dependsOn (cf n)). (\<exists>m \<in> ws. nodeName (cf m) = d) \<or> contributed (outside n) cid d"
    and "\<forall>n \<in> ws. \<not> waits (cf n) cid (snd (w n))" "n \<in> ws"
  shows "resolved (cf n) cid (snd (w n))"
proof -
  have "finite (edges ws cf)"
    by (rule finite_subset[of _ "ws \<times> ws"]) (use assms(3) in \<open>auto simp: edges_def\<close>)
  then have "wf (edges ws cf)" using assms(4) by (rule finite_acyclic_wf)
  then show ?thesis
    using assms(9)
  proof (induction n rule: wf_induct_rule)
    case (less n)
    have s: "secured (cf n) cid d (snd (w n))" if "d \<in> set (dependsOn (cf n))" for d
      using assms(7)[rule_format, OF less.prems that]
    proof
      assume "\<exists>m \<in> ws. nodeName (cf m) = d"
      then obtain m where "m \<in> ws" and md: "nodeName (cf m) = d" by blast
      then have m: "(m, n) \<in> edges ws cf" using less.prems that by (simp add: edges_def)
      then have "resolved (cf m) cid (snd (w m))" using less.IH[OF m] \<open>m \<in> ws\<close> by simp
      from edge_secures[OF assms(1,2) m this] md show ?thesis by simp
    qed (rule contributed_secures[OF assms(1,2) less.prems])
    show ?case
    proof (rule ccontr)
      assume r: "\<not> resolved (cf n) cid (snd (w n))"
      with assms(6) less.prems have ne: "dependsOn (cf n) \<noteq> []" by blast
      from s r have src: "\<forall>d \<in> set (dependsOn (cf n)). has_source (cf n) cid d (snd (w n))"
        and j: "joining (cf n)" using s[OF hd_in_set[OF ne]] by (auto simp: secured_def)
      have "waits (cf n) cid (snd (w n))"
        using sources_complete[OF src _ ne] assms(5) less.prems j by (simp add: waits_def)
      with assms(8) less.prems show False by blast
    qed
  qed
qed

end

subsection \<open>A node that works as its schedule says\<close>

text \<open>The payloads a node is offered by others.\<close>

definition offers_from_others ::
    "AgentNode set \<Rightarrow> (AgentNode \<Rightarrow> config) \<Rightarrow> (AgentNode \<Rightarrow> string set) \<Rightarrow> world \<Rightarrow> AgentNode \<Rightarrow> string set" where
  "offers_from_others ws cf outside w n = offers (ws - {n}) cf outside w n"

lemma offers_from_others_upd [simp]:
  "offers_from_others ws cf outside (w(n := s)) n = offers_from_others ws cf outside w n"
  by (auto simp: offers_from_others_def offers_def)

lemma others_offer: "v \<in> offers_from_others ws cf outside w n \<Longrightarrow> v \<in> offers ws cf outside w n"
  by (auto simp: offers_from_others_def offers_def)

lemma graph_scheduled:
  assumes "n \<in> ws" "takes m"
    and "\<forall>k msg. Take k msg \<in> set as \<longrightarrow>
      given (owns m) (cf n) msg \<and> cm_value msg \<in> offers_from_others ws cf outside w n"
    and "w n = (fl, tr)" "fl i = Some (m\<lparr>member_pod := p\<rparr>)" "scheduled svc as (p, tr) = (p', tr')"
  shows "graph_steps ws cf outside w (w(n := (fl(i \<mapsto> m\<lparr>member_pod := p'\<rparr>), tr')))"
  using assms(3-)
proof (induction as arbitrary: w fl p tr)
  case Nil
  then have "w(n := (fl(i \<mapsto> m\<lparr>member_pod := p'\<rparr>), tr')) = w" by (simp add: scheduled_def fun_upd_idem)
  then show ?case by (simp only: rtranclp.rtrancl_refl)
next
  case (Cons a as)
  obtain p1 tr1 where a: "act svc a (p, tr) = (p1, tr1)" by (cases "act svc a (p, tr)")
  let ?fl = "fl(i \<mapsto> m\<lparr>member_pod := p1\<rparr>)"
  let ?w = "w(n := (?fl, tr1))"
  have t: "takes_new (\<lambda>msg. cm_value msg \<in> offers ws cf outside w n) fl ?fl"
    unfolding takes_new_def
  proof (intro allI impI)
    fix j q k msg
    assume q: "?fl j = Some q" "claims (member_pod q) k = Taken msg"
    show "cm_value msg \<in> offers ws cf outside w n
        \<or> (\<exists>m0. fl j = Some m0 \<and> claims (member_pod m0) k = Taken msg)"
    proof (cases "j = i")
      case True
      with q have "claims p1 k = Taken msg" by auto
      from act_takes[OF a this] Cons.prems(1,3) True show ?thesis by (auto intro: others_offer)
    qed (use q in simp)
  qed
  have "fleet_step (cf n) (w n) (?fl, tr1) \<or> ?w = w"
    using member_acts[where c = "cf n" and fl = fl and i = i, OF assms(2) Cons.prems(3) a] Cons.prems(1,2)
    by (auto simp: fun_upd_idem)
  then have one: "graph_steps ws cf outside w ?w"
  proof
    assume s: "fleet_step (cf n) (w n) (?fl, tr1)"
    have "takes_new (\<lambda>msg. cm_value msg \<in> offers ws cf outside w n) (fst (w n)) (fst (?fl, tr1))"
      using t Cons.prems(2) by simp
    from node_acts[OF assms(1) s this] show ?thesis by blast
  qed simp
  have sch: "scheduled svc as (p1, tr1) = (p', tr')" using Cons.prems(4) a by (simp add: scheduled_def)
  have g: "\<forall>k msg. Take k msg \<in> set as \<longrightarrow>
      given (owns m) (cf n) msg \<and> cm_value msg \<in> offers_from_others ws cf outside ?w n"
    unfolding offers_from_others_upd using Cons.prems(1) by simp
  have wn: "?w n = (?fl, tr1)" by (rule fun_upd_same)
  have "graph_steps ws cf outside ?w (?w(n := (?fl(i \<mapsto> m\<lparr>member_pod := p'\<rparr>), tr')))"
    by (rule Cons.IH[OF g wn fun_upd_same sch])
  with one have "graph_steps ws cf outside w (?w(n := (?fl(i \<mapsto> m\<lparr>member_pod := p'\<rparr>), tr')))"
    by (rule rtranclp_trans)
  then show ?case by (simp only: fun_upd_upd)
qed

lemma offered_by:
  "m \<in> ws \<Longrightarrow> m \<noteq> n \<Longrightarrow> Some v \<in> snd ` set (topic_records (inputTopic (cf n)) (snd (w m)))
     \<Longrightarrow> v \<in> offers_from_others ws cf outside w n"
  by (fastforce simp: offers_from_others_def offers_def)

lemma offered_outside: "v \<in> outside n \<Longrightarrow> v \<in> offers_from_others ws cf outside w n"
  by (simp add: offers_from_others_def offers_def)

text \<open>The first pod of a node, which works alone.\<close>

lemma first_pod_runs:
  assumes "n \<in> ws" "w n = (no_pods, [])" "producer_error su = None"
    and "hydrateJoinState (kafka su) (joinStateTopic (cf n)) = Hydrated fmempty"
    and "visit svc [] (fmdom (fmempty :: joins)) = []"
    and "\<forall>k msg. Take k msg \<in> set as \<longrightarrow> cm_value msg \<in> offers_from_others ws cf outside w n"
  shows "\<exists>fl. graph_steps ws cf outside w
    (w(n := (fl, snd (scheduled svc as (new_pod (new_handler svc su (cf n) fmempty []), [])))))"
proof -
  let ?m = "new_member svc su (cf n) fmempty UNIV []"
  let ?fl = "no_pods(0 \<mapsto> ?m)"
  let ?w = "w(n := (?fl, []))"
  have f: "faithful su (cf n) []" using assms(4) by (simp add: faithful_def log_of_def)
  have "fleet_step (cf n) (no_pods, []) (?fl, [])"
    by (rule launch[OF _ _ assms(3,4) f]) (simp_all add: no_pods_def unowned_def)
  moreover have "takes_new P no_pods ?fl" for P
    by (simp add: takes_new_def no_pods_def new_member_def new_pod_def)
  ultimately have one: "graph_steps ws cf outside w ?w"
    using node_acts[of n ws cf w "(?fl, [])" outside] assms(1,2) by auto
  obtain p' tr' where s: "scheduled svc as (member_pod ?m, []) = (p', tr')" by fastforce
  have t: "takes ?m" using assms(5) by (simp add: takes_def new_member_def)
  have self: "?fl 0 = Some (?m\<lparr>member_pod := member_pod ?m\<rparr>)" by simp
  have g: "\<forall>k msg. Take k msg \<in> set as \<longrightarrow>
      given (owns ?m) (cf n) msg \<and> cm_value msg \<in> offers_from_others ws cf outside ?w n"
    using assms(6) unfolding offers_from_others_upd by (simp add: new_member_def)
  have "graph_steps ws cf outside ?w (?w(n := (?fl(0 \<mapsto> ?m\<lparr>member_pod := p'\<rparr>), tr')))"
    by (rule graph_scheduled[OF assms(1) t g fun_upd_same self s])
  with one have "graph_steps ws cf outside w (?w(n := (?fl(0 \<mapsto> ?m\<lparr>member_pod := p'\<rparr>), tr')))"
    by (rule rtranclp_trans)
  moreover have "tr' = snd (scheduled svc as (new_pod (new_handler svc su (cf n) fmempty []), []))"
    using s by (simp add: new_member_def)
  ultimately show ?thesis unfolding fun_upd_upd by blast
qed

end
