(* ===== verification/GraphProps.thy ===== *)
theory GraphProps
  imports Graph Deployed
begin

section \<open>The graph of a deployed swarm\<close>

text \<open>
  The wiring of \<open>Graph\<close> is what the operator's environments give the runners. Then: where the
  correlation IDs in a swarm come from, and that a task is finished at every node once nothing is
  left to consume.
\<close>

subsection \<open>The nodes of a deployed swarm\<close>

lemma deployed_config:
  assumes "plain_swarm swarm" "node \<in> set (spec_Nodes (swarm_Spec swarm))"
    and "provides secrets (node_env swarm node) getenv"
  shows "dependsOn (loadConfig getenv) = node_DependsOn node"
    "joinStateTopic (loadConfig getenv) = join_topic_of swarm node"
    "is_fan_in node \<Longrightarrow> fan_in_node (loadConfig getenv)"
proof -
  have c: "loadConfig getenv = node_config secrets swarm node" by (rule loadConfig_deployed[OF assms])
  then show "dependsOn (loadConfig getenv) = node_DependsOn node"
    "joinStateTopic (loadConfig getenv) = join_topic_of swarm node"
    by (simp_all add: node_config_def)
  assume "is_fan_in node"
  then have "join_topic_of swarm node \<noteq> []" by (simp add: join_topic_of_def join_topic_name_def)
  with join_topic_not_output[of swarm node] c show "fan_in_node (loadConfig getenv)"
    by (simp add: fan_in_node_def node_config_def)
qed

lemma deployed_wired:
  assumes "plain_swarm swarm" "node \<in> set (spec_Nodes (swarm_Spec swarm))"
    and "provides secrets (node_env swarm node) getenv"
  shows "wired (loadConfig getenv)" "joining (loadConfig getenv) \<longleftrightarrow> is_fan_in node"
  using deployed_config[OF assms] join_topic_not_output[of swarm node] loadConfig_deployed[OF assms]
  by (auto simp: wired_def joining_def is_fan_in_def join_topic_of_def join_topic_name_def node_config_def)

lemma deployed_roles:
  assumes "plain_swarm swarm" "node \<in> set (spec_Nodes (swarm_Spec swarm))"
    and "provides secrets (node_env swarm node) getenv"
  shows "nodeName (loadConfig getenv) = node_Name node"
    "inputTopic (loadConfig getenv) = input_topic_name (swarm_Name swarm) (node_Name node)"
    "outputTopics (loadConfig getenv) = node_outputs swarm node"
  using loadConfig_deployed[OF assms] by (simp_all add: node_config_def)

text \<open>No node publishes into, or consumes, a changelog.\<close>

lemma input_not_changelog: "input_topic_name s n \<noteq> join_topic_of swarm node"
proof (cases "is_fan_in node")
  case True
  then show ?thesis using topic_kinds_disjoint[of s n] by (simp add: join_topic_of_def)
next
  case False
  then show ?thesis by (simp add: join_topic_of_def input_topic_name_def)
qed

text \<open>An edge of the graph is an output topic.\<close>

lemma edge_topic:
  "m \<in> set (spec_Nodes (swarm_Spec swarm)) \<Longrightarrow> node_Name n \<in> set (node_DependsOn m)
     \<Longrightarrow> input_topic_name (swarm_Name swarm) (node_Name m) \<in> set (node_outputs swarm n)"
  by (auto simp: node_outputs_def in_downstream intro!: imageI)

subsection \<open>The wiring of a swarm\<close>

definition workers :: "AgentSwarm \<Rightarrow> AgentNode set" where
  "workers swarm = {n \<in> set (spec_Nodes (swarm_Spec swarm)). node_Type n \<noteq> NodeTypeHITL}"

definition configs :: "(AgentNode \<Rightarrow> string \<Rightarrow> string) \<Rightarrow> AgentNode \<Rightarrow> config" where
  "configs env n = loadConfig (env n)"

text \<open>The pods of every Worker have the environment of its Deployment, and the names differ (nodes
  of one name would share a Deployment and a topic).\<close>

definition deployed_swarm ::
    "(secretKeySelector \<Rightarrow> string) \<Rightarrow> AgentSwarm \<Rightarrow> (AgentNode \<Rightarrow> string \<Rightarrow> string) \<Rightarrow> bool" where
  "deployed_swarm secrets swarm env \<longleftrightarrow>
     plain_swarm swarm \<and> distinct (map node_Name (spec_Nodes (swarm_Spec swarm)))
     \<and> (\<forall>n \<in> workers swarm. valid_utf8 (node_Name n) \<and> provides secrets (node_env swarm n) (env n))"

lemma deployed_worker:
  assumes "deployed_swarm secrets swarm env" "n \<in> workers swarm"
  shows "plain_swarm swarm" "n \<in> set (spec_Nodes (swarm_Spec swarm))"
    "provides secrets (node_env swarm n) (env n)"
  using assms by (auto simp: deployed_swarm_def workers_def)

lemma deployed_node:
  assumes "deployed_swarm secrets swarm env" "n \<in> workers swarm"
  shows "nodeName (configs env n) = node_Name n" "dependsOn (configs env n) = node_DependsOn n"
    "inputTopic (configs env n) = input_topic_name (swarm_Name swarm) (node_Name n)"
    "outputTopics (configs env n) = node_outputs swarm n"
    "joinStateTopic (configs env n) = join_topic_of swarm n"
  using deployed_roles[OF deployed_worker[OF assms]] deployed_config(1,2)[OF deployed_worker[OF assms]]
  by (simp_all add: configs_def)

theorem deployed_wiring:
  assumes "deployed_swarm secrets swarm env"
  shows "wiring (workers swarm) (configs env)"
proof
  fix n
  assume n: "n \<in> workers swarm"
  show "wired (configs env n)"
    unfolding configs_def by (rule deployed_wired(1)[OF deployed_worker[OF assms n]])
  show "valid_utf8 (nodeName (configs env n))"
    using assms n deployed_node(1)[OF assms n] by (auto simp: deployed_swarm_def)
  fix m
  assume m: "m \<in> workers swarm"
  show "inputTopic (configs env n) \<noteq> joinStateTopic (configs env m)"
    using input_not_changelog by (simp add: deployed_node[OF assms] m n)
  assume "nodeName (configs env m) \<in> set (dependsOn (configs env n))"
  then show "inputTopic (configs env n) \<in> set (outputTopics (configs env m))"
    using edge_topic deployed_worker(2)[OF assms n] by (simp add: deployed_node[OF assms] m n)
qed

subsection \<open>The operator deploys the graph\<close>

lemma provisioned_container:
  assumes "operator_platform pf topics deployments" "get_swarm pf key w = (Inr swarm, w1)"
    and "distinct (map node_Name (spec_Nodes (swarm_Spec swarm)))" "Reconcile pf key w = (None, w')"
    and "n \<in> workers swarm"
  shows "\<exists>d c. fmlookup (deployments w') (swarm_Namespace swarm, deployment_name swarm n) = Some d
    \<and> c \<in> set (template_containers (dep_template d)) \<and> container_env c = node_env swarm n"
proof -
  have "n \<in> set (spec_Nodes (swarm_Spec swarm))" "node_Type n \<noteq> NodeTypeHITL"
    using assms(5) by (simp_all add: workers_def)
  with operator_platform.Reconcile_provisions[OF assms(1,4,2,3)] obtain d where
    d: "fmlookup (deployments w') (swarm_Namespace swarm, deployment_name swarm n) = Some d"
      "is_desired swarm n (input_topic_name (swarm_Name swarm) (node_Name n)) (node_outputs swarm n) (join_topic_of swarm n) d"
    by blast
  then have "template_containers (dep_template d)
      = [\<lparr>container_name = ''agent-runner'', container_image = node_Image n, container_env = node_env swarm n\<rparr>]"
    by (simp add: is_desired_def desired_template_env)
  with d(1) show ?thesis by auto
qed

text \<open>C5: A reconciliation deploys the graph: when it has reported no error, on a Kafka and an API server
  that keep their contracts, the nodes' names differ and are plain, and the environment of each
  pod is what Kubernetes makes of the container in the Deployment found under the Worker's name,
  then every Worker's runner reads exactly the configuration of its node, and all of them are wired
  as one graph: the input topic of each node that names another in dependsOn is among the other's
  output topics, and nothing consumes or publishes into a changelog.\<close>
theorem reconciliation_deploys_graph:
  assumes "operator_platform pf topics deployments" "get_swarm pf key w = (Inr swarm, w1)"
    and "distinct (map node_Name (spec_Nodes (swarm_Spec swarm)))" "plain_swarm swarm"
    and "\<forall>n \<in> workers swarm. valid_utf8 (node_Name n)"
    and "Reconcile pf key w = (None, w')"
    and "\<forall>n \<in> workers swarm. \<forall>d.
      fmlookup (deployments w') (swarm_Namespace swarm, deployment_name swarm n) = Some d
      \<longrightarrow> (\<forall>c \<in> set (template_containers (dep_template d)). provides secrets (container_env c) (env n))"
  shows "(\<forall>n \<in> workers swarm. loadConfig (env n) = node_config secrets swarm n)
    \<and> deployed_swarm secrets swarm env \<and> wiring (workers swarm) (configs env)"
proof -
  have p: "provides secrets (node_env swarm n) (env n)" if "n \<in> workers swarm" for n
    using provisioned_container[OF assms(1-3,6) that] assms(7) that by metis
  then have d: "deployed_swarm secrets swarm env"
    using assms(3-5) by (simp add: deployed_swarm_def)
  have "loadConfig (env n) = node_config secrets swarm n" if "n \<in> workers swarm" for n
    by (rule loadConfig_deployed[OF deployed_worker[OF d that]])
  with d deployed_wiring show ?thesis by blast
qed

subsection \<open>Where correlation IDs come from\<close>


subsection \<open>A task is finished at every node\<close>


subsection \<open>A claim in the example swarm\<close>

text \<open>
  One pod of every Worker of the claims swarm, one after the other: a raw claim goes to the
  intake, whose result goes to the fraud and the coverage agents, whose results the decision
  agent joins. What its answer is worth is up to the people behind the gate.
\<close>

definition empty_startup :: startup where
  "empty_startup =
     \<lparr>producer_error = None,
      mcp_view = (\<lambda>name url. \<lparr>create_error = Some ''no route'', start_error = None,
        initialize_error = None, listed_tools = Inr []\<rparr>),
      kafka = \<lparr>client_error = None, consumer_error = None, partitions = Inr []\<rparr>,
      group_error = None\<rparr>"

definition claims_env :: "AgentNode \<Rightarrow> string \<Rightarrow> string" where
  "claims_env n = container_getenv sample_secrets (node_env claims_swarm n)"

definition ingest_node :: AgentNode where
  "ingest_node = claims_nodes ! 0"

definition fraud_node :: AgentNode where
  "fraud_node = claims_nodes ! 1"

definition coverage_node :: AgentNode where
  "coverage_node = claims_nodes ! 2"

definition topic_of_node :: "AgentNode \<Rightarrow> string" where
  "topic_of_node n = input_topic_name (swarm_Name claims_swarm) (node_Name n)"

definition claim_payload :: string where
  "claim_payload = ''{\"claim_id\":\"CLM-1\"}''"

definition claim_task :: consumer_message where
  "claim_task = \<lparr>cm_topic = topic_of_node ingest_node, cm_partition = 0, cm_offset = 0, cm_value = claim_payload\<rparr>"

definition handed :: "AgentNode \<Rightarrow> AgentNode \<Rightarrow> consumer_message" where
  "handed m n =
     \<lparr>cm_topic = topic_of_node n, cm_partition = 0, cm_offset = 0,
      cm_value = marshal_envelope \<lparr>correlationID = ''CLM-1'', source = node_Name m,
        data = Some (fmap_of_list [(''claim_id'', JStr ''CLM-1'')])\<rparr>\<rparr>"

definition alone :: "consumer_message list \<Rightarrow> pod_action list" where
  "alone msgs = concat (map (\<lambda>msg. Take 0 msg # replicate 12 (Work 0)) msgs)"

definition node_trace :: "AgentNode \<Rightarrow> consumer_message list \<Rightarrow> trace" where
  "node_trace n msgs = snd (scheduled good_services (alone msgs)
     (new_pod (new_handler good_services empty_startup (configs claims_env n) fmempty []), []))"

definition ingest_trace :: trace where
  "ingest_trace = node_trace ingest_node [claim_task]"

definition fraud_trace :: trace where
  "fraud_trace = node_trace fraud_node [handed ingest_node fraud_node]"

definition coverage_trace :: trace where
  "coverage_trace = node_trace coverage_node [handed ingest_node coverage_node]"

definition decision_trace :: trace where
  "decision_trace = node_trace decision_node [handed fraud_node decision_node, handed coverage_node decision_node]"

definition has_payload :: "AgentNode \<Rightarrow> string \<Rightarrow> trace \<Rightarrow> bool" where
  "has_payload n v tr \<longleftrightarrow> list_ex (\<lambda>r. snd r = Some v) (topic_records (topic_of_node n) tr)"

fun marks_payload :: "string option \<Rightarrow> event \<Rightarrow> bool" where
  "marks_payload v (Marked msg) = (v = Some (cm_value msg))"
| "marks_payload v e = False"

definition has_marked :: "trace \<Rightarrow> string option \<Rightarrow> bool" where
  "has_marked tr v \<longleftrightarrow> list_ex (marks_payload v) tr"

definition consumed :: "(AgentNode \<times> trace) list \<Rightarrow> bool" where
  "consumed runs \<longleftrightarrow> list_all (\<lambda>(n, tr). list_all (\<lambda>(m, tr').
     list_all (\<lambda>r. snd r = None \<or> has_marked tr (snd r)) (topic_records (topic_of_node n) tr')) runs) runs"

definition claims_runs :: "(AgentNode \<times> trace) list" where
  "claims_runs = [(ingest_node, ingest_trace), (fraud_node, fraud_trace),
     (coverage_node, coverage_trace), (decision_node, decision_trace)]"

text \<open>All records have one key, and the last one is a tombstone.\<close>

definition buried_last :: "(string \<times> string option) list \<Rightarrow> bool" where
  "buried_last rs \<longleftrightarrow> rs \<noteq> [] \<and> snd (last rs) = None \<and> list_all (\<lambda>r. fst r = fst (last rs)) rs"

lemma replay_buried_last:
  assumes "buried_last rs"
  shows "fmlookup (replay fmempty rs) k = None"
proof (cases "k = fst (last rs)")
  case True
  obtain xs r where rs: "rs = xs @ [r]" using assms by (cases rs rule: rev_cases) (simp_all add: buried_last_def)
  with assms True show ?thesis by (simp add: buried_last_def applyHydratedRecord_def)
next
  case False
  then have "k \<notin> fst ` set rs" using assms unfolding buried_last_def list_all_iff by (metis imageE)
  with replay_keys[of fmempty rs k] show ?thesis by auto
qed

definition claims_flow :: "(AgentNode \<times> trace) list \<Rightarrow> bool" where
  "claims_flow runs \<longleftrightarrow>
     has_payload fraud_node (cm_value (handed ingest_node fraud_node)) (snd (runs ! 0))
     \<and> has_payload coverage_node (cm_value (handed ingest_node coverage_node)) (snd (runs ! 0))
     \<and> has_payload decision_node (cm_value (handed fraud_node decision_node)) (snd (runs ! 1))
     \<and> has_payload decision_node (cm_value (handed coverage_node decision_node)) (snd (runs ! 2))
     \<and> has_marked (snd (runs ! 0)) (Some claim_payload)
     \<and> consumed runs
     \<and> buried_last (topic_records (join_topic_of claims_swarm decision_node) (snd (runs ! 3)))"

lemma claims_flow: "claims_flow claims_runs"
  by code_simp

definition claims_outside :: "AgentNode \<Rightarrow> string set" where
  "claims_outside n = (if n = ingest_node then {claim_payload} else {})"

lemma claims_workers: "workers claims_swarm = {ingest_node, fraud_node, coverage_node, decision_node}"
proof -
  have "filter (\<lambda>n. node_Type n \<noteq> NodeTypeHITL) (spec_Nodes (swarm_Spec claims_swarm))
      = [ingest_node, fraud_node, coverage_node, decision_node]" by code_simp
  moreover have "workers claims_swarm = set (filter (\<lambda>n. node_Type n \<noteq> NodeTypeHITL) (spec_Nodes (swarm_Spec claims_swarm)))"
    by (simp add: workers_def)
  ultimately show ?thesis by (simp only: list.set)
qed

lemma claims_differ: "distinct [ingest_node, fraud_node, coverage_node, decision_node]"
  by (simp add: ingest_node_def fraud_node_def coverage_node_def decision_node_def claims_nodes_def sample_node_def)

lemma claims_deployed: "deployed_swarm sample_secrets claims_swarm claims_env"
proof -
  have "list_all (\<lambda>n. valid_utf8 (node_Name n) \<and> distinct (map env_name (node_env claims_swarm n)))
      (spec_Nodes (swarm_Spec claims_swarm))" by code_simp
  then show ?thesis
    using claims_plain claims_names_distinct container_provides
    by (auto simp: deployed_swarm_def claims_env_def workers_def list_all_iff)
qed

interpretation claims_wiring: wiring "workers claims_swarm" "configs claims_env"
  by (rule deployed_wiring[OF claims_deployed])

lemma claims_topic: "n \<in> workers claims_swarm \<Longrightarrow> inputTopic (configs claims_env n) = topic_of_node n"
  by (simp add: deployed_node[OF claims_deployed] topic_of_node_def)

lemma claims_depend:
  "node_DependsOn ingest_node = []" "node_DependsOn fraud_node = [node_Name ingest_node]"
  "node_DependsOn coverage_node = [node_Name ingest_node]"
  "node_DependsOn decision_node = [node_Name fraud_node, node_Name coverage_node]"
  "distinct (map node_Name [ingest_node, fraud_node, coverage_node, decision_node])"
  by (simp_all add: ingest_node_def fraud_node_def coverage_node_def decision_node_def claims_nodes_def sample_node_def)

lemma claims_acyclic: "acyclic (edges (workers claims_swarm) (configs claims_env))"
proof -
  have "edges (workers claims_swarm) (configs claims_env)
      \<subseteq> measure (\<lambda>n. if n = ingest_node then 0 else if n = decision_node then 2 else 1)"
    using claims_differ claims_depend
    by (auto simp: edges_def deployed_node[OF claims_deployed] claims_workers)
  from wf_acyclic[OF wf_subset[OF wf_measure this]] show ?thesis .
qed

lemma alone_takes: "Take k msg \<in> set (alone msgs) \<Longrightarrow> msg \<in> set msgs"
  by (auto simp: alone_def)

lemma good_visit_nothing: "visit good_services [] (fmdom (fmempty :: joins)) = []"
  by code_simp

lemma claims_node_runs:
  assumes "n \<in> workers claims_swarm" "w n = (no_pods, [])"
    and "\<forall>msg \<in> set msgs. cm_value msg \<in> offers_from_others (workers claims_swarm) (configs claims_env) claims_outside w n"
  shows "\<exists>fl. graph_steps (workers claims_swarm) (configs claims_env) claims_outside w (w(n := (fl, node_trace n msgs)))"
  unfolding node_trace_def
  by (rule first_pod_runs[where ws = "workers claims_swarm" and w = w and n = n, OF assms(1,2)])
    (use assms(3) alone_takes good_visit_nothing in \<open>auto simp: empty_startup_def hydrateJoinState_def\<close>)

lemma has_payload_offered:
  assumes "has_payload n v tr" "m \<in> workers claims_swarm" "n \<in> workers claims_swarm" "m \<noteq> n" "snd (w m) = tr"
  shows "v \<in> offers_from_others (workers claims_swarm) (configs claims_env) claims_outside w n"
  by (rule offered_by[OF assms(2,4)])
    (use assms in \<open>force simp: has_payload_def list_ex_iff claims_topic\<close>)

lemma claims_run_exists:
  "\<exists>w. graph_steps (workers claims_swarm) (configs claims_env) claims_outside empty_world w
     \<and> (\<forall>(n, tr) \<in> set claims_runs. snd (w n) = tr)"
proof -
  let ?steps = "graph_steps (workers claims_swarm) (configs claims_env) claims_outside"
  have d: "ingest_node \<noteq> fraud_node" "ingest_node \<noteq> coverage_node" "ingest_node \<noteq> decision_node"
    "fraud_node \<noteq> coverage_node" "fraud_node \<noteq> decision_node" "coverage_node \<noteq> decision_node"
    using claims_differ by simp_all
  note d = d d[symmetric]
  have ws: "ingest_node \<in> workers claims_swarm" "fraud_node \<in> workers claims_swarm"
    "coverage_node \<in> workers claims_swarm" "decision_node \<in> workers claims_swarm"
    by (simp_all add: claims_workers)
  note flow = claims_flow[unfolded claims_flow_def claims_runs_def]
  obtain f0 where s0: "?steps empty_world (empty_world(ingest_node := (f0, ingest_trace)))"
    using claims_node_runs[OF ws(1), of empty_world "[claim_task]"]
    by (auto simp: empty_world_def ingest_trace_def claim_task_def claims_outside_def offered_outside)
  let ?w1 = "empty_world(ingest_node := (f0, ingest_trace))"
  have "cm_value (handed ingest_node fraud_node)
      \<in> offers_from_others (workers claims_swarm) (configs claims_env) claims_outside ?w1 fraud_node"
    by (rule has_payload_offered[OF _ ws(1,2) d(1)]) (use flow in simp_all)
  then obtain f1 where s1: "?steps ?w1 (?w1(fraud_node := (f1, fraud_trace)))"
    using claims_node_runs[OF ws(2), of ?w1 "[handed ingest_node fraud_node]"] d
    by (auto simp: empty_world_def fraud_trace_def)
  let ?w2 = "?w1(fraud_node := (f1, fraud_trace))"
  have "cm_value (handed ingest_node coverage_node)
      \<in> offers_from_others (workers claims_swarm) (configs claims_env) claims_outside ?w2 coverage_node"
    by (rule has_payload_offered[OF _ ws(1,3) d(2)]) (use flow d in simp_all)
  then obtain f2 where s2: "?steps ?w2 (?w2(coverage_node := (f2, coverage_trace)))"
    using claims_node_runs[OF ws(3), of ?w2 "[handed ingest_node coverage_node]"] d
    by (auto simp: empty_world_def coverage_trace_def)
  let ?w3 = "?w2(coverage_node := (f2, coverage_trace))"
  have "cm_value (handed fraud_node decision_node)
      \<in> offers_from_others (workers claims_swarm) (configs claims_env) claims_outside ?w3 decision_node"
    by (rule has_payload_offered[OF _ ws(2,4) d(5)]) (use flow d in simp_all)
  moreover have "cm_value (handed coverage_node decision_node)
      \<in> offers_from_others (workers claims_swarm) (configs claims_env) claims_outside ?w3 decision_node"
    by (rule has_payload_offered[OF _ ws(3,4) d(6)]) (use flow d in simp_all)
  ultimately obtain f3 where s3: "?steps ?w3 (?w3(decision_node := (f3, decision_trace)))"
    using claims_node_runs[OF ws(4), of ?w3 "[handed fraud_node decision_node, handed coverage_node decision_node]"] d
    by (auto simp: empty_world_def decision_trace_def)
  from s0 s1 s2 s3 have "?steps empty_world (?w3(decision_node := (f3, decision_trace)))"
    by (meson rtranclp_trans)
  then show ?thesis
    by (rule_tac exI[of _ "?w3(decision_node := (f3, decision_trace))"]) (use d in \<open>simp add: claims_runs_def\<close>)
qed

lemma claims_run_set: "n \<in> workers claims_swarm \<Longrightarrow> \<exists>tr. (n, tr) \<in> set claims_runs"
  by (auto simp: claims_workers claims_runs_def)

lemma has_marked_iff: "has_marked tr (Some v) \<longleftrightarrow> (\<exists>msg. Marked msg \<in> set tr \<and> cm_value msg = v)"
proof -
  have "marks_payload (Some v) e \<longleftrightarrow> (\<exists>msg. e = Marked msg \<and> cm_value msg = v)" for e
    by (cases e) auto
  then show ?thesis by (auto simp: has_marked_def list_ex_iff)
qed

lemma claims_drained:
  assumes "\<forall>(n, tr) \<in> set claims_runs. snd (w n) = tr"
  shows "drained (workers claims_swarm) (configs claims_env) claims_outside w"
  unfolding drained_def
proof (intro ballI)
  fix n v
  assume n: "n \<in> workers claims_swarm"
    and v: "v \<in> offers (workers claims_swarm) (configs claims_env) claims_outside w n"
  have run: "(m, snd (w m)) \<in> set claims_runs" if "m \<in> workers claims_swarm" for m
    using claims_run_set[OF that] assms by auto
  have "has_marked (snd (w n)) (Some v)"
  proof (cases "v \<in> claims_outside n")
    case True
    then have "n = ingest_node" "v = claim_payload" by (auto simp: claims_outside_def split: if_splits)
    moreover have "snd (w ingest_node) = ingest_trace" using assms by (simp add: claims_runs_def)
    ultimately show ?thesis using claims_flow by (simp add: claims_flow_def claims_runs_def)
  next
    case False
    with v obtain m k where m: "m \<in> workers claims_swarm"
      "(k, Some v) \<in> set (topic_records (topic_of_node n) (snd (w m)))"
      by (auto simp: offers_def claims_topic[OF n])
    have "consumed claims_runs" using claims_flow by (simp add: claims_flow_def)
    from this[unfolded consumed_def list_all_iff] run[OF n] run[OF m(1)] m(2) show ?thesis by fastforce
  qed
  then show "\<exists>msg. cm_value msg = v \<and> Marked msg \<in> set (snd (w n))" by (auto simp: has_marked_iff)
qed



subsection \<open>The example swarm, reconciled\<close>

theorem reconciliation_deploys_graph_witness:
  "deployed_swarm sample_secrets claims_swarm claims_env
   \<and> loadConfig (claims_env decision_node) = node_config sample_secrets claims_swarm decision_node"
proof -
  have v: "\<forall>n \<in> workers claims_swarm. valid_utf8 (node_Name n)"
    using claims_deployed by (simp add: deployed_swarm_def)
  have p: "provides sample_secrets (node_env claims_swarm n) (claims_env n)" if "n \<in> workers claims_swarm" for n
    using claims_deployed that by (simp add: deployed_swarm_def)
  have e: "\<forall>n \<in> workers claims_swarm. \<forall>d.
      fmlookup (fake_deployments (snd (Reconcile fake_platform claims_key claims_world)))
        (swarm_Namespace claims_swarm, deployment_name claims_swarm n) = Some d
      \<longrightarrow> (\<forall>c \<in> set (template_containers (dep_template d)). provides sample_secrets (container_env c) (claims_env n))"
  proof (intro ballI allI impI)
    fix n d c
    assume n: "n \<in> workers claims_swarm" and c: "c \<in> set (template_containers (dep_template d))"
      and d: "fmlookup (fake_deployments (snd (Reconcile fake_platform claims_key claims_world)))
        (swarm_Namespace claims_swarm, deployment_name claims_swarm n) = Some d"
    from n have "n \<in> set (spec_Nodes (swarm_Spec claims_swarm))" "node_Type n \<noteq> NodeTypeHITL"
      by (simp_all add: workers_def)
    with operator_platform.Reconcile_provisions[OF fake_operator.operator_platform_axioms claims_outcome
        get_claims[OF refl] claims_names_distinct] d
    have "is_desired claims_swarm n (input_topic_name (swarm_Name claims_swarm) (node_Name n))
        (node_outputs claims_swarm n) (join_topic_of claims_swarm n) d" by fastforce
    with c have "container_env c = node_env claims_swarm n"
      by (simp add: is_desired_def desired_template_env)
    with p[OF n] show "provides sample_secrets (container_env c) (claims_env n)" by simp
  qed
  from reconciliation_deploys_graph[OF fake_operator.operator_platform_axioms get_claims[OF refl] claims_names_distinct
      claims_plain v claims_outcome e]
  show ?thesis by (simp add: claims_workers)
qed

end
