(* ===== verification/Runner.thy ===== *)
theory Runner
  imports Handler
begin

section \<open>The process of a runner, from start to shutdown (cmd/runner/main.go)\<close>

text \<open>
  \<open>runner_main\<close> is the work of \<open>main\<close>; here is the process around it. \<open>consume_loop\<close> is the
  goroutine that calls \<open>group.Consume\<close> again and again: a call is one session of the consumer group,
  which gives the claims their messages and ends with a rebalance, an error or the cancellation of
  the context. \<open>runner_process\<close> adds what the process opens and closes, in order, and how it ends.
  The functions \<open>main\<close> defers run, last first, when \<open>main\<close> returns, and not at all after a
  \<open>log.Fatalf\<close> or a panic; those of the hydration (cmd/runner/join.go) when it returns.

  A signal ends the loop between two messages here; a process that is stopped in the middle of one
  has done a prefix of what it does here, as a process that crashes has.
\<close>

subsection \<open>Kafka clients\<close>

text \<open>The fields of \<open>sarama.Config\<close> the source sets; \<open>sarama.NewConfig()\<close> is an argument.\<close>

datatype initial_offset = OffsetNewest | OffsetOldest

datatype kafka_version = V3_0_0_0 | OtherVersion string

record sarama_config =
  sc_Version :: kafka_version
  sc_Initial :: initial_offset
  sc_ReturnSuccesses :: bool

definition runner_sarama :: "sarama_config \<Rightarrow> sarama_config" where
  "runner_sarama new = new\<lparr>sc_Version := V3_0_0_0, sc_Initial := OffsetOldest, sc_ReturnSuccesses := True\<rparr>"

definition hydration_sarama :: "sarama_config \<Rightarrow> sarama_config" where
  "hydration_sarama new = new\<lparr>sc_Version := V3_0_0_0\<rparr>"

datatype handle =
    ProducerHandle "string list" sarama_config
  | ToolClient mcp_client
  | HydrationClient "string list" sarama_config
  | HydrationConsumer
  | PartitionConsumer nat
  | GroupHandle "string list" string sarama_config

definition producer_handle :: "sarama_config \<Rightarrow> config \<Rightarrow> handle" where
  "producer_handle new c = ProducerHandle (brokers c) (runner_sarama new)"

definition group_handle :: "sarama_config \<Rightarrow> config \<Rightarrow> handle" where
  "group_handle new c = GroupHandle (brokers c) (nodeName c @ ''-group'') (runner_sarama new)"

datatype connection = Opened handle | Closed handle | ContextCancelled

subsection \<open>What the hydration opens\<close>

text \<open>\<open>hydratePartition\<close> for the partition with this index, and \<open>hydrateJoinState\<close>.\<close>

definition partition_connections :: "nat \<Rightarrow> partition \<Rightarrow> joins \<Rightarrow> connection list" where
  "partition_connections i p js =
     (case newest_offset p of
        Inl e \<Rightarrow> []
      | Inr newest \<Rightarrow>
          if newest = 0 \<or> consume_error p \<noteq> None then []
          else (case hydrate_loop newest js (inputs p) of
                  Waiting \<Rightarrow> [Opened (PartitionConsumer i)]
                | _ \<Rightarrow> [Opened (PartitionConsumer i), Closed (PartitionConsumer i)]))"

fun partitions_connections :: "nat \<Rightarrow> partition list \<Rightarrow> joins \<Rightarrow> connection list" where
  "partitions_connections i [] js = []"
| "partitions_connections i (p # ps) js =
     partition_connections i p js
     @ (case hydratePartition p js of
          Hydrated js' \<Rightarrow> partitions_connections (i + 1) ps js'
        | _ \<Rightarrow> [])"

definition hydration_connections ::
    "kafka_view \<Rightarrow> string list \<Rightarrow> sarama_config \<Rightarrow> string \<Rightarrow> connection list" where
  "hydration_connections kv bs new topic =
     (if topic = [] \<or> client_error kv \<noteq> None then []
      else
        let client = HydrationClient bs (hydration_sarama new);
            returned = hydrateJoinState kv topic \<noteq> Waiting;
            inner = (if consumer_error kv \<noteq> None then []
               else [Opened HydrationConsumer]
                 @ (case partitions kv of Inl e \<Rightarrow> [] | Inr ps \<Rightarrow> partitions_connections 0 ps fmempty)
                 @ (if returned then [Closed HydrationConsumer] else []))
        in [Opened client] @ inner @ (if returned then [Closed client] else []))"

subsection \<open>The loop around \<open>Consume\<close>\<close>

text \<open>One call of \<open>group.Consume\<close>: the messages its claims get, the error it returns, which is
  logged, and whether the context is done after it.\<close>

record session =
  session_msgs :: "consumer_message list"
  session_error :: "string option"
  context_done :: bool

fun consume_loop ::
    "services \<Rightarrow> agentHandler \<Rightarrow> session list \<Rightarrow> trace \<Rightarrow> agentHandler outcome \<times> trace" where
  "consume_loop svc h [] tr = (Ret h, tr)"
| "consume_loop svc h (s # ss) tr =
     (case consumeClaim svc h (session_msgs s) tr of
        (Ret h', tr') \<Rightarrow> if context_done s then (Ret h', tr') else consume_loop svc h' ss tr'
      | (other, tr') \<Rightarrow> (other, tr'))"

subsection \<open>The process\<close>

text \<open>How the process stands: it waits in the hydration or for messages, or it has ended with a
  status.\<close>

datatype status = WaitsToHydrate | Consuming | Exited nat

record process =
  done_work :: "(agentHandler outcome \<times> trace) option"
  connections :: "connection list"
  process_status :: status

fun exit_status :: "'a outcome \<Rightarrow> bool \<Rightarrow> status" where
  "exit_status (Ret h) signalled = (if signalled then Exited 0 else Consuming)"
| "exit_status (Fatal f) signalled = Exited 1"
| "exit_status Panic signalled = Exited 2"

text \<open>The functions \<open>main\<close> has deferred, in the order they run: \<open>closeTools\<close>, \<open>cancel\<close>,
  \<open>producer.Close\<close>.\<close>

definition deferred :: "handle \<Rightarrow> mcp_connections \<Rightarrow> connection list" where
  "deferred producer conns =
     map (\<lambda>c. Closed (ToolClient c)) (kept_clients conns) @ [ContextCancelled, Closed producer]"

definition runner_process ::
    "services \<Rightarrow> startup \<Rightarrow> sarama_config \<Rightarrow> (string \<Rightarrow> string) \<Rightarrow> session list \<Rightarrow> bool \<Rightarrow> trace \<Rightarrow> process" where
  "runner_process svc su new getenv ss signalled tr =
     (let c = loadConfig getenv in
      case producer_error su of
        Some e \<Rightarrow> \<lparr>done_work = Some (Fatal (NoProducer e), tr), connections = [], process_status = Exited 1\<rparr>
      | None \<Rightarrow>
          let conns = connectMCPTools (visit svc tr) (mcp_view su) c;
              cs = Opened (producer_handle new c) # map (\<lambda>k. Opened (ToolClient k)) (kept_clients conns)
                @ hydration_connections (kafka su) (brokers c) new (joinStateTopic c)
          in case hydrateJoinState (kafka su) (joinStateTopic c) of
               Waiting \<Rightarrow> \<lparr>done_work = None, connections = cs, process_status = WaitsToHydrate\<rparr>
             | HydrationFailed e \<Rightarrow>
                 \<lparr>done_work = Some (Fatal (NotHydrated e), tr), connections = cs, process_status = Exited 1\<rparr>
             | Hydrated js \<Rightarrow>
                 (case recover_joins svc (new_handler svc su c js tr) (visit svc tr (fmdom js)) tr of
                    (Ret h1, tr1) \<Rightarrow>
                      (case group_error su of
                         Some e \<Rightarrow>
                           \<lparr>done_work = Some (Fatal (NoConsumerGroup e), tr1), connections = cs,
                            process_status = Exited 1\<rparr>
                       | None \<Rightarrow>
                           let r = consume_loop svc h1 ss tr1;
                               st = exit_status (fst r) signalled
                           in \<lparr>done_work = Some r,
                               connections = cs @ [Opened (group_handle new c)]
                                 @ (if st = Exited 0
                                    then [ContextCancelled, Closed (group_handle new c)]
                                      @ deferred (producer_handle new c) conns
                                    else []),
                               process_status = st\<rparr>)
                  | (other, tr1) \<Rightarrow>
                      \<lparr>done_work = Some (other, tr1), connections = cs, process_status = exit_status other signalled\<rparr>))"

subsection \<open>Sessions are one claim\<close>

text \<open>The messages of the sessions up to the one after which the context is done.\<close>

fun all_messages :: "session list \<Rightarrow> consumer_message list" where
  "all_messages [] = []"
| "all_messages (s # ss) = session_msgs s @ (if context_done s then [] else all_messages ss)"

lemma consumeClaim_append:
  "consumeClaim svc h (msgs @ msgs') tr =
     (case consumeClaim svc h msgs tr of
        (Ret h', tr') \<Rightarrow> consumeClaim svc h' msgs' tr'
      | (other, tr') \<Rightarrow> (other, tr'))"
  by (induction msgs arbitrary: h tr) (auto split: prod.split outcome.split)

lemma consume_loop_claim: "consume_loop svc h ss tr = consumeClaim svc h (all_messages ss) tr"
  by (induction ss arbitrary: h tr)
    (auto simp: consumeClaim_append split: prod.split outcome.split)

lemma process_work: "done_work (runner_process svc su new getenv ss signalled tr) = runner_main svc su getenv (all_messages ss) tr"
  by (simp add: runner_process_def runner_main_def Let_def consume_loop_claim
      split: option.split hydration.split prod.split outcome.split)

subsection \<open>What is open\<close>

fun open_after :: "handle set \<Rightarrow> connection list \<Rightarrow> handle set" where
  "open_after H [] = H"
| "open_after H (Opened x # cs) = open_after (insert x H) cs"
| "open_after H (Closed x # cs) = open_after (H - {x}) cs"
| "open_after H (ContextCancelled # cs) = open_after H cs"

lemma open_after_append [simp]: "open_after H (xs @ ys) = open_after (open_after H xs) ys"
  by (induction H xs rule: open_after.induct) simp_all

lemma opened_tools: "open_after H (map (\<lambda>c. Opened (ToolClient c)) cs) = H \<union> ToolClient ` set cs"
  by (induction cs arbitrary: H) auto

lemma closed_tools: "open_after H (map (\<lambda>c. Closed (ToolClient c)) cs) = H - ToolClient ` set cs"
  by (induction cs arbitrary: H) auto

lemma partitions_closed:
  "hydrate_partitions ps js \<noteq> Waiting \<Longrightarrow> (\<And>k. PartitionConsumer k \<notin> H)
     \<Longrightarrow> open_after H (partitions_connections i ps js) = H"
proof (induction i ps js rule: partitions_connections.induct)
  case (2 i p ps js)
  have "hydratePartition p js \<noteq> Waiting" using 2(2) by (auto split: hydration.splits)
  then have one: "open_after H (partition_connections i p js) = H"
    using 2(3)[of i] by (auto simp: partition_connections_def hydratePartition_def split: sum.splits hydration.splits)
  show ?case
  proof (cases "hydratePartition p js")
    case (Hydrated js')
    with 2 one show ?thesis by simp
  qed (use one in simp_all)
qed simp

text \<open>A hydration that returns, with or without an error, has closed what it opened.\<close>

lemma hydration_closed:
  assumes "hydrateJoinState kv topic \<noteq> Waiting"
    and "\<And>k. PartitionConsumer k \<notin> H" "HydrationConsumer \<notin> H" "\<And>cl. HydrationClient bs cl \<notin> H"
  shows "open_after H (hydration_connections kv bs new topic) = H"
proof (cases "topic = [] \<or> client_error kv \<noteq> None \<or> consumer_error kv \<noteq> None")
  case True
  with assms show ?thesis by (auto simp: hydration_connections_def Let_def)
next
  case False
  show ?thesis
  proof (cases "partitions kv")
    case (Inl e)
    with False assms show ?thesis by (auto simp: hydration_connections_def hydrateJoinState_def Let_def)
  next
    case (Inr ps)
    let ?H = "insert HydrationConsumer (insert (HydrationClient bs (hydration_sarama new)) H)"
    have "hydrate_partitions ps fmempty \<noteq> Waiting"
      using assms(1) False Inr by (simp add: hydrateJoinState_def)
    from partitions_closed[OF this, of ?H 0] assms(2) have "open_after ?H (partitions_connections 0 ps fmempty) = ?H"
      by simp
    with False Inr assms show ?thesis
      by (auto simp: hydration_connections_def Let_def)
  qed
qed

end
