(* ===== verification/RunnerProps.thy ===== *)
theory RunnerProps
  imports Runner HandlerProps
begin

section \<open>Properties of the runner's process\<close>

text \<open>
  The sessions of the consumer group leave no trace in what a runner does; and how its process
  ends, with what it has closed by then.
\<close>


lemma process_cases:
  assumes "p = runner_process svc su new getenv ss signalled tr" "c = loadConfig getenv"
    and "conns = connectMCPTools (visit svc tr) (mcp_view su) c"
  obtains (waits) "done_work p = None" "process_status p = WaitsToHydrate"
    | (stopped) f tr1 where "done_work p = Some (Fatal f, tr1)" "process_status p = Exited 1"
    | (panicked) tr1 where "done_work p = Some (Panic, tr1)" "process_status p = Exited 2"
    | (consumes) r where "done_work p = Some r" "process_status p = exit_status (fst r) signalled"
        "hydrateJoinState (kafka su) (joinStateTopic c) \<noteq> Waiting"
        "connections p = Opened (producer_handle new c)
           # map (\<lambda>k. Opened (ToolClient k)) (kept_clients conns)
           @ hydration_connections (kafka su) (brokers c) new (joinStateTopic c)
           @ [Opened (group_handle new c)]
           @ (if process_status p = Exited 0
              then [ContextCancelled, Closed (group_handle new c)] @ deferred (producer_handle new c) conns
              else [])"
proof (cases "producer_error su")
  case (Some e)
  with assms(1) stopped show ?thesis by (simp add: runner_process_def Let_def)
next
  case None
  show ?thesis
  proof (cases "hydrateJoinState (kafka su) (joinStateTopic c)")
    case (Hydrated js)
    obtain r1 tr1 where r1: "recover_joins svc (new_handler svc su c js tr) (visit svc tr (fmdom js)) tr = (r1, tr1)"
      by fastforce
    note p = assms(1)[unfolded runner_process_def, folded assms(2), unfolded Let_def, folded assms(3),
      unfolded None option.case Hydrated hydration.case r1 prod.case]
    show ?thesis
    proof (cases r1)
      case (Ret h1)
      show ?thesis
      proof (cases "group_error su")
        case None
        with p Ret Hydrated show ?thesis by (intro consumes) simp_all
      qed (use p Ret stopped in simp)
    qed (use p stopped panicked in simp_all)
  next
    case (HydrationFailed e)
    with assms None stopped show ?thesis by (simp add: runner_process_def Let_def)
  next
    case Waiting
    with assms None waits show ?thesis by (simp add: runner_process_def Let_def)
  qed
qed

lemma closed_in_order:
  assumes "p = runner_process svc su new getenv ss signalled tr" "process_status p = Exited 0"
    and "c = loadConfig getenv" "ks = kept_clients (connectMCPTools (visit svc tr) (mcp_view su) c)"
  shows "\<exists>cs. connections p = cs @ [ContextCancelled, Closed (group_handle new c)]
      @ map (\<lambda>k. Closed (ToolClient k)) ks @ [ContextCancelled, Closed (producer_handle new c)]
    \<and> open_after {} cs = {producer_handle new c, group_handle new c} \<union> ToolClient ` set ks"
  using assms(1,3) refl
proof (cases rule: process_cases)
  case (consumes r)
  let ?hs = "hydration_connections (kafka su) (brokers c) new (joinStateTopic c)"
    and ?H = "{producer_handle new c} \<union> ToolClient ` set ks"
  let ?cs = "Opened (producer_handle new c) # map (\<lambda>k. Opened (ToolClient k)) ks @ ?hs @ [Opened (group_handle new c)]"
  have "open_after ?H ?hs = ?H"
    by (rule hydration_closed[OF consumes(3)]) (auto simp: producer_handle_def)
  then have "open_after {} ?cs = {producer_handle new c, group_handle new c} \<union> ToolClient ` set ks"
    by (simp add: opened_tools insert_commute)
  with consumes(4) assms(2,4) show ?thesis by (intro exI[of _ ?cs]) (simp add: deferred_def)
qed (use assms(2) in simp_all)

text \<open>C29: How the process of a runner ends: it waits for ever in the hydration exactly when its work never
  returns, exits with 1 exactly when the work ends with a fatal error and with 2 exactly when it
  panics; otherwise it goes on consuming until a signal and then exits with 0. When it exits with
  0, it has cancelled its context, then left the consumer group, then closed the tool clients it
  kept, then the producer, and had these open before and nothing else: nothing stays open.\<close>
theorem runner_ends:
  assumes "p = runner_process svc su new getenv ss signalled tr" "c = loadConfig getenv"
    and "ks = kept_clients (connectMCPTools (visit svc tr) (mcp_view su) c)"
  shows "(process_status p = WaitsToHydrate \<longleftrightarrow> done_work p = None)
    \<and> (process_status p = Exited 1 \<longleftrightarrow> (\<exists>f tr'. done_work p = Some (Fatal f, tr')))
    \<and> (process_status p = Exited 2 \<longleftrightarrow> (\<exists>tr'. done_work p = Some (Panic, tr')))
    \<and> (process_status p = Exited 0 \<longleftrightarrow> signalled \<and> (\<exists>h tr'. done_work p = Some (Ret h, tr')))
    \<and> (process_status p = Consuming \<longleftrightarrow> \<not> signalled \<and> (\<exists>h tr'. done_work p = Some (Ret h, tr')))
    \<and> (process_status p = Exited 0 \<longrightarrow>
         open_after {} (connections p) = {}
         \<and> (\<exists>cs. connections p = cs @ [ContextCancelled, Closed (group_handle new c)]
                @ map (\<lambda>k. Closed (ToolClient k)) ks @ [ContextCancelled, Closed (producer_handle new c)]
              \<and> open_after {} cs = {producer_handle new c, group_handle new c} \<union> ToolClient ` set ks))"
proof -
  have st: "(process_status p = WaitsToHydrate \<longleftrightarrow> done_work p = None)
    \<and> (process_status p = Exited 1 \<longleftrightarrow> (\<exists>f tr'. done_work p = Some (Fatal f, tr')))
    \<and> (process_status p = Exited 2 \<longleftrightarrow> (\<exists>tr'. done_work p = Some (Panic, tr')))
    \<and> (process_status p = Exited 0 \<longleftrightarrow> signalled \<and> (\<exists>h tr'. done_work p = Some (Ret h, tr')))
    \<and> (process_status p = Consuming \<longleftrightarrow> \<not> signalled \<and> (\<exists>h tr'. done_work p = Some (Ret h, tr')))"
    using assms(1) refl refl
  proof (cases rule: process_cases)
    case (consumes r)
    then show ?thesis by (cases r; cases "fst r") auto
  qed auto
  have "open_after {} (connections p) = {}" if "process_status p = Exited 0"
  proof -
    from closed_in_order[OF assms(1) that assms(2,3)] obtain cs where
      "connections p = cs @ [ContextCancelled, Closed (group_handle new c)]
        @ map (\<lambda>k. Closed (ToolClient k)) ks @ [ContextCancelled, Closed (producer_handle new c)]"
      "open_after {} cs = {producer_handle new c, group_handle new c} \<union> ToolClient ` set ks" by blast
    then show ?thesis by (auto simp: closed_tools)
  qed
  with st closed_in_order[OF assms(1) _ assms(2,3)] show ?thesis by simp
qed

text \<open>A node with one tool server, two sessions with one message each, and a signal.\<close>

definition tool_env :: "string \<Rightarrow> string" where
  "tool_env v =
     (if v = ''NODE_NAME'' then ''fraud'' else if v = ''INPUT_TOPIC'' then ''fraud-in''
      else if v = ''OUTPUT_TOPICS'' then ''out'' else if v = ''KAFKA_BROKERS'' then ''kafka:9092''
      else if v = ''MCP_ENDPOINTS'' then ''db=http://db'' else if v = ''LLM_BASE_URL'' then ''http://llm'' else [])"

definition tool_startup :: startup where
  "tool_startup =
     \<lparr>producer_error = None,
      mcp_view = (\<lambda>name url. \<lparr>create_error = None, start_error = None, initialize_error = None, listed_tools = Inr []\<rparr>),
      kafka = \<lparr>client_error = None, consumer_error = None, partitions = Inr []\<rparr>, group_error = None\<rparr>"

definition new_sarama :: sarama_config where
  "new_sarama = \<lparr>sc_Version = OtherVersion ''2.1.0'', sc_Initial = OffsetNewest, sc_ReturnSuccesses = False\<rparr>"

definition two_sessions :: "session list" where
  "two_sessions =
     [\<lparr>session_msgs = [contribution ''intake'' 0], session_error = Some ''rebalance'', context_done = False\<rparr>,
      \<lparr>session_msgs = [contribution ''intake'' 1], session_error = None, context_done = True\<rparr>]"

definition signalled_process :: process where
  "signalled_process = runner_process good_services tool_startup new_sarama tool_env two_sessions True []"

theorem runner_ends_witness:
  "process_status signalled_process = Exited 0 \<and> open_after {} (connections signalled_process) = {}
   \<and> Opened (ToolClient ''db'') \<in> set (connections signalled_process)"
proof -
  have x: "process_status signalled_process = Exited 0 \<and> Opened (ToolClient ''db'') \<in> set (connections signalled_process)"
    by code_simp
  with runner_ends[OF signalled_process_def refl refl] show ?thesis by simp
qed

end
