(* ===== verification/Spec2Isabelle.thy ===== *)
theory Spec2Isabelle
  imports ClaimsProps TaskProps ManagerProps DeepCopyProps GraphProps RunnerProps
begin

text \<open>
  A verification development for kafkaagentswarm: an operator that turns an \<open>AgentSwarm\<close>
  resource into Kafka topics and Deployments, and the runner each Deployment runs, which takes
  tasks off its node's input topic, drives an LLM and MCP tools until there is an answer, and
  publishes it to the input topics of the nodes downstream. A node with more than one dependency
  joins their contributions first and keeps them in a compacted changelog topic.

  \<^bold>\<open>The parts and where they are.\<close>
  \<^item> \<open>Prelude\<close>: Go's maps (\<open>gomap\<close>, nil is \<open>None\<close>) and the order of a loop over one.
  \<^item> \<open>GoStrings\<close>, \<open>GoJson\<close>, \<open>JsonLaws\<close>: what the source uses of the packages strings,
    encoding/hex, fmt (\<open>%q\<close>) and encoding/json: UTF-8, the encoder, a scanner with fuel, and
    decoding into maps and structs. The locale \<open>codec\<close> is the contract of a JSON form; it is
    interpreted for maps (\<open>JsonLaws\<close>), envelopes (\<open>Envelope\<close>) and join states
    (\<open>JoinLaws\<close>). The fuel of a scan is twice the length of the text plus two, and
    \<open>scan_value_fuel\<close> shows that more never matters.
  \<^item> \<open>Config\<close>: \<open>config\<close>, \<open>splitCSV\<close>, \<open>loadConfig\<close> of cmd/runner/main.go.
  \<^item> \<open>Envelope\<close>: cmd/runner/envelope.go.
  \<^item> \<open>Services\<close>: Kafka, the LLM, the tool servers and the sources of nondeterminism, as
    functions of the trace of all external actions so far. A crash leaves a prefix of the trace;
    what is durable is computed from it.
  \<^item> \<open>Join\<close>, \<open>JoinLaws\<close>: cmd/runner/join.go, its JSON form, merging and the replay of the
    changelog with partitions and compaction.
  \<^item> \<open>Mcp\<close>: cmd/runner/mcp.go. \<open>Agent\<close>, \<open>AgentLaws\<close>: cmd/runner/agent.go; the loop
    runs on the number of turns left, from \<open>maxAgentTurns\<close>.
  \<^item> \<open>Handler\<close>, \<open>HandlerLaws\<close>: cmd/runner/handler.go and the start of main.go. A
    \<open>log.Fatalf\<close> is the outcome \<open>Fatal\<close>, the panic on a nil map \<open>Panic\<close>. The invariant
    \<open>synced\<close> says that every join in memory is what the changelog says.
  \<^item> \<open>Lives\<close>: any number of lives of the pod of a fan-in node with crashes between any two
    actions, as an inductive set of traces, and the invariant \<open>kept\<close> of all of them.
  \<^item> \<open>Pod\<close>, \<open>PodLaws\<close>: the same handler with several claims at a time. \<open>claim_step\<close> cuts
    handler.go and the agent loop into steps of one external action or one access to the shared
    map, \<open>pod_step\<close> interleaves the claims, and \<open>alive\<close> are the traces of any number of lives of
    such a pod. \<open>invariant_step\<close> says what one step keeps, \<open>alive_safe\<close> what all traces have.
  \<^item> \<open>Fleet\<close>: several pods of one node, each with the correlation IDs of its partitions, that start,
    recover, consume and end in any order; the invariant is one of rely and guarantee between them.
  \<^item> \<open>Outputs\<close>, \<open>Graph\<close>: what the pods of a node publish, and all Workers of a swarm as one step
    relation in which a node takes what others have published to its input topic. The locale
    \<open>wiring\<close> is what the runners rely on from the operator; \<open>GraphProps\<close> shows that a reconciled
    swarm provides it, and interprets it on the claims swarm.
  \<^item> \<open>Runner\<close>: the process around the work of main.go: the loop of \<open>Consume\<close> with its sessions, the
    clients that are opened and closed, the signal and the exit status.
  \<^item> \<open>Results\<close>, \<open>Progress\<close>: what consuming a message can send and what it costs, and what
    it gets done when Kafka acknowledges and the agent answers (\<open>cooperates\<close>).
  \<^item> \<open>Controller\<close>, \<open>ControllerLaws\<close>: api/v1alpha1/agentswarm_types.go and
    internal/controller/agentswarm_controller.go over a record of the calls it makes. The
    reconciliation refines a plan of actions. The locales \<open>kafka_admin\<close> (the interface of that
    name) and \<open>operator_platform\<close>, which extends it, say what the calls promise;
    \<open>FakePlatform\<close> interprets both on the in-memory admin client of the controller's tests
    with a plain object store, and runs the tests' own spec on it.
  \<^item> \<open>Deployed\<close>: the configuration of a node, from the resource through the environment of
    the pod to \<open>loadConfig\<close>.
  \<^item> \<open>GoFlags\<close>, \<open>FlagLaws\<close>, \<open>Manager\<close>: Go's command-line flags, and cmd/main.go over them, with
    the registration of the types in api/v1alpha1/groupversion_info.go: flags, options of the two
    servers and of the manager, the calls of \<open>main\<close> and its exit status.
  \<^item> \<open>GoMemory\<close>, \<open>MemoryLaws\<close>, \<open>DeepCopy\<close>: slices and pointers on a heap, and the functions
    of api/v1alpha1/zz_generated.deepcopy.go. The locale \<open>deep_copier\<close> is the contract of a deep
    copy; it passes from elements to slices, pointers and structs and is interpreted for slices
    of strings and endpoints and for \<open>KafkaConfig\<close>. The locale \<open>deep_types\<close> says that the copying
    functions of the Kubernetes types meet it; then, as sublocales, those of all other types do.
  \<^item> \<open>ClaimsServer\<close>: examples/claims-processing/mcp-server/main.go, its tools and set-up.

  \<^bold>\<open>What is shown.\<close> \<open>MessageProps\<close>: what survives the environment and the wire, and which
  correlation IDs are chosen. \<open>JoinProps\<close>: merging, replay, partitions, compaction.
  \<open>AgentProps\<close>: bounds and results of the loop, the tools. \<open>HandlerProps\<close>: when
  messages are marked, crash safety of one message, completeness of joins, recovery.
  \<open>PodProps\<close>: one claim is the sequential handler; a race of two. \<open>TaskProps\<close>: what a node
  publishes is well-formed, its work is bounded, and tasks and joins get done. \<open>RunnerProps\<close>:
  sessions make no difference, and how a runner ends. \<open>GraphProps\<close>: a reconciliation deploys the
  graph, correlation IDs come from outside, and a task reaches every node. \<open>OperatorProps\<close>:
  plan, edges, provisioning, frame, idempotence, names. \<open>ManagerProps\<close>: arguments and flags,
  protective defaults, exit status. \<open>DeepCopyProps\<close>: copies are equal to and independent of the
  original. \<open>ClaimsProps\<close>: the results of the example's tools as the agent sees them. This theory:
  the properties that span operator and runner, up to \<open>no_task_lost\<close>, \<open>replicas_lose_nothing\<close> and
  \<open>marked_joins_complete\<close>. Several properties state behaviour that departs from what the comments
  of the source promise; each says so.

  A message is read as an envelope by \<open>parseOrWrapEnvelope\<close>; the correlation ID of a raw payload can
  depend on the order of a map and on random bytes. \<open>read_as\<close> is any envelope a message can be read
  as; a message that holds an envelope has one (\<open>read_as_enveloped\<close>).

  \<^bold>\<open>What is not modelled.\<close> Log lines; the errors of closing a connection, which are only logged;
  contexts except in hydration and at the shutdown; a rebalance in the middle of an unfinished join,
  except for the run in \<open>moved_partition_loses_contribution\<close>, which shows that the code loses
  contributions then (the rebalances of \<open>Fleet\<close> and \<open>Graph\<close> move other correlation IDs only); the
  partitions and offsets of the input topics (a message is offered when its payload is in the
  topic, any number of times); numbers of JSON beyond their literal, the nesting limit and case
  folding outside ASCII in the JSON decoder beyond the two runes Go folds; the HumanInTheLoop
  gates, which are people (what they answer comes from outside); the MCP protocol, Kafka and its
  client, the Kubernetes API machinery and the zap logger, which are libraries; the end-to-end
  tests, which are shell commands.

  \<^bold>\<open>Plan.\<close> Next: the liveness of the whole graph, with services that cooperate, from
  \<open>straight_gets_done\<close> and \<open>join_gets_done\<close>.
\<close>

section \<open>The nodes of a swarm\<close>

text \<open>C8: The runner reads exactly the wiring the operator wrote: in a pod whose environment is what
  Kubernetes makes of the Deployment's, loadConfig gives the brokers, the name, the topics, the
  dependencies, the tools, the endpoints, the instructions and the LLM settings of the node, as
  long as the names, tools and URLs have no comma, dollar sign or space at the ends.\<close>
theorem runner_reads_its_node:
  assumes "plain_swarm swarm" "node \<in> set (spec_Nodes (swarm_Spec swarm))"
    and "provides secrets
      (deployment_env swarm node (input_topic_name (swarm_Name swarm) (node_Name node))
         (node_outputs swarm node) (join_topic_of swarm node)) getenv"
  shows "loadConfig getenv = node_config secrets swarm node"
  using loadConfig_deployed[OF assms(1,2)] assms(3) by (simp add: node_env_def)

theorem runner_reads_its_node_witness:
  "dependsOn (loadConfig decision_env) = [''fraud-detection-agent'', ''coverage-verifier-agent'']
   \<and> llmAPIKey (loadConfig decision_env) = ''key of llm-credentials''"
proof -
  have "loadConfig decision_env = node_config sample_secrets claims_swarm decision_node"
    by (rule runner_reads_its_node[OF claims_plain decision_node_facts(1)
          decision_provides[unfolded node_env_def]])
  then show ?thesis
    by (simp add: node_config_def decision_node_def claims_nodes_def sample_node_def sample_llm_def
        sample_secrets_def)
qed


definition bare_node :: AgentNode where
  "bare_node = (sample_node ''intake'' NodeTypeWorker [] [])\<lparr>node_LLM := defaulted_llm None\<rparr>"

definition bare_env :: "string \<Rightarrow> string" where
  "bare_env = container_getenv sample_secrets (node_env (sample_swarm ''bare'' [bare_node]) bare_node)"




section \<open>Contributions travel\<close>

text \<open>C7: An edge of the graph carries a result: when the runner of a node has published a result
  and a second node names the first in dependsOn, there is a record in the input topic the second
  node's runner consumes, keyed with the correlation ID, which that runner reads as an envelope
  with the same correlation ID, the same data, and as its source the name of the first node,
  which is one of the dependencies it joins.\<close>
theorem edge_carries_result:
  assumes "plain_swarm swarm" "n \<in> set (spec_Nodes (swarm_Spec swarm))"
    and "m \<in> set (spec_Nodes (swarm_Spec swarm))" "node_Name n \<in> set (node_DependsOn m)"
    and "provides secrets (node_env swarm n) getn" "provides secrets (node_env swarm m) getm"
    and "cfg h = loadConfig getn" "publish svc h cid out tr = (None, tr')"
    and "valid_utf8 cid" "cid \<noteq> []" "valid_utf8 (node_Name n)" "wf_object out"
  shows "\<exists>v. (cid, Some v) \<in> set (topic_records (inputTopic (loadConfig getm)) tr')
    \<and> (\<forall>ord buf. parseOrWrapEnvelope ord buf v
         = \<lparr>correlationID = cid, source = node_Name n, data = Some out\<rparr>)
    \<and> node_Name n \<in> set (dependsOn (loadConfig getm))"
proof -
  let ?t = "input_topic_name (swarm_Name swarm) (node_Name m)"
    and ?e = "\<lparr>correlationID = cid, source = node_Name n, data = Some out\<rparr>"
  have cn: "loadConfig getn = node_config secrets swarm n" and cm: "loadConfig getm = node_config secrets swarm m"
    using loadConfig_deployed assms(1-3,5,6) by blast+
  have t: "?t \<in> set (outputTopics (cfg h))"
    using assms(3,4) by (auto simp: assms(7) cn node_config_def node_outputs_def in_downstream intro!: imageI)
  have tr': "tr' = tr @ published h cid out" using publish_trace[OF assms(8)] by simp
  have "Sent (output_message h cid out ?t) Acked \<in> set tr'"
    using t by (auto simp: tr' published_def)
  then have "(cid, Some (marshal_envelope ?e)) \<in> set (topic_records ?t tr')"
    by (force simp: topic_records_def output_message_def assms(7) cn node_config_def)
  moreover have "wf_envelope ?e" using assms(9,11,12) by (simp add: wf_envelope_def)
  then have "parseOrWrapEnvelope ord buf (marshal_envelope ?e) = ?e" for ord buf
    using assms(10) by (simp add: parseOrWrapEnvelope_def unmarshal_marshal_envelope)
  ultimately show ?thesis using assms(4) by (auto simp: cm node_config_def)
qed

definition fraud_env :: "string \<Rightarrow> string" where
  "fraud_env = container_getenv sample_secrets (node_env claims_swarm fraud_node)"

definition fraud_runner :: agentHandler where
  "fraud_runner = decision_handler\<lparr>cfg := loadConfig fraud_env\<rparr>"

lemma fraud_facts:
  "fraud_node \<in> set (spec_Nodes (swarm_Spec claims_swarm))"
  "node_Name fraud_node \<in> set (node_DependsOn decision_node)"
  by (simp_all add: fraud_node_def decision_node_def claims_swarm_def sample_swarm_def claims_nodes_def
      sample_node_def)

theorem edge_carries_result_witness:
  "\<exists>v. (''CLM-1'', Some v) \<in> set (topic_records (inputTopic (loadConfig decision_env))
     (snd (publish good_services fraud_runner ''CLM-1'' risk_answer [])))"
proof -
  have "distinct (map env_name (node_env claims_swarm fraud_node))" by code_simp
  then have p: "provides sample_secrets (node_env claims_swarm fraud_node) fraud_env"
    unfolding fraud_env_def by (rule container_provides)
  have c: "cfg fraud_runner = loadConfig fraud_env" by (simp add: fraud_runner_def)
  have "fst (publish good_services fraud_runner ''CLM-1'' risk_answer []) = None" by code_simp
  then have pub: "publish good_services fraud_runner ''CLM-1'' risk_answer []
      = (None, snd (publish good_services fraud_runner ''CLM-1'' risk_answer []))"
    by (cases "publish good_services fraud_runner ''CLM-1'' risk_answer []") simp
  have v: "valid_utf8 ''CLM-1''" "''CLM-1'' \<noteq> []" "valid_utf8 (node_Name fraud_node)" "wf_object risk_answer"
    by code_simp+
  show ?thesis
    using edge_carries_result[OF claims_plain fraud_facts(1) decision_node_facts(1) fraud_facts(2) p
        decision_provides c pub v] by blast
qed

section \<open>Contributions survive\<close>

text \<open>No contribution to a join is ever lost. Consider a fan-in node as the operator deploys it,
  and any number of lives of its pod, one after the other, each of which starts by reading the
  changelog, consumes any messages, and may crash between any two actions, whatever Kafka, the
  LLM and the tools answer. At every moment, for every message that is marked as consumed and
  holds an envelope, either the changelog has a contribution of its source under its correlation
  ID, or the node has published a result for that correlation ID to all its output topics.\<close>
theorem no_contribution_lost:
  assumes "plain_swarm swarm" "node \<in> set (spec_Nodes (swarm_Spec swarm))" "is_fan_in node"
    and "provides secrets (node_env swarm node) getenv"
    and "reachable getenv tr" "Marked msg \<in> set tr" "enveloped msg e"
  shows "has_source (loadConfig getenv) (correlationID e) (source e) tr
    \<or> resolved (loadConfig getenv) (correlationID e) tr"
proof -
  have "1 < length (dependsOn (loadConfig getenv))"
    using deployed_config(1)[OF assms(1,2,4)] assms(3) by (simp add: is_fan_in_def)
  from reachable_kept[OF assms(5) deployed_config(3)[OF assms(1,2,4,3)] this] assms(6)
  show ?thesis by (auto simp: kept_def read_as_enveloped[OF assms(7)])
qed

definition fraud_envelope :: envelope where
  "fraud_envelope = \<lparr>correlationID = ''CLM-1'', source = ''fraud-detection-agent'', data = Some risk_answer\<rparr>"

definition fraud_message :: consumer_message where
  "fraud_message =
     \<lparr>cm_topic = ''claims-processing-swarm-claim-decision-agent-input'', cm_partition = 0, cm_offset = 0,
      cm_value = marshal_envelope fraud_envelope\<rparr>"

definition first_life :: trace where
  "first_life = (case runner_main good_services empty_startup decision_env [fraud_message] [] of
     Some (r, tr) \<Rightarrow> tr | None \<Rightarrow> [])"

theorem no_contribution_lost_witness:
  "has_source (loadConfig decision_env) ''CLM-1'' ''fraud-detection-agent'' first_life
   \<or> resolved (loadConfig decision_env) ''CLM-1'' first_life"
proof -
  have "runner_main good_services empty_startup decision_env [fraud_message] [] \<noteq> None" by code_simp
  then obtain r where m: "runner_main good_services empty_startup decision_env [fraud_message] []
      = Some (r, [] @ first_life @ [])"
    by (auto simp: first_life_def)
  have f: "faithful empty_startup (loadConfig decision_env) []"
    by (simp add: faithful_def empty_startup_def hydrateJoinState_def log_of_def)
  have v: "\<forall>msg \<in> set [fraud_message]. valid_utf8 (cm_value msg)" by code_simp
  from reachable.life[OF reachable.birth f v m] have r: "reachable decision_env first_life" by simp
  have k: "Marked fraud_message \<in> set first_life" by code_simp
  have e: "enveloped fraud_message fraud_envelope" by code_simp
  from no_contribution_lost[OF claims_plain decision_node_facts decision_provides r k e]
  show ?thesis by (simp add: fraud_envelope_def)
qed

subsection \<open>Several claims at a time\<close>


definition coverage_message :: consumer_message where
  "coverage_message =
     \<lparr>cm_topic = cm_topic fraud_message, cm_partition = 1, cm_offset = 0,
      cm_value = marshal_envelope (fraud_envelope\<lparr>source := ''coverage-verifier-agent''\<rparr>)\<rparr>"

definition decision_pod :: pod where
  "decision_pod = (case runner_main good_services empty_startup decision_env [] [] of
     Some (Ret h, tr) \<Rightarrow> new_pod h | _ \<Rightarrow> new_pod decision_handler)"

text \<open>Both claims are between recording and marking when the first one marks.\<close>

definition two_claims :: "pod_action list" where
  "two_claims =
     [Take 0 fraud_message, Take 1 coverage_message, Work 0, Work 1, Work 1, Work 0, Work 0]"

definition two_claims_trace :: trace where
  "two_claims_trace = snd (scheduled good_services two_claims (decision_pod, []))"


subsection \<open>Several pods at a time\<close>


text \<open>Two pods of the decision node: each takes, records and marks a message of its own.\<close>

definition second_envelope :: envelope where
  "second_envelope = fraud_envelope\<lparr>correlationID := ''CLM-2''\<rparr>"

definition second_message :: consumer_message where
  "second_message =
     \<lparr>cm_topic = cm_topic fraud_message, cm_partition = 1, cm_offset = 7,
      cm_value = marshal_envelope second_envelope\<rparr>"

definition replica :: "string \<Rightarrow> member" where
  "replica cid = new_member good_services empty_startup (loadConfig decision_env) fmempty {cid} []"

definition first_replica_trace :: trace where
  "first_replica_trace =
     snd (scheduled good_services (Take 0 fraud_message # replicate 3 (Work 0)) (member_pod (replica ''CLM-1''), []))"

definition replicas_trace :: trace where
  "replicas_trace =
     snd (scheduled good_services (Take 0 second_message # replicate 3 (Work 0))
       (member_pod (replica ''CLM-2''), first_replica_trace))"

lemma given_own: "enveloped msg e \<Longrightarrow> given {correlationID e} c msg"
  by (simp add: given_def enveloped_envelope)

lemma replicas_run:
  "\<exists>fl. fleet_steps (loadConfig decision_env) (no_pods, []) (fl, replicas_trace)"
proof -
  let ?c = "loadConfig decision_env" and ?r = "(no_pods(0 \<mapsto> replica ''CLM-1''))(1 \<mapsto> replica ''CLM-2'')"
  have h: "hydrateJoinState (kafka empty_startup) (joinStateTopic ?c) = Hydrated fmempty"
    and f: "faithful empty_startup ?c []"
    by (simp_all add: faithful_def empty_startup_def hydrateJoinState_def log_of_def)
  have ps: "producer_error empty_startup = None" by (simp add: empty_startup_def)
  have t: "takes (replica cid)" for cid
  proof -
    have "visit good_services [] (fmdom fmempty) = ([] :: string list)" by code_simp
    then show ?thesis by (simp add: takes_def replica_def new_member_def)
  qed
  have "fleet_step ?c (no_pods, []) (no_pods(0 \<mapsto> replica ''CLM-1''), [])"
    unfolding replica_def by (rule launch[OF _ _ ps h f]) (simp_all add: no_pods_def unowned_def)
  moreover have "fleet_step ?c (no_pods(0 \<mapsto> replica ''CLM-1''), []) (?r, [])"
    unfolding replica_def
    by (rule launch[OF _ _ ps h f]) (auto simp: no_pods_def unowned_def new_member_def)
  ultimately have started: "fleet_steps ?c (no_pods, []) (?r, [])" by simp
  have e: "enveloped fraud_message fraud_envelope" "enveloped second_message second_envelope" by code_simp+
  have o: "owns (replica cid) = {cid}" for cid by (simp add: replica_def new_member_def)
  have g: "given (owns (replica ''CLM-1'')) ?c fraud_message" "given (owns (replica ''CLM-2'')) ?c second_message"
    using given_own[OF e(1), of ?c] given_own[OF e(2), of ?c]
    by (simp_all add: o fraud_envelope_def second_envelope_def)
  obtain p1 where p1: "scheduled good_services (Take 0 fraud_message # replicate 3 (Work 0))
      (member_pod (replica ''CLM-1''), []) = (p1, first_replica_trace)"
    by (metis first_replica_trace_def prod.collapse)
  obtain p2 where p2: "scheduled good_services (Take 0 second_message # replicate 3 (Work 0))
      (member_pod (replica ''CLM-2''), first_replica_trace) = (p2, replicas_trace)"
    by (metis replicas_trace_def prod.collapse)
  let ?r1 = "?r(0 \<mapsto> replica ''CLM-1''\<lparr>member_pod := p1\<rparr>)"
  have "fleet_steps ?c (?r, []) (?r1, first_replica_trace)"
    by (rule member_scheduled[OF t _ _ p1]) (use g in auto)
  moreover have "fleet_steps ?c (?r1, first_replica_trace)
      (?r1(1 \<mapsto> replica ''CLM-2''\<lparr>member_pod := p2\<rparr>), replicas_trace)"
    by (rule member_scheduled[OF t _ _ p2]) (use g in auto)
  ultimately show ?thesis using started by (meson rtranclp_trans)
qed


section \<open>Joins complete\<close>

lemma main_recovers:
  assumes "producer_error su = None" "group_error su = None" "c = loadConfig getenv"
    and "hydrateJoinState (kafka su) (joinStateTopic c) = Hydrated js"
    and "h = new_handler svc su c js tr" "cooperates svc h" "visits_all svc"
    and "fmlookup js cid = Some st" "length (dependsOn c) \<le> gomap_len (received st)"
  shows "\<exists>h' tr'. runner_main svc su getenv [] tr = Some (Ret h', tr') \<and> resolved c cid tr'"
proof -
  have h: "joins h = js" "cfg h = c" by (simp_all add: assms(5) new_handler_def)
  from recover_resolves[OF assms(6), of "visit svc tr (fmdom js)" tr] obtain h' tr' where
    r: "recover_joins svc h (visit svc tr (fmdom js)) tr = (Ret h', tr')"
      "\<And>cid st. cid \<in> set (visit svc tr (fmdom js)) \<Longrightarrow> fmlookup js cid = Some st
        \<Longrightarrow> length (dependsOn c) \<le> gomap_len (received st) \<Longrightarrow> resolved c cid tr'"
    unfolding h by blast
  have "cid \<in> set (visit svc tr (fmdom js))"
    using iterates_set[OF visits_iterates[OF assms(7), where m = js and tr = tr], of cid] assms(8) by simp
  with r(2) assms(8,9) have "resolved c cid tr'" by blast
  moreover have "runner_main svc su getenv [] tr = Some (Ret h', tr')"
    using assms(1-5) r(1) by (simp add: runner_main_def Let_def)
  ultimately show ?thesis by blast
qed


lemma hydrate_everything: "hydratePartition (kept_partition (\<lambda>i. True) rs) fmempty = Hydrated (replay fmempty rs)"
  by (simp add: hydrate_kept kept_records_def records_from_def)

text \<open>Both contributions are recorded and marked, and the pod ends before the agent answers.\<close>

definition both_marked :: "pod_action list" where
  "both_marked = two_claims @ [Work 1]"

definition both_marked_trace :: trace where
  "both_marked_trace = snd (scheduled good_services both_marked (decision_pod, []))"

definition next_startup :: startup where
  "next_startup = empty_startup\<lparr>kafka := \<lparr>client_error = None, consumer_error = None,
     partitions = Inr [kept_partition (\<lambda>i. True)
       (topic_records (joinStateTopic (loadConfig decision_env)) both_marked_trace)]\<rparr>\<rparr>"

lemma good_services_visit: "visits_all good_services"
proof -
  have "visit good_services tr S = sorted_list_of_fset S" for tr S
    by (simp add: good_services_def sample_services_def)
  moreover have "distinct (sorted_list_of_fset S)" for S :: "string fset"
    by (simp add: sorted_list_of_fset.rep_eq)
  ultimately show ?thesis
    unfolding visits_all_def by simp
qed


end
